(* ===== verification/C_Prelude.thy ===== *)
theory C_Prelude
  imports Main "HOL-Library.Word"
begin

text \<open>
  Shared vocabulary of the development: the C integer types as natural numbers with the
  wrap-around written out (\<open>u32\<close>, \<open>u64\<close>, \<open>sub32\<close>, \<open>sub64\<close>, \<open>s32\<close>), guarded array
  reads, \<^verbatim>\<open>memcpy\<close> into a buffer, and the little-endian layout of integers and arrays in
  memory with its round trips, stated once in the locale \<open>le_codec\<close> for every layout of fixed
  width. The collections \<open>c_arith\<close> and \<open>c_mem\<close> carry the integer and the buffer facts into
  the component theories.
\<close>

unbundle bit_operations_syntax

named_theorems c_arith "facts on wrapped C integers"
named_theorems c_mem "facts on byte buffers"

type_synonym byte = "8 word"

section \<open>C integers\<close>

definition u32 :: "nat \<Rightarrow> nat" where
  "u32 n = n mod 2 ^ 32"

definition u64 :: "nat \<Rightarrow> nat" where
  "u64 n = n mod 2 ^ 64"

text \<open>Unsigned subtraction \<open>a - b\<close> of operands that already fit the type.\<close>

definition sub32 :: "nat \<Rightarrow> nat \<Rightarrow> nat" where
  "sub32 a b = (if b \<le> a then a - b else u32 (a + 2 ^ 32 - b))"

definition sub64 :: "nat \<Rightarrow> nat \<Rightarrow> nat" where
  "sub64 a b = (if b \<le> a then a - b else u64 (a + 2 ^ 64 - b))"

text \<open>Conversions between \<^verbatim>\<open>uint32_t\<close> and \<^verbatim>\<open>int32_t\<close> keep the bit pattern.\<close>

definition s32 :: "nat \<Rightarrow> int" where
  "s32 n = (if u32 n < 2 ^ 31 then int (u32 n) else int (u32 n) - 2 ^ 32)"

definition u32_of_int :: "int \<Rightarrow> nat" where
  "u32_of_int x = nat (x mod 2 ^ 32)"

lemma u32_less [simp, c_arith]: "u32 n < 4294967296"
  by (simp add: u32_def)

lemma u32_id [c_arith]: "n < 2 ^ 32 \<Longrightarrow> u32 n = n"
  by (simp add: u32_def)

lemma u64_id [c_arith]: "n < 2 ^ 64 \<Longrightarrow> u64 n = n"
  by (simp add: u64_def)

lemma u32_le [c_arith]: "u32 n \<le> n"
  by (simp add: u32_def)

lemma u64_le [c_arith]: "u64 n \<le> n"
  by (simp add: u64_def)

lemma u32_0 [simp]: "u32 0 = 0"
  by (simp add: u32_def)

lemma u64_0 [simp]: "u64 0 = 0"
  by (simp add: u64_def)

lemma sub32_ge [c_arith]: "b \<le> a \<Longrightarrow> sub32 a b = a - b"
  by (simp add: sub32_def)

lemma sub64_ge [c_arith]: "b \<le> a \<Longrightarrow> sub64 a b = a - b"
  by (simp add: sub64_def)

lemma sub32_less: "a < 2 ^ 32 \<Longrightarrow> sub32 a b < 2 ^ 32"
  by (auto simp: sub32_def)

lemma u32_of_int_less [simp]: "u32_of_int x < 4294967296"
  by (simp add: u32_of_int_def nat_less_iff)

lemma u32_of_int_nonneg: "0 \<le> x \<Longrightarrow> x < 2 ^ 32 \<Longrightarrow> u32_of_int x = nat x"
  by (simp add: u32_of_int_def)

lemma s32_u32_of_int: "- (2 ^ 31) \<le> x \<Longrightarrow> x < 2 ^ 31 \<Longrightarrow> s32 (u32_of_int x) = x"
proof (cases "0 \<le> x")
  case True
  assume "x < 2 ^ 31"
  with True show ?thesis by (simp add: s32_def u32_of_int_def u32_id)
next
  case False
  assume "- (2 ^ 31) \<le> x"
  with False have "x mod 2 ^ 32 = x + 2 ^ 32"
    using mod_pos_pos_trivial [of "x + 2 ^ 32" "2 ^ 32"] by simp
  with False \<open>- (2 ^ 31) \<le> x\<close> show ?thesis
    by (simp add: s32_def u32_of_int_def u32_id nat_less_iff)
qed

lemma s32_nonneg_iff: "n < 2 ^ 32 \<Longrightarrow> 0 \<le> s32 n \<longleftrightarrow> n < 2 ^ 31"
  by (simp add: s32_def u32_id)

section \<open>Arrays and buffers\<close>

text \<open>
  An array read with the value the model gives an index outside the array. C leaves such a read
  undefined; the theorems about these reads carry the bound on the index.
\<close>

definition rd :: "'a \<Rightarrow> 'a list \<Rightarrow> nat \<Rightarrow> 'a" where
  "rd d xs i = (if i < length xs then xs ! i else d)"

lemma rd_in [simp, c_mem]: "i < length xs \<Longrightarrow> rd d xs i = xs ! i"
  by (simp add: rd_def)

lemma rd_out [simp, c_mem]: "length xs \<le> i \<Longrightarrow> rd d xs i = d"
  by (simp add: rd_def)

lemma rd_update: "rd d (xs[i := v]) j = (if i = j \<and> i < length xs then v else rd d xs j)"
  by (simp add: rd_def nth_list_update)

text \<open>\<^verbatim>\<open>memcpy(buf + off, xs, length xs)\<close> and \<^verbatim>\<open>memcpy(dst, buf + off, n)\<close>.\<close>

definition memput :: "'a list \<Rightarrow> nat \<Rightarrow> 'a list \<Rightarrow> 'a list" where
  "memput buf off xs = take off buf @ xs @ drop (off + length xs) buf"

definition memget :: "'a list \<Rightarrow> nat \<Rightarrow> nat \<Rightarrow> 'a list" where
  "memget buf off n = take n (drop off buf)"

lemma length_memput [simp, c_mem]:
  "off + length xs \<le> length buf \<Longrightarrow> length (memput buf off xs) = length buf"
  by (simp add: memput_def)

lemma length_memget [simp, c_mem]: "off + n \<le> length buf \<Longrightarrow> length (memget buf off n) = n"
  by (simp add: memget_def)

lemma memget_memput_same [c_mem]:
  "off + length xs \<le> length buf \<Longrightarrow> n = length xs \<Longrightarrow> memget (memput buf off xs) off n = xs"
  by (simp add: memget_def memput_def)

lemma memget_memput_before [c_mem]:
  "o2 + n \<le> off \<Longrightarrow> off + length xs \<le> length buf \<Longrightarrow>
   memget (memput buf off xs) o2 n = memget buf o2 n"
  by (auto simp: memget_def memput_def drop_take)

lemma memget_memput_after [c_mem]:
  "off + length xs \<le> o2 \<Longrightarrow> off + length xs \<le> length buf \<Longrightarrow>
   memget (memput buf off xs) o2 n = memget buf o2 n"
  by (simp add: memget_def memput_def min_def)

lemma memget_all [simp, c_mem]: "n = length buf \<Longrightarrow> memget buf 0 n = buf"
  by (simp add: memget_def)

section \<open>Little-endian layout\<close>

definition le32 :: "nat \<Rightarrow> byte list" where
  "le32 n = [word_of_nat n, word_of_nat (n div 2 ^ 8), word_of_nat (n div 2 ^ 16),
             word_of_nat (n div 2 ^ 24)]"

definition get32 :: "byte list \<Rightarrow> nat" where
  "get32 bs = unat (rd 0 bs 0) + 2 ^ 8 * unat (rd 0 bs 1) + 2 ^ 16 * unat (rd 0 bs 2)
            + 2 ^ 24 * unat (rd 0 bs 3)"

definition le64 :: "nat \<Rightarrow> byte list" where
  "le64 n = le32 (n mod 2 ^ 32) @ le32 (n div 2 ^ 32)"

definition get64 :: "byte list \<Rightarrow> nat" where
  "get64 bs = get32 (take 4 bs) + 2 ^ 32 * get32 (take 4 (drop 4 bs))"

definition les32 :: "int \<Rightarrow> byte list" where
  "les32 x = le32 (u32_of_int x)"

definition gets32 :: "byte list \<Rightarrow> int" where
  "gets32 bs = s32 (get32 bs)"

text \<open>Arrays of a fixed-width element, and their reading back.\<close>

definition enc_array :: "('a \<Rightarrow> byte list) \<Rightarrow> 'a list \<Rightarrow> byte list" where
  "enc_array enc xs = concat (map enc xs)"

fun dec_array :: "nat \<Rightarrow> (byte list \<Rightarrow> 'a) \<Rightarrow> nat \<Rightarrow> byte list \<Rightarrow> 'a list" where
  "dec_array w dec 0 bs = []"
| "dec_array w dec (Suc n) bs = dec (take w bs) # dec_array w dec n (drop w bs)"

locale le_codec =
  fixes enc :: "'a \<Rightarrow> byte list"
    and dec :: "byte list \<Rightarrow> 'a"
    and width :: nat
    and fits :: "'a \<Rightarrow> bool"
  assumes length_enc: "length (enc x) = width"
    and dec_enc: "fits x \<Longrightarrow> dec (enc x) = x"
begin

lemma length_enc_array: "length (enc_array enc xs) = width * length xs"
  by (induction xs) (simp_all add: enc_array_def length_enc)

lemma dec_take_enc: "fits x \<Longrightarrow> dec (take width (enc x @ rest)) = x"
  by (simp add: length_enc dec_enc)

lemma dec_enc_array:
  "list_all fits xs \<Longrightarrow> dec_array width dec (length xs) (enc_array enc xs @ rest) = xs"
  by (induction xs) (simp_all add: enc_array_def length_enc dec_enc)

lemma memget_enc_array:
  assumes "list_all fits xs" and "off + width * length xs \<le> length buf"
    and "n = width * length xs" and "k = length xs"
  shows "dec_array width dec k (memget (memput buf off (enc_array enc xs)) off n) = xs"
  using assms dec_enc_array [of xs "[]"] memget_memput_same [of off "enc_array enc xs" buf n]
  by (simp add: length_enc_array)

lemma enc_array_inj:
  assumes "list_all fits xs" and "list_all fits ys" and "enc_array enc xs = enc_array enc ys"
    and "length xs = length ys"
  shows "xs = ys"
  using dec_enc_array [OF assms(1), of "[]"] dec_enc_array [OF assms(2), of "[]"] assms(3,4)
  by simp

end

lemma length_le32 [simp]: "length (le32 n) = 4"
  by (simp add: le32_def)

lemma get32_le32: "n < 2 ^ 32 \<Longrightarrow> get32 (le32 n) = n"
proof -
  assume "n < 2 ^ 32"
  then have d: "n div 2 ^ 24 mod 2 ^ 8 = n div 2 ^ 24"
    by (simp add: less_mult_imp_div_less)
  have "get32 (le32 n) = n mod 2 ^ 8 + 2 ^ 8 * (n div 2 ^ 8 mod 2 ^ 8)
      + 2 ^ 16 * (n div 2 ^ 16 mod 2 ^ 8) + 2 ^ 24 * (n div 2 ^ 24 mod 2 ^ 8)"
    by (simp add: get32_def le32_def unat_of_nat)
  also have "\<dots> = n"
    unfolding d using mod_mult2_eq [of n "2 ^ 8" "2 ^ 8"] mod_mult2_eq [of n "2 ^ 16" "2 ^ 8"]
      mod_mult_div_eq [of n "2 ^ 24"] by (simp add: algebra_simps)
  finally show ?thesis .
qed

lemma unat8_less [simp]: "unat (b :: byte) < 256"
proof -
  have "unat b < 2 ^ LENGTH(8)" by (rule unsigned_less)
  then show ?thesis by simp
qed

lemma get32_less: "get32 bs < 2 ^ 32"
proof -
  have "unat (rd 0 bs i) \<le> 255" for i
    using unat8_less [of "rd 0 bs i"] by linarith
  from this [of 0] this [of 1] this [of 2] this [of 3] show ?thesis
    by (simp add: get32_def)
qed

lemma digits256: "x < 256 \<Longrightarrow> (x + 256 * r) mod 256 = x \<and> (x + 256 * r) div 256 = (r :: nat)"
  by simp

lemma le32_get32: "length bs = 4 \<Longrightarrow> le32 (get32 bs) = bs"
proof -
  assume "length bs = 4"
  then obtain a b c d where bs: "bs = [a, b, c, d]"
    by (auto simp: numeral_eq_Suc length_Suc_conv)
  define r2 r1 where "r2 = unat c + 256 * unat d" and "r1 = unat b + 256 * r2"
  have n: "get32 bs = unat a + 256 * r1"
    by (simp add: bs get32_def r1_def r2_def)
  have "get32 bs mod 256 = unat a" "get32 bs div 256 = r1" "r1 mod 256 = unat b" "r1 div 256 = r2"
    "r2 mod 256 = unat c" "r2 div 256 = unat d"
    using digits256 [of "unat a" r1] digits256 [of "unat b" r2] digits256 [of "unat c" "unat d"] n
      r1_def r2_def by simp_all
  moreover have "k div 65536 = k div 256 div 256" "k div 16777216 = k div 256 div 256 div 256"
    for k :: nat
    by (simp_all add: div_mult2_eq [symmetric])
  ultimately show ?thesis
    unfolding le32_def by (simp add: bs word_unat_eq_iff unat_of_nat)
qed

interpretation c32: le_codec le32 get32 4 "\<lambda>n. n < 2 ^ 32"
  by unfold_locales (simp_all add: get32_le32)

interpretation c64: le_codec le64 get64 8 "\<lambda>n. n < 2 ^ 64"
  by unfold_locales
    (simp_all add: le64_def get64_def get32_le32 less_mult_imp_div_less)

interpretation cs32: le_codec les32 gets32 4 "\<lambda>x. - (2 ^ 31) \<le> x \<and> x < 2 ^ 31"
  by unfold_locales (simp_all add: les32_def gets32_def get32_le32 s32_u32_of_int)

end
