(* ===== verification/Nmbm_Types.thy ===== *)
theory Nmbm_Types
  imports C_Prelude
begin

text \<open>
  The data of NMBM, the NAND mapped-block manager of
  \<^verbatim>\<open>src/patchs/5.4/files-5.4/drivers/mtd/nmbm\<close>: the constants and structures of
  \<^verbatim>\<open>nmbm-private.h\<close> and \<^verbatim>\<open>include/nmbm/nmbm.h\<close>, the byte layout of the structures
  that are written to flash, the checksum functions and the round trips of the layouts.

  The lower NAND device is reached through function pointers. They are fields of
  \<open>nmbm_lower_device\<close> here too: functions on the device state \<open>'d\<close>, which stands behind the
  \<^verbatim>\<open>void *arg\<close> of the source. A pointer that may be \<^verbatim>\<open>NULL\<close> is an option. A page read
  takes the old contents of the buffers it is given (\<open>None\<close> for \<^verbatim>\<open>NULL\<close>) and returns the
  new ones. The kernel's \<^verbatim>\<open>crc32_le\<close> is the parameter \<open>crc\<close> of every definition that
  computes a checksum.
\<close>

unbundle bit_operations_syntax

section \<open>Constants\<close>

abbreviation (input) EIO :: int where "EIO \<equiv> 5"
abbreviation (input) EINVAL :: int where "EINVAL \<equiv> 22"
abbreviation (input) ENODEV :: int where "ENODEV \<equiv> 19"
abbreviation (input) EROFS :: int where "EROFS \<equiv> 30"
abbreviation (input) EBADMSG :: int where "EBADMSG \<equiv> 74"
abbreviation (input) EFAULT :: int where "EFAULT \<equiv> 14"

abbreviation (input) NMBM_MAGIC_SIGNATURE :: nat where "NMBM_MAGIC_SIGNATURE \<equiv> 0x304d4d4e"
abbreviation (input) NMBM_MAGIC_INFO_TABLE :: nat where "NMBM_MAGIC_INFO_TABLE \<equiv> 0x314d4d4e"

definition NMBM_VERSION_MAKE :: "nat \<Rightarrow> nat \<Rightarrow> nat" where
  "NMBM_VERSION_MAKE major minor = (major AND 0xffff) OR push_bit 16 (minor AND 0xffff)"

definition NMBM_VER :: nat where
  "NMBM_VER = NMBM_VERSION_MAKE 1 0"

abbreviation (input) NMBM_BITMAP_UNIT_SIZE :: nat where "NMBM_BITMAP_UNIT_SIZE \<equiv> 4"
abbreviation (input) NMBM_BITMAP_BITS_PER_BLOCK :: nat where "NMBM_BITMAP_BITS_PER_BLOCK \<equiv> 2"
abbreviation (input) NMBM_BITMAP_BLOCKS_PER_UNIT :: nat where "NMBM_BITMAP_BLOCKS_PER_UNIT \<equiv> 16"

abbreviation (input) NMBM_SPARE_BLOCK_MULTI :: nat where "NMBM_SPARE_BLOCK_MULTI \<equiv> 1"
abbreviation (input) NMBM_SPARE_BLOCK_DIV :: nat where "NMBM_SPARE_BLOCK_DIV \<equiv> 2"
abbreviation (input) NMBM_SPARE_BLOCK_MIN :: nat where "NMBM_SPARE_BLOCK_MIN \<equiv> 2"
abbreviation (input) NMBM_MGMT_DIV :: nat where "NMBM_MGMT_DIV \<equiv> 16"
abbreviation (input) NMBM_MGMT_BLOCKS_MIN :: nat where "NMBM_MGMT_BLOCKS_MIN \<equiv> 32"
abbreviation (input) NMBM_TRY_COUNT :: nat where "NMBM_TRY_COUNT \<equiv> 3"

abbreviation (input) BLOCK_ST_BAD :: nat where "BLOCK_ST_BAD \<equiv> 0"
abbreviation (input) BLOCK_ST_NEED_REMAP :: nat where "BLOCK_ST_NEED_REMAP \<equiv> 2"
abbreviation (input) BLOCK_ST_GOOD :: nat where "BLOCK_ST_GOOD \<equiv> 3"

abbreviation (input) NMBM_F_CREATE :: "32 word" where "NMBM_F_CREATE \<equiv> 1"
abbreviation (input) NMBM_F_EMPTY_PAGE_ECC_OK :: "32 word" where "NMBM_F_EMPTY_PAGE_ECC_OK \<equiv> 2"
abbreviation (input) NMBM_F_READ_ONLY :: "32 word" where "NMBM_F_READ_ONLY \<equiv> 4"

section \<open>Structures\<close>

datatype nmbm_log_category =
    NMBM_LOG_DEBUG | NMBM_LOG_INFO | NMBM_LOG_WARN | NMBM_LOG_ERR | NMBM_LOG_EMERG
  | NMBM_LOG_MAX

datatype nmbm_oob_mode =
    NMBM_MODE_PLACE_OOB | NMBM_MODE_AUTO_OOB | NMBM_MODE_RAW | NMBM_MODE_MAX

type_synonym buf = "byte list option"

type_synonym 'd read_page_fn =
  "'d \<Rightarrow> nat \<Rightarrow> buf \<Rightarrow> buf \<Rightarrow> nmbm_oob_mode \<Rightarrow> int \<times> buf \<times> buf \<times> 'd"

type_synonym 'd write_page_fn =
  "'d \<Rightarrow> nat \<Rightarrow> buf \<Rightarrow> buf \<Rightarrow> nmbm_oob_mode \<Rightarrow> int \<times> 'd"

type_synonym 'd block_fn = "'d \<Rightarrow> nat \<Rightarrow> int \<times> 'd"

type_synonym crc_fn = "32 word \<Rightarrow> byte list \<Rightarrow> 32 word"

record 'd nmbm_lower_device =
  max_ratio :: nat
  max_reserved_blocks :: nat
  flags :: "32 word"
  nld_size :: nat
  erasesize :: nat
  writesize :: nat
  oobsize :: nat
  oobavail :: nat
  arg :: 'd
  reset_chip :: "('d \<Rightarrow> 'd) option"
  read_page :: "'d read_page_fn option"
  write_page :: "'d write_page_fn option"
  erase_block :: "'d block_fn option"
  is_bad_block :: "'d block_fn option"
  mark_bad_block :: "'d block_fn option"

record nmbm_header =
  magic :: nat
  version :: nat
  hdr_size :: nat
  checksum :: nat

record nmbm_signature =
  sig_header :: nmbm_header
  nand_size :: nat
  block_size :: nat
  page_size :: nat
  spare_size :: nat
  mgmt_start_pb :: nat
  max_try_count :: byte
  sig_padding :: "byte list"

record nmbm_info_table_header =
  ift_header :: nmbm_header
  write_count :: nat
  state_table_off :: nat
  mapping_table_off :: nat
  ift_padding :: nat

record 'd nmbm_instance =
  lower :: "'d nmbm_lower_device"
  rawpage_size :: nat
  rawblock_size :: nat
  rawchip_size :: nat
  writesize_mask :: nat
  erasesize_mask :: nat
  writesize_shift :: nat
  erasesize_shift :: nat
  signature :: nmbm_signature
  info_table_cache :: "byte list"
  info_table_size :: nat
  info_table_spare_blocks :: nat
  info_table :: nmbm_info_table_header
  block_state :: "32 word list"
  block_state_changed :: nat
  state_table_size :: nat
  block_mapping :: "int list"
  block_mapping_changed :: nat
  mapping_table_size :: nat
  page_cache :: "byte list"
  protected :: bool
  block_count :: nat
  data_block_count :: nat
  mgmt_start_ba :: nat
  main_table_ba :: nat
  backup_table_ba :: nat
  mapping_blocks_ba :: nat
  mapping_blocks_top_ba :: nat
  signature_ba :: nat
  log_display_level :: nmbm_log_category

definition lower_flag :: "'d nmbm_lower_device \<Rightarrow> 32 word \<Rightarrow> bool" where
  "lower_flag nld f = (flags nld AND f \<noteq> 0)"

abbreviation read_only :: "'d nmbm_instance \<Rightarrow> bool" where
  "read_only ni \<equiv> lower_flag (lower ni) NMBM_F_READ_ONLY"

section \<open>Byte layout of the structures on flash\<close>

text \<open>
  \<^verbatim>\<open>sizeof(struct nmbm_signature)\<close> is 48: 44 bytes of members, of which the last three are the
  declared padding, and four more because of the alignment of the 64-bit member.
\<close>

abbreviation (input) sizeof_header :: nat where "sizeof_header \<equiv> 16"
abbreviation (input) sizeof_signature :: nat where "sizeof_signature \<equiv> 48"
abbreviation (input) sizeof_info_table :: nat where "sizeof_info_table \<equiv> 32"

definition header_bytes :: "nmbm_header \<Rightarrow> byte list" where
  "header_bytes h = le32 (magic h) @ le32 (version h) @ le32 (hdr_size h) @ le32 (checksum h)"

definition header_of_bytes :: "byte list \<Rightarrow> nmbm_header" where
  "header_of_bytes bs =
     \<lparr>magic = get32 (memget bs 0 4), version = get32 (memget bs 4 4),
      hdr_size = get32 (memget bs 8 4), checksum = get32 (memget bs 12 4)\<rparr>"

definition signature_bytes :: "nmbm_signature \<Rightarrow> byte list" where
  "signature_bytes s = header_bytes (sig_header s) @ le64 (nand_size s) @ le32 (block_size s)
     @ le32 (page_size s) @ le32 (spare_size s) @ le32 (mgmt_start_pb s) @ [max_try_count s]
     @ take 7 (sig_padding s @ replicate 7 0)"

definition signature_of_bytes :: "byte list \<Rightarrow> nmbm_signature" where
  "signature_of_bytes bs =
     \<lparr>sig_header = header_of_bytes (memget bs 0 16), nand_size = get64 (memget bs 16 8),
      block_size = get32 (memget bs 24 4), page_size = get32 (memget bs 28 4),
      spare_size = get32 (memget bs 32 4), mgmt_start_pb = get32 (memget bs 36 4),
      max_try_count = rd 0 bs 40, sig_padding = memget bs 41 7\<rparr>"

definition info_table_bytes :: "nmbm_info_table_header \<Rightarrow> byte list" where
  "info_table_bytes t = header_bytes (ift_header t) @ le32 (write_count t)
     @ le32 (state_table_off t) @ le32 (mapping_table_off t) @ le32 (ift_padding t)"

definition info_table_of_bytes :: "byte list \<Rightarrow> nmbm_info_table_header" where
  "info_table_of_bytes bs =
     \<lparr>ift_header = header_of_bytes (memget bs 0 16), write_count = get32 (memget bs 16 4),
      state_table_off = get32 (memget bs 20 4), mapping_table_off = get32 (memget bs 24 4),
      ift_padding = get32 (memget bs 28 4)\<rparr>"

definition header_fits :: "nmbm_header \<Rightarrow> bool" where
  "header_fits h \<longleftrightarrow> magic h < 2 ^ 32 \<and> version h < 2 ^ 32 \<and> hdr_size h < 2 ^ 32
     \<and> checksum h < 2 ^ 32"

definition signature_fits :: "nmbm_signature \<Rightarrow> bool" where
  "signature_fits s \<longleftrightarrow> header_fits (sig_header s) \<and> nand_size s < 2 ^ 64 \<and> block_size s < 2 ^ 32
     \<and> page_size s < 2 ^ 32 \<and> spare_size s < 2 ^ 32 \<and> mgmt_start_pb s < 2 ^ 32
     \<and> length (sig_padding s) = 7"

definition info_table_fits :: "nmbm_info_table_header \<Rightarrow> bool" where
  "info_table_fits t \<longleftrightarrow> header_fits (ift_header t) \<and> write_count t < 2 ^ 32
     \<and> state_table_off t < 2 ^ 32 \<and> mapping_table_off t < 2 ^ 32 \<and> ift_padding t < 2 ^ 32"

lemma length_le64 [simp]: "length (le64 n) = 8"
  by (simp add: le64_def)

lemma length_header_bytes [simp]: "length (header_bytes h) = 16"
  by (simp add: header_bytes_def)

lemma length_signature_bytes [simp]: "length (signature_bytes s) = 48"
  by (simp add: signature_bytes_def)

lemma length_info_table_bytes [simp]: "length (info_table_bytes t) = 32"
  by (simp add: info_table_bytes_def)

lemma memget_append [c_mem]:
  "memget (xs @ ys) off n =
     (if length xs \<le> off then memget ys (off - length xs) n
      else if off + n \<le> length xs then memget xs off n
      else drop off xs @ take (n - (length xs - off)) ys)"
  by (simp add: memget_def)

interpretation header: le_codec header_bytes header_of_bytes 16 header_fits
  by unfold_locales
    (simp_all add: header_bytes_def header_of_bytes_def header_fits_def memget_append
      memget_def get32_le32)

interpretation signature: le_codec signature_bytes signature_of_bytes 48 signature_fits
  by unfold_locales
    (auto simp: signature_bytes_def signature_of_bytes_def signature_fits_def memget_append
      get32_le32 c64.dec_enc header.dec_enc rd_def nth_append memget_def)

interpretation info_table: le_codec info_table_bytes info_table_of_bytes 32 info_table_fits
  by unfold_locales
    (auto simp: info_table_bytes_def info_table_of_bytes_def info_table_fits_def memget_append
      get32_le32 header.dec_enc memget_def)

section \<open>Checksums\<close>

text \<open>
  \<^verbatim>\<open>nmbm_crc32\<close> feeds the buffer to \<^verbatim>\<open>crc32_le\<close> in pieces of at most \<^verbatim>\<open>UINT_MAX\<close> bytes.
\<close>

function nmbm_crc32 :: "crc_fn \<Rightarrow> 32 word \<Rightarrow> byte list \<Rightarrow> 32 word" where
  "nmbm_crc32 crc crcval p =
     (if p = [] then crcval
      else let chksz = (if length p > 2 ^ 32 - 1 then 2 ^ 32 - 1 else length p)
           in nmbm_crc32 crc (crc crcval (take chksz p)) (drop chksz p))"
  by pat_completeness auto
termination
  by (relation "measure (\<lambda>(crc, crcval, p). length p)") auto

declare nmbm_crc32.simps [simp del]

text \<open>
  What NMBM relies on of \<^verbatim>\<open>crc32_le\<close>: the checksum of two buffers in a row is computed by
  feeding the first result into the second call, and an empty buffer changes nothing.
\<close>

definition crc_chains :: "crc_fn \<Rightarrow> bool" where
  "crc_chains crc \<longleftrightarrow> (\<forall>c. crc c [] = c) \<and> (\<forall>c xs ys. crc c (xs @ ys) = crc (crc c xs) ys)"

lemma nmbm_crc32_whole: "crc_chains crc \<Longrightarrow> nmbm_crc32 crc c p = crc c p"
proof (induction crc c p rule: nmbm_crc32.induct)
  case (1 crc c p)
  define k where "k = (if length p > 2 ^ 32 - 1 then 2 ^ 32 - 1 else length p)"
  show ?case
  proof (cases "p = []")
    case True
    with "1.prems" show ?thesis by (simp add: nmbm_crc32.simps [of crc c "[]"] crc_chains_def)
  next
    case False
    then have "nmbm_crc32 crc c p = nmbm_crc32 crc (crc c (take k p)) (drop k p)"
      by (simp add: nmbm_crc32.simps [of crc c p] k_def Let_def)
    also have "\<dots> = crc (crc c (take k p)) (drop k p)"
      using "1.IH" [OF False _ "1.prems"] by (simp add: k_def)
    also have "\<dots> = crc c p"
      using "1.prems" by (metis append_take_drop_id crc_chains_def)
    finally show ?thesis .
  qed
qed

definition nmbm_check_header :: "crc_fn \<Rightarrow> byte list \<Rightarrow> nat \<Rightarrow> bool" where
  "nmbm_check_header crc data sz =
     (let header = header_of_bytes data in
      if hdr_size header > sz then False
      else
        let nhdr = header\<lparr>checksum := 0\<rparr>;
            new_checksum = nmbm_crc32 crc 0 (header_bytes nhdr);
            new_checksum =
              (if hdr_size header > sizeof_header
               then nmbm_crc32 crc new_checksum
                      (memget data sizeof_header (hdr_size header - sizeof_header))
               else new_checksum)
        in checksum header = unat new_checksum)"

definition nmbm_update_checksum :: "crc_fn \<Rightarrow> byte list \<Rightarrow> byte list" where
  "nmbm_update_checksum crc data =
     (let data0 = memput data 12 (le32 0)
      in memput data0 12
           (le32 (unat (nmbm_crc32 crc 0 (take (hdr_size (header_of_bytes data0)) data0)))))"

text \<open>
  The check reads the header back through its structure; the update works on the bytes. They meet
  because a structure of four words has no other bytes than its fields.
\<close>

lemma header_of_checksum_put:
  assumes "16 \<le> length data" and "c < 2 ^ 32"
  shows "header_of_bytes (memput data 12 (le32 c)) = (header_of_bytes data)\<lparr>checksum := c\<rparr>"
  using assms by (simp add: header_of_bytes_def memget_memput_before memget_memput_same get32_le32)

lemma header_bytes_of_bytes: "length bs = 16 \<Longrightarrow> header_bytes (header_of_bytes bs) = bs"
  using append_take_drop_id [of 4 bs] append_take_drop_id [of 4 "drop 4 bs"]
    append_take_drop_id [of 4 "drop 8 bs"]
  by (simp add: header_bytes_def header_of_bytes_def le32_get32 memget_def)

lemma header_bytes_of_prefix:
  assumes "16 \<le> length data"
  shows "header_bytes (header_of_bytes data) = take 16 data"
proof -
  have "header_of_bytes data = header_of_bytes (take 16 data)"
    by (simp add: header_of_bytes_def memget_def drop_take)
  then show ?thesis using header_bytes_of_bytes [of "take 16 data"] assms by simp
qed

lemma check_header_update_checksum:
  assumes crc: "crc_chains crc"
    and n: "n = hdr_size (header_of_bytes data)" "16 \<le> n" "n \<le> length data" "n \<le> sz"
  shows "nmbm_check_header crc (nmbm_update_checksum crc data) sz"
proof -
  define data0 where "data0 = memput data 12 (le32 0)"
  define c where "c = unat (crc 0 (take n data0))"
  have c32: "c < 2 ^ 32"
    unfolding c_def using unsigned_less [of "crc 0 (take n data0)"] by simp
  have len: "16 \<le> length data" "length data0 = length data"
    using n by (simp_all add: data0_def)
  have h0: "header_of_bytes data0 = (header_of_bytes data)\<lparr>checksum := 0\<rparr>"
    using len(1) by (simp add: data0_def header_of_checksum_put)
  have upd: "nmbm_update_checksum crc data = memput data0 12 (le32 c)"
    using n(1) h0 by (simp add: nmbm_update_checksum_def Let_def nmbm_crc32_whole [OF crc]
        c_def data0_def [symmetric])
  have h: "header_of_bytes (memput data0 12 (le32 c)) = (header_of_bytes data)\<lparr>checksum := c\<rparr>"
    using len c32 h0 by (simp add: header_of_checksum_put)
  have tail: "memget (memput data0 12 (le32 c)) 16 (n - 16) = memget data0 16 (n - 16)"
    using len by (simp add: memget_memput_after)
  have hdr0: "header_bytes ((header_of_bytes data)\<lparr>checksum := 0\<rparr>) = take 16 data0"
    using header_bytes_of_prefix [of data0] h0 len by simp
  have "crc (crc 0 (take 16 data0)) (memget data0 16 (n - 16)) = crc 0 (take n data0)"
    using crc n(2) take_add [of 16 "n - 16" data0]
    by (metis crc_chains_def le_add_diff_inverse memget_def)
  then have "unat (crc (crc 0 (take 16 data0)) (memget data0 16 (n - 16))) = c"
    by (simp add: c_def)
  moreover have "n = 16 \<Longrightarrow> memget data0 16 (n - 16) = []"
    by (simp add: memget_def)
  ultimately show ?thesis
    using n(2,4) crc unfolding nmbm_check_header_def upd h
    by (auto simp: Let_def nmbm_crc32_whole [OF crc] hdr0 tail c_def [symmetric] crc_chains_def
        n(1) [symmetric])
qed

definition nmbm_get_spare_block_count :: "nat \<Rightarrow> nat" where
  "nmbm_get_spare_block_count block_cnt =
     (let val = u32 (block_cnt + NMBM_SPARE_BLOCK_DIV div 2) div NMBM_SPARE_BLOCK_DIV;
          val = u32 (val * NMBM_SPARE_BLOCK_MULTI)
      in if val < NMBM_SPARE_BLOCK_MIN then NMBM_SPARE_BLOCK_MIN else val)"

end
