(* ===== verification/Nmbm_Phys.thy ===== *)
theory Nmbm_Phys
  imports Nmbm_Types
begin

text \<open>
  The address conversions and the \<^verbatim>\<open>High level NAND chip APIs\<close> of \<^verbatim>\<open>nmbm-core.c\<close>
  (lines 151 to 347): page reads, page writes and block erasures with retry, the bad-block check
  and the bad-block marking. The relation \<open>dev_reach W\<close> says how the device state can evolve: by
  the read, reset and bad-block-query callbacks, and by writes, erasures and markings at
  addresses of \<open>W\<close>, these only when the read-only flag is clear. Every operation of the
  development is shown to stay inside it.
\<close>

section \<open>Address conversion\<close>

definition addr2ba :: "'d nmbm_instance \<Rightarrow> nat \<Rightarrow> nat" where
  "addr2ba ni addr = u32 (addr div 2 ^ erasesize_shift ni)"

definition ba2addr :: "'d nmbm_instance \<Rightarrow> nat \<Rightarrow> nat" where
  "ba2addr ni ba = u64 (ba * 2 ^ erasesize_shift ni)"

definition size2blk :: "'d nmbm_instance \<Rightarrow> nat \<Rightarrow> nat" where
  "size2blk ni sz = u32 (sub64 (u64 (sz + erasesize (lower ni))) 1 div 2 ^ erasesize_shift ni)"

section \<open>Log level\<close>

definition nmbm_set_log_level ::
    "'d nmbm_instance \<Rightarrow> nmbm_log_category \<Rightarrow> nmbm_log_category \<times> 'd nmbm_instance" where
  "nmbm_set_log_level ni level = (log_display_level ni, ni\<lparr>log_display_level := level\<rparr>)"

section \<open>Calls of the lower device\<close>

definition set_arg :: "'d \<Rightarrow> 'd nmbm_instance \<Rightarrow> 'd nmbm_instance" where
  "set_arg d ni = ni\<lparr>lower := (lower ni)\<lparr>arg := d\<rparr>\<rparr>"

text \<open>
  Calls through the function pointers. A call through \<^verbatim>\<open>NULL\<close> is undefined in C; the model
  lets it fail with no effect. \<open>nmbm_check_lower_members\<close> refuses a device without the required
  callbacks, so no such call happens after a successful attach.
\<close>

definition lower_read_page ::
    "'d nmbm_instance \<Rightarrow> nat \<Rightarrow> buf \<Rightarrow> buf \<Rightarrow> nmbm_oob_mode \<Rightarrow> int \<times> buf \<times> buf \<times> 'd nmbm_instance" where
  "lower_read_page ni addr data oob mode =
     (case read_page (lower ni) of
        None \<Rightarrow> (- EFAULT, data, oob, ni)
      | Some f \<Rightarrow> (let (ret, data, oob, d) = f (arg (lower ni)) addr data oob mode
                   in (ret, data, oob, set_arg d ni)))"

definition lower_write_page ::
    "'d nmbm_instance \<Rightarrow> nat \<Rightarrow> buf \<Rightarrow> buf \<Rightarrow> nmbm_oob_mode \<Rightarrow> int \<times> 'd nmbm_instance" where
  "lower_write_page ni addr data oob mode =
     (case write_page (lower ni) of
        None \<Rightarrow> (- EFAULT, ni)
      | Some f \<Rightarrow> (let (ret, d) = f (arg (lower ni)) addr data oob mode in (ret, set_arg d ni)))"

definition lower_erase_block :: "'d nmbm_instance \<Rightarrow> nat \<Rightarrow> int \<times> 'd nmbm_instance" where
  "lower_erase_block ni addr =
     (case erase_block (lower ni) of
        None \<Rightarrow> (- EFAULT, ni)
      | Some f \<Rightarrow> (let (ret, d) = f (arg (lower ni)) addr in (ret, set_arg d ni)))"

definition nmbm_reset_chip :: "'d nmbm_instance \<Rightarrow> 'd nmbm_instance" where
  "nmbm_reset_chip ni =
     (case reset_chip (lower ni) of
        None \<Rightarrow> ni
      | Some f \<Rightarrow> set_arg (f (arg (lower ni))) ni)"

section \<open>Page and block operations with retry\<close>

fun read_phys_page_tries ::
    "nat \<Rightarrow> 'd nmbm_instance \<Rightarrow> nat \<Rightarrow> buf \<Rightarrow> buf \<Rightarrow> nmbm_oob_mode \<Rightarrow> int
     \<Rightarrow> int \<times> buf \<times> buf \<times> 'd nmbm_instance" where
  "read_phys_page_tries 0 ni addr data oob mode ret = (ret, data, oob, ni)"
| "read_phys_page_tries (Suc n) ni addr data oob mode _ =
     (let (ret, data, oob, ni) = lower_read_page ni addr data oob mode in
      if ret \<ge> 0 then (ret, data, oob, ni)
      else read_phys_page_tries n (nmbm_reset_chip ni) addr data oob mode ret)"

definition nmbm_read_phys_page ::
    "'d nmbm_instance \<Rightarrow> nat \<Rightarrow> buf \<Rightarrow> buf \<Rightarrow> nmbm_oob_mode \<Rightarrow> int \<times> buf \<times> buf \<times> 'd nmbm_instance" where
  "nmbm_read_phys_page ni addr data oob mode =
     read_phys_page_tries NMBM_TRY_COUNT ni addr data oob mode 0"

fun write_phys_page_tries ::
    "nat \<Rightarrow> 'd nmbm_instance \<Rightarrow> nat \<Rightarrow> buf \<Rightarrow> buf \<Rightarrow> nmbm_oob_mode \<Rightarrow> bool \<times> 'd nmbm_instance" where
  "write_phys_page_tries 0 ni addr data oob mode = (False, ni)"
| "write_phys_page_tries (Suc n) ni addr data oob mode =
     (let (ret, ni) = lower_write_page ni addr data oob mode in
      if ret = 0 then (True, ni)
      else write_phys_page_tries n (nmbm_reset_chip ni) addr data oob mode)"

definition nmbm_write_phys_page ::
    "'d nmbm_instance \<Rightarrow> nat \<Rightarrow> buf \<Rightarrow> buf \<Rightarrow> nmbm_oob_mode \<Rightarrow> bool \<times> 'd nmbm_instance" where
  "nmbm_write_phys_page ni addr data oob mode =
     (if read_only ni then (False, ni)
      else write_phys_page_tries NMBM_TRY_COUNT ni addr data oob mode)"

fun erase_phys_block_tries :: "nat \<Rightarrow> 'd nmbm_instance \<Rightarrow> nat \<Rightarrow> bool \<times> 'd nmbm_instance" where
  "erase_phys_block_tries 0 ni addr = (False, ni)"
| "erase_phys_block_tries (Suc n) ni addr =
     (let (ret, ni) = lower_erase_block ni addr in
      if ret = 0 then (True, ni)
      else erase_phys_block_tries n (nmbm_reset_chip ni) addr)"

definition nmbm_erase_phys_block :: "'d nmbm_instance \<Rightarrow> nat \<Rightarrow> bool \<times> 'd nmbm_instance" where
  "nmbm_erase_phys_block ni addr =
     (if read_only ni then (False, ni) else erase_phys_block_tries NMBM_TRY_COUNT ni addr)"

text \<open>The page cache after a read into it at an offset.\<close>

definition store_buf :: "byte list \<Rightarrow> nat \<Rightarrow> buf \<Rightarrow> byte list" where
  "store_buf cache off b = (case b of None \<Rightarrow> cache | Some bs \<Rightarrow> memput cache off bs)"

text \<open>\<^verbatim>\<open>nmbm_read_phys_page(ni, addr, ni->page_cache, NULL, mode)\<close>\<close>

definition read_into_page_cache ::
    "'d nmbm_instance \<Rightarrow> nat \<Rightarrow> nmbm_oob_mode \<Rightarrow> int \<times> 'd nmbm_instance" where
  "read_into_page_cache ni addr mode =
     (let (ret, data, _, ni) =
        nmbm_read_phys_page ni addr (Some (take (writesize (lower ni)) (page_cache ni))) None mode
      in (ret, ni\<lparr>page_cache := store_buf (page_cache ni) 0 data\<rparr>))"

definition nmbm_check_bad_phys_block :: "'d nmbm_instance \<Rightarrow> nat \<Rightarrow> bool \<times> 'd nmbm_instance" where
  "nmbm_check_bad_phys_block ni ba =
     (let addr = ba2addr ni ba; ws = writesize (lower ni) in
      case is_bad_block (lower ni) of
        Some f \<Rightarrow> (let (ret, d) = f (arg (lower ni)) addr in (ret \<noteq> 0, set_arg d ni))
      | None \<Rightarrow>
          (let (ret, _, oob, ni) =
             nmbm_read_phys_page ni addr None (Some (drop ws (page_cache ni))) NMBM_MODE_RAW;
               ni = ni\<lparr>page_cache := store_buf (page_cache ni) ws oob\<rparr>
           in if ret < 0 \<and> ret \<noteq> - EBADMSG then (True, ni)
              else (rd 0 (page_cache ni) ws \<noteq> 0xff, ni)))"

text \<open>
  The offsets of the pages of a block: the values of \<^verbatim>\<open>off\<close> in
  \<^verbatim>\<open>for (off = 0; off < erasesize; off += writesize)\<close>, for a positive page size.
\<close>

definition page_offs :: "'d nmbm_instance \<Rightarrow> nat list" where
  "page_offs ni = (let ws = writesize (lower ni)
     in map (\<lambda>i. i * ws) [0..<(erasesize (lower ni) + ws - 1) div ws])"

fun mark_pages :: "nat list \<Rightarrow> 'd nmbm_instance \<Rightarrow> nat \<Rightarrow> 'd nmbm_instance" where
  "mark_pages [] ni addr = ni"
| "mark_pages (off # offs) ni addr =
     (let ws = writesize (lower ni);
          (_, ni) = nmbm_write_phys_page ni (u64 (addr + off)) (Some (take ws (page_cache ni)))
                      (Some (drop ws (page_cache ni))) NMBM_MODE_RAW
      in mark_pages offs ni addr)"

definition nmbm_mark_phys_bad_block :: "'d nmbm_instance \<Rightarrow> nat \<Rightarrow> int \<times> 'd nmbm_instance" where
  "nmbm_mark_phys_bad_block ni ba =
     (let addr = ba2addr ni ba in
      if read_only ni then (0, ni)
      else case mark_bad_block (lower ni) of
        Some f \<Rightarrow> (let (ret, d) = f (arg (lower ni)) addr in (ret, set_arg d ni))
      | None \<Rightarrow>
          (let ni = ni\<lparr>page_cache := memput (page_cache ni) 0 (replicate (rawpage_size ni) 0)\<rparr>;
               (level, ni) = nmbm_set_log_level ni NMBM_LOG_MAX;
               ni = mark_pages (page_offs ni) ni addr;
               (_, ni) = nmbm_set_log_level ni level
           in (0, ni)))"

section \<open>What the device can go through\<close>

inductive dev_reach :: "nat set \<Rightarrow> 'd nmbm_lower_device \<Rightarrow> 'd \<Rightarrow> 'd \<Rightarrow> bool"
  for W :: "nat set" and nld :: "'d nmbm_lower_device" where
  dev_stay: "dev_reach W nld d d"
| dev_reset: "dev_reach W nld d e \<Longrightarrow> reset_chip nld = Some f \<Longrightarrow> dev_reach W nld d (f e)"
| dev_read: "dev_reach W nld d e \<Longrightarrow> read_page nld = Some f \<Longrightarrow> f e a b oob m = (r, b', oob', e') \<Longrightarrow>
     dev_reach W nld d e'"
| dev_query: "dev_reach W nld d e \<Longrightarrow> is_bad_block nld = Some f \<Longrightarrow> f e a = (r, e') \<Longrightarrow>
     dev_reach W nld d e'"
| dev_write: "dev_reach W nld d e \<Longrightarrow> \<not> lower_flag nld NMBM_F_READ_ONLY \<Longrightarrow> a \<in> W \<Longrightarrow>
     write_page nld = Some f \<Longrightarrow> f e a b oob m = (r, e') \<Longrightarrow> dev_reach W nld d e'"
| dev_erase: "dev_reach W nld d e \<Longrightarrow> \<not> lower_flag nld NMBM_F_READ_ONLY \<Longrightarrow> a \<in> W \<Longrightarrow>
     erase_block nld = Some f \<Longrightarrow> f e a = (r, e') \<Longrightarrow> dev_reach W nld d e'"
| dev_mark: "dev_reach W nld d e \<Longrightarrow> \<not> lower_flag nld NMBM_F_READ_ONLY \<Longrightarrow> a \<in> W \<Longrightarrow>
     mark_bad_block nld = Some f \<Longrightarrow> f e a = (r, e') \<Longrightarrow> dev_reach W nld d e'"

lemma dev_reach_trans: "dev_reach W nld d e \<Longrightarrow> dev_reach W nld e f \<Longrightarrow> dev_reach W nld d f"
  by (rotate_tac, induction rule: dev_reach.induct) (auto intro: dev_reach.intros)

lemma dev_reach_mono: "dev_reach W nld d e \<Longrightarrow> W \<subseteq> W' \<Longrightarrow> dev_reach W' nld d e"
  by (induction rule: dev_reach.induct) (auto intro: dev_reach.intros)

lemma lower_flag_arg [simp]: "lower_flag (nld\<lparr>arg := x\<rparr>) f = lower_flag nld f"
  by (simp add: lower_flag_def)

lemma dev_reach_arg_imp: "dev_reach W (nld\<lparr>arg := x\<rparr>) d e \<Longrightarrow> dev_reach W nld d e"
  by (induction rule: dev_reach.induct) (auto intro: dev_reach.intros)

lemma dev_reach_arg [simp]: "dev_reach W (nld\<lparr>arg := x\<rparr>) d e = dev_reach W nld d e"
proof
  assume "dev_reach W nld d e"
  then have "dev_reach W (nld\<lparr>arg := x\<rparr>\<lparr>arg := arg nld\<rparr>) d e" by simp
  then show "dev_reach W (nld\<lparr>arg := x\<rparr>) d e" by (rule dev_reach_arg_imp)
qed (rule dev_reach_arg_imp)

text \<open>A physical operation changes nothing of the instance but device and page cache.\<close>

definition phys_step :: "nat set \<Rightarrow> 'd nmbm_instance \<Rightarrow> 'd nmbm_instance \<Rightarrow> bool" where
  "phys_step W ni ni' \<longleftrightarrow> (\<exists>d pc. ni' = ni\<lparr>lower := (lower ni)\<lparr>arg := d\<rparr>, page_cache := pc\<rparr>
     \<and> dev_reach W (lower ni) (arg (lower ni)) d)"

lemma phys_stepI:
  "dev_reach W (lower ni) (arg (lower ni)) d \<Longrightarrow>
   ni' = ni\<lparr>lower := (lower ni)\<lparr>arg := d\<rparr>, page_cache := pc\<rparr> \<Longrightarrow> phys_step W ni ni'"
  unfolding phys_step_def by blast

lemma phys_stepE:
  assumes "phys_step W ni ni'"
  obtains d pc where "ni' = ni\<lparr>lower := (lower ni)\<lparr>arg := d\<rparr>, page_cache := pc\<rparr>"
    and "dev_reach W (lower ni) (arg (lower ni)) d"
  using assms unfolding phys_step_def by blast

lemma phys_step_refl [simp, intro]: "phys_step W ni ni"
  by (rule phys_stepI [where d = "arg (lower ni)" and pc = "page_cache ni"])
    (simp_all add: dev_reach.dev_stay)

lemma phys_step_trans [trans]: "phys_step W a b \<Longrightarrow> phys_step W b c \<Longrightarrow> phys_step W a c"
  by (elim phys_stepE, rule phys_stepI) (auto intro: dev_reach_trans)

lemma phys_step_cache: "phys_step W ni ni' \<Longrightarrow> phys_step W ni (ni'\<lparr>page_cache := pc\<rparr>)"
  by (elim phys_stepE, rule phys_stepI) auto

lemma phys_step_set_arg: "dev_reach W (lower ni) (arg (lower ni)) d \<Longrightarrow> phys_step W ni (set_arg d ni)"
  by (rule phys_stepI [where pc = "page_cache ni"]) (simp_all add: set_arg_def)

lemma phys_step_lower:
  "phys_step W ni ni' \<Longrightarrow> erasesize (lower ni') = erasesize (lower ni)
     \<and> writesize (lower ni') = writesize (lower ni) \<and> flags (lower ni') = flags (lower ni)
     \<and> erasesize_shift ni' = erasesize_shift ni \<and> block_state ni' = block_state ni
     \<and> block_mapping ni' = block_mapping ni"
  by (auto simp: phys_step_def)

lemma phys_step_mono: "phys_step W ni ni' \<Longrightarrow> W \<subseteq> W' \<Longrightarrow> phys_step W' ni ni'"
  by (elim phys_stepE, rule phys_stepI) (auto intro: dev_reach_mono)

lemma phys_step_ba2addr [simp]: "phys_step W ni ni' \<Longrightarrow> ba2addr ni' ba = ba2addr ni ba"
  by (auto simp: phys_step_def ba2addr_def)

lemma reset_chip_step: "phys_step W ni (nmbm_reset_chip ni)"
proof (cases "reset_chip (lower ni)")
  case (Some f)
  have "dev_reach W (lower ni) (arg (lower ni)) (f (arg (lower ni)))"
    by (rule dev_reach.dev_reset [OF dev_reach.dev_stay Some])
  with Some show ?thesis by (simp add: nmbm_reset_chip_def phys_step_set_arg)
qed (simp add: nmbm_reset_chip_def)

lemma lower_read_page_step:
  "lower_read_page ni a b oob m = (r, b', oob', ni') \<Longrightarrow> phys_step W ni ni'"
  by (auto simp: lower_read_page_def split: option.splits prod.splits
      intro!: phys_step_set_arg intro: dev_reach.dev_read dev_reach.dev_stay)

lemma lower_write_page_step:
  "lower_write_page ni a b oob m = (r, ni') \<Longrightarrow> \<not> read_only ni \<Longrightarrow> a \<in> W \<Longrightarrow> phys_step W ni ni'"
  by (auto simp: lower_write_page_def split: option.splits prod.splits
      intro!: phys_step_set_arg intro: dev_reach.dev_write dev_reach.dev_stay)

lemma lower_erase_block_step:
  "lower_erase_block ni a = (r, ni') \<Longrightarrow> \<not> read_only ni \<Longrightarrow> a \<in> W \<Longrightarrow> phys_step W ni ni'"
  by (auto simp: lower_erase_block_def split: option.splits prod.splits
      intro!: phys_step_set_arg intro: dev_reach.dev_erase dev_reach.dev_stay)

lemma phys_step_read_only [simp]: "phys_step W ni ni' \<Longrightarrow> read_only ni' = read_only ni"
  by (auto simp: phys_step_def)

lemma read_phys_page_tries_step:
  "read_phys_page_tries n ni a b oob m r0 = (r, b', oob', ni') \<Longrightarrow> phys_step W ni ni'"
proof (induction n arbitrary: ni b oob r0)
  case (Suc n)
  obtain r1 b1 o1 ni1 where w: "lower_read_page ni a b oob m = (r1, b1, o1, ni1)"
    by (metis prod.exhaust)
  have s1: "phys_step W ni ni1" using w by (rule lower_read_page_step)
  also have "phys_step W ni1 (nmbm_reset_chip ni1)" by (rule reset_chip_step)
  finally have s2: "phys_step W ni (nmbm_reset_chip ni1)" .
  show ?case
  proof (cases "0 \<le> r1")
    case True
    with Suc.prems w s1 show ?thesis by simp
  next
    case False
    with Suc.prems w have "phys_step W (nmbm_reset_chip ni1) ni'" by (auto intro: Suc.IH)
    with s2 show ?thesis by (rule phys_step_trans)
  qed
qed simp

lemma read_phys_page_step:
  "nmbm_read_phys_page ni a b oob m = (r, b', oob', ni') \<Longrightarrow> phys_step W ni ni'"
  unfolding nmbm_read_phys_page_def by (rule read_phys_page_tries_step)

lemma write_phys_page_tries_step:
  "write_phys_page_tries n ni a b oob m = (s, ni') \<Longrightarrow> \<not> read_only ni \<Longrightarrow> a \<in> W \<Longrightarrow>
   phys_step W ni ni'"
proof (induction n arbitrary: ni)
  case (Suc n)
  obtain r ni1 where w: "lower_write_page ni a b oob m = (r, ni1)" by fastforce
  with Suc.prems have s1: "phys_step W ni ni1" by (auto intro: lower_write_page_step)
  then have s2: "phys_step W ni (nmbm_reset_chip ni1)" by (rule phys_step_trans) (rule reset_chip_step)
  with Suc.prems have "\<not> read_only (nmbm_reset_chip ni1)" by simp
  with Suc s1 s2 w show ?case by (auto split: if_splits intro: phys_step_trans)
qed simp

lemma write_phys_page_step:
  "nmbm_write_phys_page ni a b oob m = (s, ni') \<Longrightarrow> a \<in> W \<Longrightarrow> phys_step W ni ni'"
  unfolding nmbm_write_phys_page_def
  by (auto split: if_splits intro: write_phys_page_tries_step)

lemma erase_phys_block_tries_step:
  "erase_phys_block_tries n ni a = (s, ni') \<Longrightarrow> \<not> read_only ni \<Longrightarrow> a \<in> W \<Longrightarrow> phys_step W ni ni'"
proof (induction n arbitrary: ni)
  case (Suc n)
  obtain r ni1 where w: "lower_erase_block ni a = (r, ni1)" by fastforce
  with Suc.prems have s1: "phys_step W ni ni1" by (auto intro: lower_erase_block_step)
  then have s2: "phys_step W ni (nmbm_reset_chip ni1)" by (rule phys_step_trans) (rule reset_chip_step)
  with Suc.prems have "\<not> read_only (nmbm_reset_chip ni1)" by simp
  with Suc s1 s2 w show ?case by (auto split: if_splits intro: phys_step_trans)
qed simp

lemma erase_phys_block_step:
  "nmbm_erase_phys_block ni a = (s, ni') \<Longrightarrow> a \<in> W \<Longrightarrow> phys_step W ni ni'"
  unfolding nmbm_erase_phys_block_def
  by (auto split: if_splits intro: erase_phys_block_tries_step)

lemma read_into_page_cache_step:
  "read_into_page_cache ni a m = (r, ni') \<Longrightarrow> phys_step W ni ni'"
  unfolding read_into_page_cache_def
  by (auto split: prod.splits dest!: read_phys_page_step [where W = W] intro: phys_step_cache)

lemma check_bad_phys_block_step:
  "nmbm_check_bad_phys_block ni ba = (b, ni') \<Longrightarrow> phys_step W ni ni'"
  unfolding nmbm_check_bad_phys_block_def Let_def
  by (auto split: prod.splits option.splits if_splits dest!: read_phys_page_step [where W = W]
      intro: phys_step_cache phys_step_set_arg dev_reach.dev_query dev_reach.dev_stay)

text \<open>The addresses of the bytes of a block, and of the pages a write that starts in it can hit.\<close>

definition blk_addrs :: "'d nmbm_instance \<Rightarrow> nat \<Rightarrow> nat set" where
  "blk_addrs ni ba = {u64 (ba2addr ni ba + k) |k. k < erasesize (lower ni) \<or> k = 0}"

lemma ba2addr_in_blk [simp]: "ba2addr ni ba \<in> blk_addrs ni ba"
proof -
  have "ba2addr ni ba = u64 (ba2addr ni ba + 0)" by (simp add: ba2addr_def u64_def)
  then show ?thesis unfolding blk_addrs_def by blast
qed

lemma phys_step_blk_addrs [simp]: "phys_step W ni ni' \<Longrightarrow> blk_addrs ni' ba = blk_addrs ni ba"
  unfolding blk_addrs_def by (elim phys_stepE) (simp add: ba2addr_def)

lemma page_offs_less: "off \<in> set (page_offs ni) \<Longrightarrow> off < erasesize (lower ni)"
proof -
  assume "off \<in> set (page_offs ni)"
  then obtain i where i: "off = i * writesize (lower ni)"
      "i < (erasesize (lower ni) + writesize (lower ni) - 1) div writesize (lower ni)"
    unfolding page_offs_def Let_def set_map set_upt
    by (elim imageE) (simp only: atLeastLessThan_iff)
  then have ws: "writesize (lower ni) > 0" by (cases "writesize (lower ni) = 0") auto
  from i(2) have "Suc i * writesize (lower ni) \<le> erasesize (lower ni) + writesize (lower ni) - 1"
    by (metis Suc_leI div_times_less_eq_dividend le_trans mult_le_mono1)
  with i ws show ?thesis by simp
qed

lemma page_addr_in_blk: "off \<in> set (page_offs ni) \<Longrightarrow> u64 (ba2addr ni ba + off) \<in> blk_addrs ni ba"
  unfolding blk_addrs_def by (blast dest: page_offs_less)

lemma mark_pages_step:
  "(\<And>off. off \<in> set offs \<Longrightarrow> u64 (a + off) \<in> W) \<Longrightarrow> phys_step W ni (mark_pages offs ni a)"
proof (induction offs arbitrary: ni)
  case (Cons off offs)
  let ?ws = "writesize (lower ni)"
  obtain s ni1 where w: "nmbm_write_phys_page ni (u64 (a + off)) (Some (take ?ws (page_cache ni)))
      (Some (drop ?ws (page_cache ni))) NMBM_MODE_RAW = (s, ni1)" by fastforce
  with Cons.prems have "phys_step W ni ni1" by (auto intro: write_phys_page_step)
  moreover have "phys_step W ni1 (mark_pages offs ni1 a)"
    using Cons.prems by (intro Cons.IH) simp
  ultimately show ?case using w by (auto simp: Let_def intro: phys_step_trans)
qed simp

lemma phys_step_log: "phys_step W (ni\<lparr>log_display_level := l\<rparr>) ni' \<Longrightarrow>
    phys_step W ni (ni'\<lparr>log_display_level := log_display_level ni\<rparr>)"
  by (elim phys_stepE, rule phys_stepI) auto

lemma phys_step_from_cache: "phys_step W (ni\<lparr>page_cache := pc\<rparr>) ni' \<Longrightarrow> phys_step W ni ni'"
  by (elim phys_stepE, rule phys_stepI) auto

lemma mark_phys_bad_block_step:
  assumes "nmbm_mark_phys_bad_block ni ba = (r, ni')" and "blk_addrs ni ba \<subseteq> W"
  shows "phys_step W ni ni'"
proof -
  let ?n0 = "ni\<lparr>page_cache := memput (page_cache ni) 0 (replicate (rawpage_size ni) 0)\<rparr>"
  let ?n1 = "?n0\<lparr>log_display_level := NMBM_LOG_MAX\<rparr>"
  have "page_offs ?n1 = page_offs ni" by (simp add: page_offs_def)
  then have "phys_step W ?n1 (mark_pages (page_offs ?n1) ?n1 (ba2addr ni ba))"
    using assms(2) page_addr_in_blk [of _ ni ba] by (intro mark_pages_step) auto
  then have "phys_step W ?n0
      ((mark_pages (page_offs ?n1) ?n1 (ba2addr ni ba))\<lparr>log_display_level := log_display_level ni\<rparr>)"
    using phys_step_log [where ni = ?n0 and W = W] by fastforce
  then have m: "phys_step W ni
      ((mark_pages (page_offs ?n1) ?n1 (ba2addr ni ba))\<lparr>log_display_level := log_display_level ni\<rparr>)"
    by (rule phys_step_from_cache)
  have "ba2addr ni ba \<in> W" using assms(2) ba2addr_in_blk by blast
  with m assms(1) show ?thesis
    unfolding nmbm_mark_phys_bad_block_def nmbm_set_log_level_def Let_def
    by (auto split: if_splits option.splits prod.splits
        intro: phys_step_set_arg dev_reach.dev_mark dev_reach.dev_stay)
qed

lemmas phys_steps = read_phys_page_step write_phys_page_step erase_phys_block_step
  read_into_page_cache_step check_bad_phys_block_step mark_phys_bad_block_step

end
