(* ===== verification/Nmbm_Blocks.thy ===== *)
theory Nmbm_Blocks
  imports Nmbm_Phys
begin

text \<open>
  The block state table (two bits per block), the walks over good blocks, the bad-block scan and
  the initial mapping table: \<^verbatim>\<open>nmbm-core.c\<close>, lines 420 to 633. The locale \<open>state_table\<close> is the
  interface of the packed table; the walks are shown equal to list searches over it, and the
  built mapping equal to the list of usable blocks. The relation \<open>degrade W\<close> is the contract of
  every operation that may discover bad blocks: it touches nothing but device, page cache and
  state table, and there it only turns blocks bad, each time counting the change.
\<close>

unbundle bit_operations_syntax

section \<open>The block state table\<close>

definition nmbm_get_block_state_raw :: "32 word list \<Rightarrow> nat \<Rightarrow> nat" where
  "nmbm_get_block_state_raw bs ba =
     (let unit = ba div NMBM_BITMAP_BLOCKS_PER_UNIT;
          shift = (ba mod NMBM_BITMAP_BLOCKS_PER_UNIT) * NMBM_BITMAP_BITS_PER_BLOCK
      in unat (drop_bit shift (rd 0 bs unit) AND 3))"

definition nmbm_get_block_state :: "'d nmbm_instance \<Rightarrow> nat \<Rightarrow> nat" where
  "nmbm_get_block_state ni ba = nmbm_get_block_state_raw (block_state ni) ba"

definition put_block_state_raw :: "32 word list \<Rightarrow> nat \<Rightarrow> nat \<Rightarrow> 32 word list" where
  "put_block_state_raw bs ba state =
     (let unit = ba div NMBM_BITMAP_BLOCKS_PER_UNIT;
          shift = (ba mod NMBM_BITMAP_BLOCKS_PER_UNIT) * NMBM_BITMAP_BITS_PER_BLOCK;
          uv = rd 0 bs unit AND NOT (push_bit shift 3);
          uv = uv OR push_bit shift (word_of_nat state)
      in bs[unit := uv])"

definition nmbm_set_block_state ::
    "'d nmbm_instance \<Rightarrow> nat \<Rightarrow> nat \<Rightarrow> bool \<times> 'd nmbm_instance" where
  "nmbm_set_block_state ni ba state =
     (let orig = nmbm_get_block_state_raw (block_state ni) ba;
          state = state AND 3;
          ni = ni\<lparr>block_state := put_block_state_raw (block_state ni) ba state\<rparr>
      in if orig \<noteq> state
         then (True, ni\<lparr>block_state_changed := u32 (block_state_changed ni + 1)\<rparr>)
         else (False, ni))"

text \<open>The number of blocks the table can hold, and of those not marked bad.\<close>

definition table_cap :: "32 word list \<Rightarrow> nat" where
  "table_cap bs = 16 * length bs"

definition live_count :: "32 word list \<Rightarrow> nat" where
  "live_count bs = length (filter (\<lambda>ba. nmbm_get_block_state_raw bs ba \<noteq> BLOCK_ST_BAD) [0..<table_cap bs])"

locale state_table =
  fixes get :: "'t \<Rightarrow> nat \<Rightarrow> nat"
    and put :: "'t \<Rightarrow> nat \<Rightarrow> nat \<Rightarrow> 't"
    and cap :: "'t \<Rightarrow> nat"
  assumes get_put_same: "i < cap t \<Longrightarrow> v < 4 \<Longrightarrow> get (put t i v) i = v"
    and get_put_other: "i \<noteq> j \<Longrightarrow> v < 4 \<Longrightarrow> get (put t i v) j = get t j"
    and cap_put: "cap (put t i v) = cap t"
    and get_out: "cap t \<le> i \<Longrightarrow> get t i = 0"
    and get_less: "get t i < 4"
    and put_get: "put t i (get t i) = t"
begin

lemma get_put: "v < 4 \<Longrightarrow> get (put t i v) j = (if i = j \<and> i < cap t then v else get t j)"
  by (cases "i = j"; cases "i < cap t") (auto simp: get_put_same get_put_other get_out cap_put)

lemma put_bad_fewer:
  assumes "get t i \<noteq> 0"
  shows "length (filter (\<lambda>j. get (put t i 0) j \<noteq> 0) [0..<cap (put t i 0)])
       < length (filter (\<lambda>j. get t j \<noteq> 0) [0..<cap t])"
proof -
  have i: "i < cap t" using assms get_out [of t i] by fastforce
  have "set (filter (\<lambda>j. get (put t i 0) j \<noteq> 0) [0..<cap t]) \<subset> set (filter (\<lambda>j. get t j \<noteq> 0) [0..<cap t])"
    using assms i by (auto simp: get_put)
  then have "card (set (filter (\<lambda>j. get (put t i 0) j \<noteq> 0) [0..<cap t]))
      < card (set (filter (\<lambda>j. get t j \<noteq> 0) [0..<cap t]))"
    by (intro psubset_card_mono) simp_all
  then show ?thesis by (simp only: distinct_card [OF distinct_filter] distinct_upt cap_put)
qed

end

lemma and_3: "w AND (3 :: 32 word) = take_bit 2 w"
  by (simp add: take_bit_eq_mask mask_eq_exp_minus_1)

text \<open>A two-bit slot at position \<open>s\<close>: \<open>m\<close> is the slot mask, \<open>x\<close> a value that fits.\<close>

lemma slot_put_same:
  fixes w x m :: "32 word"
  assumes x: "\<And>k. bit x k \<Longrightarrow> k < 2" and m: "\<And>k. bit m k \<longleftrightarrow> k < 2" and "s \<le> 30"
  shows "take_bit 2 (drop_bit s (w AND NOT (push_bit s m) OR push_bit s x)) = x"
  using assms(3) by (intro bit_eqI) (auto simp: bit_simps m dest: x)

lemma slot_put_other:
  fixes w x m :: "32 word"
  assumes x: "\<And>k. bit x k \<Longrightarrow> k < 2" and m: "\<And>k. bit m k \<longleftrightarrow> k < 2" and "a \<noteq> b"
  shows "take_bit 2 (drop_bit (b * 2) (w AND NOT (push_bit (a * 2) m) OR push_bit (a * 2) x))
       = take_bit 2 (drop_bit (b * 2) w)"
proof (rule bit_eqI)
  fix n
  have "n < 2 \<Longrightarrow> a * 2 \<le> b * 2 + n \<Longrightarrow> \<not> b * 2 + n - a * 2 < 2"
    using assms(3) by arith
  then show "bit (take_bit 2 (drop_bit (b * 2) (w AND NOT (push_bit (a * 2) m) OR push_bit (a * 2) x))) n
      = bit (take_bit 2 (drop_bit (b * 2) w)) n"
    using x [of "b * 2 + n - a * 2"] by (auto simp: bit_simps m dest: bit_imp_le_length)
qed

lemma slot_put_id:
  fixes w m :: "32 word"
  assumes m: "\<And>k. bit m k \<longleftrightarrow> k < 2"
  shows "w AND NOT (push_bit s m) OR push_bit s (take_bit 2 (drop_bit s w)) = w"
  by (rule bit_eqI) (auto simp: bit_simps m dest: bit_imp_le_length)

lemma bit_3: "bit (3 :: 32 word) k \<longleftrightarrow> k < 2"
  using bit_mask_iff [of 2 k, where 'a = "32 word"] by (auto simp: mask_eq_exp_minus_1)

lemma state_word_bits: "v < 4 \<Longrightarrow> bit (word_of_nat v :: 32 word) k \<Longrightarrow> k < 2"
proof -
  assume v: "v < 4" and k: "bit (word_of_nat v :: 32 word) k"
  from v have "take_bit 2 v = v" by (simp add: take_bit_eq_mod)
  then have "take_bit 2 (word_of_nat v :: 32 word) = word_of_nat v"
    using of_nat_take_bit [of 2 v, where 'a = "32 word"] by simp
  with k show ?thesis by (metis bit_take_bit_iff)
qed

lemma raw_state_eq:
  "nmbm_get_block_state_raw bs ba = unat (take_bit 2 (drop_bit (ba mod 16 * 2) (rd 0 bs (ba div 16))))"
  by (simp add: nmbm_get_block_state_raw_def Let_def and_3)

interpretation bst: state_table nmbm_get_block_state_raw put_block_state_raw table_cap
proof unfold_locales
  fix bs :: "32 word list" and i j v :: nat
  show "table_cap (put_block_state_raw bs i v) = table_cap bs"
    by (simp add: table_cap_def put_block_state_raw_def Let_def)
  show "nmbm_get_block_state_raw bs i < 4"
    by (simp add: raw_state_eq unsigned_take_bit_eq take_bit_nat_less_exp [of 2, simplified])
  show "nmbm_get_block_state_raw bs i = 0" if "table_cap bs \<le> i"
    using that by (simp add: raw_state_eq table_cap_def rd_def div_less_iff_less_mult)
  show "put_block_state_raw bs i (nmbm_get_block_state_raw bs i) = bs"
    by (simp add: put_block_state_raw_def raw_state_eq Let_def slot_put_id [OF bit_3] list_update_beyond
        rd_def)
  show "nmbm_get_block_state_raw (put_block_state_raw bs i v) i = v" if "i < table_cap bs" "v < 4"
  proof -
    have "i div 16 < length bs" using that(1) by (simp add: table_cap_def div_less_iff_less_mult)
    moreover have "take_bit 2 (drop_bit (i mod 16 * 2) (w AND NOT (push_bit (i mod 16 * 2) 3)
        OR push_bit (i mod 16 * 2) (word_of_nat v))) = word_of_nat v" for w :: "32 word"
      using mod_less_divisor [of 16 i] that(2)
      by (intro slot_put_same [OF state_word_bits bit_3]) simp_all
    ultimately show ?thesis
      using that(2) unfolding raw_state_eq put_block_state_raw_def Let_def
      by (simp only: rd_in length_list_update nth_list_update_eq) (simp add: unat_of_nat)
  qed
  show "nmbm_get_block_state_raw (put_block_state_raw bs i v) j = nmbm_get_block_state_raw bs j"
    if "i \<noteq> j" "v < 4"
  proof (cases "i div 16 = j div 16 \<and> i div 16 < length bs")
    case True
    then have "i mod 16 \<noteq> j mod 16" using that(1) by (metis div_mult_mod_eq)
    then have "take_bit 2 (drop_bit (j mod 16 * 2) (w AND NOT (push_bit (i mod 16 * 2) 3)
        OR push_bit (i mod 16 * 2) (word_of_nat v))) = take_bit 2 (drop_bit (j mod 16 * 2) w)"
      for w :: "32 word"
      using that(2) by (intro slot_put_other [OF state_word_bits bit_3]) simp_all
    with True show ?thesis
      unfolding raw_state_eq put_block_state_raw_def Let_def
      by (simp only: rd_update simp_thms split: if_split)
  next
    case False
    then show ?thesis
      by (auto simp: raw_state_eq put_block_state_raw_def Let_def rd_update simp del: take_bit_or)
  qed
qed

lemma length_put_raw [simp]: "length (put_block_state_raw bs ba v) = length bs"
  by (simp add: put_block_state_raw_def Let_def)

lemma and_3_nat: "v AND 3 = v mod (4 :: nat)"
  using take_bit_eq_mask [of 2 v] by (simp add: take_bit_eq_mod mask_eq_exp_minus_1)

lemma get_set_block_state:
  "nmbm_get_block_state (snd (nmbm_set_block_state ni ba st)) b =
     (if b = ba \<and> ba < table_cap (block_state ni) then st mod 4 else nmbm_get_block_state ni b)"
  by (auto simp: nmbm_set_block_state_def nmbm_get_block_state_def Let_def and_3_nat bst.get_put)

lemma set_block_state_changed:
  "fst (nmbm_set_block_state ni ba st) \<longleftrightarrow> nmbm_get_block_state ni ba \<noteq> st mod 4"
  "block_state_changed (snd (nmbm_set_block_state ni ba st)) =
     (if nmbm_get_block_state ni ba \<noteq> st mod 4 then u32 (block_state_changed ni + 1)
      else block_state_changed ni)"
  by (auto simp: nmbm_set_block_state_def nmbm_get_block_state_def Let_def and_3_nat)

section \<open>Walks over good blocks\<close>

function walk_asc :: "'d nmbm_instance \<Rightarrow> nat \<Rightarrow> int \<Rightarrow> nat \<Rightarrow> nat option" where
  "walk_asc ni ba nblock limit =
     (if ba < limit then
        (let nblock = (if nmbm_get_block_state ni ba = BLOCK_ST_GOOD then nblock - 1 else nblock)
         in if nblock < 0 then Some ba else walk_asc ni (ba + 1) nblock limit)
      else None)"
  by pat_completeness auto
termination
  by (relation "measure (\<lambda>(ni, ba, nblock, limit). limit - ba)") auto

definition nmbm_block_walk_asc :: "'d nmbm_instance \<Rightarrow> nat \<Rightarrow> nat \<Rightarrow> nat \<Rightarrow> nat option" where
  "nmbm_block_walk_asc ni ba count limit =
     (let limit = (if limit \<ge> block_count ni then sub32 (block_count ni) 1 else limit)
      in walk_asc ni ba (s32 count) limit)"

function walk_desc :: "'d nmbm_instance \<Rightarrow> nat \<Rightarrow> int \<Rightarrow> nat \<Rightarrow> nat option" where
  "walk_desc ni ba nblock limit =
     (if ba > limit then
        (let nblock = (if nmbm_get_block_state ni ba = BLOCK_ST_GOOD then nblock - 1 else nblock)
         in if nblock < 0 then Some ba else walk_desc ni (ba - 1) nblock limit)
      else None)"
  by pat_completeness auto
termination
  by (relation "measure (\<lambda>(ni, ba, nblock, limit). ba - limit)") auto

definition nmbm_block_walk_desc :: "'d nmbm_instance \<Rightarrow> nat \<Rightarrow> nat \<Rightarrow> nat \<Rightarrow> nat option" where
  "nmbm_block_walk_desc ni ba count limit =
     (let limit = (if limit \<ge> block_count ni then sub32 (block_count ni) 1 else limit)
      in walk_desc ni ba (s32 count) limit)"

definition nmbm_block_walk :: "'d nmbm_instance \<Rightarrow> bool \<Rightarrow> nat \<Rightarrow> int \<Rightarrow> int \<Rightarrow> nat option" where
  "nmbm_block_walk ni ascending ba count limit =
     (if ascending then nmbm_block_walk_asc ni ba (u32_of_int count) (u32_of_int limit)
      else nmbm_block_walk_desc ni ba (u32_of_int count) (u32_of_int limit))"

declare walk_asc.simps [simp del] walk_desc.simps [simp del]

text \<open>The specification of both walks: the good block with a given rank in a list of blocks.\<close>

definition nth_good :: "'d nmbm_instance \<Rightarrow> nat \<Rightarrow> nat list \<Rightarrow> nat option" where
  "nth_good ni k bas =
     (let gs = filter (\<lambda>b. nmbm_get_block_state ni b = BLOCK_ST_GOOD) bas
      in if k < length gs then Some (gs ! k) else None)"

lemma nth_good_Cons:
  "nth_good ni k (b # bas) =
     (if nmbm_get_block_state ni b = BLOCK_ST_GOOD
      then (if k = 0 then Some b else nth_good ni (k - 1) bas)
      else nth_good ni k bas)"
  by (auto simp: nth_good_def Let_def nth_Cons')

lemma walk_asc_nth_good: "walk_asc ni ba (int k) limit = nth_good ni k [ba..<limit]"
proof (induction "limit - ba" arbitrary: ba k)
  case 0
  then show ?case by (simp add: walk_asc.simps [of ni ba] nth_good_def)
next
  case (Suc n)
  then have step: "[ba..<limit] = ba # [Suc ba..<limit]" by (simp add: upt_conv_Cons)
  have IH: "walk_asc ni (Suc ba) (int j) limit = nth_good ni j [Suc ba..<limit]" for j
    using Suc by (intro Suc.hyps(1)) simp
  show ?case
    using Suc(2) IH [of k] IH [of "k - 1"]
    by (auto simp: walk_asc.simps [of ni ba] step nth_good_Cons of_nat_diff)
qed

lemma walk_desc_nth_good: "walk_desc ni ba (int k) limit = nth_good ni k (rev [Suc limit..<Suc ba])"
proof (induction "ba - limit" arbitrary: ba k)
  case 0
  then show ?case by (simp add: walk_desc.simps [of ni ba] nth_good_def)
next
  case (Suc n)
  then have step: "rev [Suc limit..<Suc ba] = ba # rev [Suc limit..<Suc (ba - 1)]" by simp
  have IH: "walk_desc ni (ba - 1) (int j) limit = nth_good ni j (rev [Suc limit..<Suc (ba - 1)])" for j
    using Suc by (intro Suc.hyps(1)) simp
  show ?case
    using Suc(2) IH [of k] IH [of "k - 1"]
    by (auto simp: walk_desc.simps [of ni ba] step nth_good_Cons of_nat_diff simp del: upt_Suc)
qed

text \<open>The rank and the limit as the walks see them after the conversions of the arguments.\<close>

lemma walk_count: "k < 2 ^ 31 \<Longrightarrow> s32 (u32_of_int (int k)) = int k"
  by (rule s32_u32_of_int) simp_all

lemma walk_limit:
  assumes "- (2 ^ 31) \<le> limit" and "limit < 2 ^ 31" and "n \<le> 2 ^ 31"
  shows "(if n \<le> u32_of_int limit then x else u32_of_int limit) =
    (if 0 \<le> limit \<and> limit < int n then nat limit else x)"
proof (cases "0 \<le> limit")
  case True
  then show ?thesis using assms by (auto simp: u32_of_int_nonneg)
next
  case False
  then have "limit mod 2 ^ 32 = limit + 2 ^ 32"
    using assms(1) mod_pos_pos_trivial [of "limit + 2 ^ 32" "2 ^ 32"] by simp
  then have "n \<le> u32_of_int limit" using False assms by (simp add: u32_of_int_def le_nat_iff)
  with False show ?thesis by simp
qed

lemma nth_good_SomeD:
  assumes "nth_good ni k bas = Some b"
  shows "b \<in> set bas" and "nmbm_get_block_state ni b = BLOCK_ST_GOOD"
  using assms nth_mem [of k "filter (\<lambda>b. nmbm_get_block_state ni b = BLOCK_ST_GOOD) bas"]
  by (auto simp: nth_good_def Let_def split: if_splits)

lemma nth_good_0_first:
  "nth_good ni 0 (rev [lo..<hi]) = Some b \<Longrightarrow>
   lo \<le> b \<and> b < hi \<and> (\<forall>c. b < c \<and> c < hi \<longrightarrow> nmbm_get_block_state ni c \<noteq> BLOCK_ST_GOOD)"
proof (induction hi)
  case (Suc hi)
  then show ?case by (auto simp: nth_good_Cons less_Suc_eq split: if_splits)
qed (simp add: nth_good_def)

section \<open>Operations that only turn blocks bad\<close>

text \<open>Every entry is kept or has become bad.\<close>

definition states_degrade :: "32 word list \<Rightarrow> 32 word list \<Rightarrow> bool" where
  "states_degrade bs bs' \<longleftrightarrow> length bs' = length bs \<and>
     (\<forall>ba. nmbm_get_block_state_raw bs' ba = nmbm_get_block_state_raw bs ba
           \<or> nmbm_get_block_state_raw bs' ba = BLOCK_ST_BAD)"

lemma states_degrade_refl [simp, intro]: "states_degrade bs bs"
  by (simp add: states_degrade_def)

lemma states_degrade_trans [trans]:
  "states_degrade a b \<Longrightarrow> states_degrade b c \<Longrightarrow> states_degrade a c"
  unfolding states_degrade_def by metis

lemma states_degrade_put_bad: "states_degrade bs (put_block_state_raw bs ba BLOCK_ST_BAD)"
  by (auto simp: states_degrade_def bst.get_put)

lemma live_count_put_bad:
  "nmbm_get_block_state_raw bs ba \<noteq> BLOCK_ST_BAD \<Longrightarrow>
   live_count (put_block_state_raw bs ba BLOCK_ST_BAD) < live_count bs"
  unfolding live_count_def by (rule bst.put_bad_fewer)

definition degrade :: "nat set \<Rightarrow> 'd nmbm_instance \<Rightarrow> 'd nmbm_instance \<Rightarrow> bool" where
  "degrade W ni ni' \<longleftrightarrow> (\<exists>d pc bs ch.
     ni' = ni\<lparr>lower := (lower ni)\<lparr>arg := d\<rparr>, page_cache := pc, block_state := bs,
              block_state_changed := ch\<rparr>
     \<and> dev_reach W (lower ni) (arg (lower ni)) d \<and> states_degrade (block_state ni) bs
     \<and> (bs = block_state ni \<and> ch = block_state_changed ni \<or> live_count bs < live_count (block_state ni)))"

lemma degradeI:
  "dev_reach W (lower ni) (arg (lower ni)) d \<Longrightarrow> states_degrade (block_state ni) bs \<Longrightarrow>
   bs = block_state ni \<and> ch = block_state_changed ni \<or> live_count bs < live_count (block_state ni) \<Longrightarrow>
   ni' = ni\<lparr>lower := (lower ni)\<lparr>arg := d\<rparr>, page_cache := pc, block_state := bs,
            block_state_changed := ch\<rparr> \<Longrightarrow>
   degrade W ni ni'"
  unfolding degrade_def by blast

lemma degradeE:
  assumes "degrade W ni ni'"
  obtains d pc bs ch where
    "ni' = ni\<lparr>lower := (lower ni)\<lparr>arg := d\<rparr>, page_cache := pc, block_state := bs,
              block_state_changed := ch\<rparr>"
    and "dev_reach W (lower ni) (arg (lower ni)) d" and "states_degrade (block_state ni) bs"
    and "bs = block_state ni \<and> ch = block_state_changed ni \<or> live_count bs < live_count (block_state ni)"
  using assms unfolding degrade_def by blast

lemma degrade_phys: "phys_step W ni ni' \<Longrightarrow> degrade W ni ni'"
  by (elim phys_stepE, rule degradeI [where bs = "block_state ni" and ch = "block_state_changed ni"])
    simp_all

lemma degrade_refl [simp, intro]: "degrade W ni ni"
  by (rule degrade_phys) simp

lemma degrade_trans [trans]: "degrade W a b \<Longrightarrow> degrade W b c \<Longrightarrow> degrade W a c"
  by (elim degradeE, rule degradeI) (auto intro: dev_reach_trans states_degrade_trans)

lemma degrade_set_bad: "nmbm_set_block_state ni ba BLOCK_ST_BAD = (r, ni') \<Longrightarrow> degrade W ni ni'"
proof -
  assume set: "nmbm_set_block_state ni ba BLOCK_ST_BAD = (r, ni')"
  let ?bs = "put_block_state_raw (block_state ni) ba BLOCK_ST_BAD"
  show ?thesis
  proof (cases "nmbm_get_block_state_raw (block_state ni) ba = BLOCK_ST_BAD")
    case True
    then have "?bs = block_state ni" using bst.put_get [of "block_state ni" ba] by simp
    with True set have "ni' = ni" by (simp add: nmbm_set_block_state_def)
    then show ?thesis by simp
  next
    case False
    with set have "ni' = ni\<lparr>block_state := ?bs, block_state_changed := u32 (block_state_changed ni + 1)\<rparr>"
      by (simp add: nmbm_set_block_state_def)
    with False show ?thesis
      by (intro degradeI [where d = "arg (lower ni)" and pc = "page_cache ni" and bs = ?bs])
        (simp_all add: dev_reach.dev_stay states_degrade_put_bad live_count_put_bad)
  qed
qed

lemma degrade_mono: "degrade W ni ni' \<Longrightarrow> W \<subseteq> W' \<Longrightarrow> degrade W' ni ni'"
  by (elim degradeE, rule degradeI) (auto intro: dev_reach_mono)

text \<open>What a degrading operation keeps.\<close>

lemma degrade_keeps:
  assumes "degrade W ni ni'"
  shows "block_count ni' = block_count ni" "block_mapping ni' = block_mapping ni"
    "ba2addr ni' ba = ba2addr ni ba" "blk_addrs ni' ba = blk_addrs ni ba"
    "read_only ni' = read_only ni" "size2blk ni' sz = size2blk ni sz"
    "table_cap (block_state ni') = table_cap (block_state ni)"
  using assms
  by (elim degradeE, simp add: ba2addr_def blk_addrs_def size2blk_def table_cap_def
      states_degrade_def)+

lemma degrade_state:
  "degrade W ni ni' \<Longrightarrow> nmbm_get_block_state ni' ba = nmbm_get_block_state ni ba
     \<or> nmbm_get_block_state ni' ba = BLOCK_ST_BAD"
  by (elim degradeE) (auto simp: nmbm_get_block_state_def states_degrade_def)

section \<open>Scanning for bad blocks\<close>

fun scan_blocks :: "nat list \<Rightarrow> 'd nmbm_instance \<Rightarrow> 'd nmbm_instance" where
  "scan_blocks [] ni = ni"
| "scan_blocks (ba # bas) ni =
     (let (bad, ni) = nmbm_check_bad_phys_block ni ba;
          ni = (if bad then snd (nmbm_set_block_state ni ba BLOCK_ST_BAD) else ni)
      in scan_blocks bas ni)"

definition nmbm_scan_badblocks :: "'d nmbm_instance \<Rightarrow> 'd nmbm_instance" where
  "nmbm_scan_badblocks ni = scan_blocks [0..<block_count ni] ni"

lemma degrade_set_bad_snd: "degrade W ni (snd (nmbm_set_block_state ni ba BLOCK_ST_BAD))"
  by (rule degrade_set_bad [of ni ba "fst (nmbm_set_block_state ni ba BLOCK_ST_BAD)"]) simp

lemma scan_blocks_degrade: "degrade W ni (scan_blocks bas ni)"
proof (induction bas arbitrary: ni)
  case (Cons ba bas)
  obtain bad ni1 where c: "nmbm_check_bad_phys_block ni ba = (bad, ni1)" by fastforce
  let ?ni2 = "if bad then snd (nmbm_set_block_state ni1 ba BLOCK_ST_BAD) else ni1"
  have "degrade W ni ni1" using c by (intro degrade_phys check_bad_phys_block_step)
  also have "degrade W ni1 ?ni2" by (simp add: degrade_set_bad_snd)
  also have "degrade W ?ni2 (scan_blocks bas ?ni2)" by (rule Cons.IH)
  finally show ?case by (simp add: c)
qed simp

lemma scan_badblocks_degrade: "degrade W ni (nmbm_scan_badblocks ni)"
  unfolding nmbm_scan_badblocks_def by (rule scan_blocks_degrade)

section \<open>The initial mapping\<close>

fun map_good_blocks :: "nat list \<Rightarrow> 'd nmbm_instance \<Rightarrow> nat \<Rightarrow> nat \<times> 'd nmbm_instance" where
  "map_good_blocks [] ni lb = (lb, ni)"
| "map_good_blocks (pb # pbs) ni lb =
     (if nmbm_get_block_state ni pb = BLOCK_ST_BAD then map_good_blocks pbs ni lb
      else map_good_blocks pbs (ni\<lparr>block_mapping := (block_mapping ni)[lb := s32 pb]\<rparr>) (lb + 1))"

fun unmap_blocks :: "nat list \<Rightarrow> 'd nmbm_instance \<Rightarrow> 'd nmbm_instance" where
  "unmap_blocks [] ni = ni"
| "unmap_blocks (pb # pbs) ni = unmap_blocks pbs (ni\<lparr>block_mapping := (block_mapping ni)[pb := -1]\<rparr>)"

definition nmbm_build_mapping_table :: "'d nmbm_instance \<Rightarrow> 'd nmbm_instance" where
  "nmbm_build_mapping_table ni =
     (let (lb, ni) = map_good_blocks [0..<mgmt_start_ba ni] ni 0;
          ni = ni\<lparr>data_block_count := lb\<rparr>
      in unmap_blocks [lb..<block_count ni] ni)"

definition usable_blocks :: "'d nmbm_instance \<Rightarrow> nat list" where
  "usable_blocks ni = filter (\<lambda>pb. nmbm_get_block_state ni pb \<noteq> BLOCK_ST_BAD) [0..<mgmt_start_ba ni]"

lemma map_good_blocks_eq:
  assumes "map_good_blocks pbs ni lb = (lb', ni')" and "lb + length pbs \<le> length (block_mapping ni)"
  shows "let gs = filter (\<lambda>pb. nmbm_get_block_state ni pb \<noteq> BLOCK_ST_BAD) pbs in
    lb' = lb + length gs \<and> ni' = ni\<lparr>block_mapping := memput (block_mapping ni) lb (map s32 gs)\<rparr>"
  using assms
proof (induction pbs arbitrary: ni lb)
  case Nil
  then show ?case by (simp add: memput_def)
next
  case (Cons pb pbs)
  let ?ni1 = "ni\<lparr>block_mapping := (block_mapping ni)[lb := s32 pb]\<rparr>"
  have st: "nmbm_get_block_state ?ni1 = nmbm_get_block_state ni"
    by (rule ext) (simp add: nmbm_get_block_state_def)
  have put: "memput ((block_mapping ni)[lb := x]) (Suc lb) ys = memput (block_mapping ni) lb (x # ys)"
    for x ys
    using Cons.prems(2) by (simp add: memput_def take_Suc_conv_app_nth)
  show ?case
  proof (cases "nmbm_get_block_state ni pb = BLOCK_ST_BAD")
    case True
    with Cons show ?thesis by simp
  next
    case False
    with Cons.prems Cons.IH [of ?ni1 "lb + 1"] put show ?thesis by (simp add: Let_def st)
  qed
qed

definition fill_range :: "'a list \<Rightarrow> nat \<Rightarrow> nat \<Rightarrow> 'a \<Rightarrow> 'a list" where
  "fill_range xs lo hi v = map (\<lambda>i. if lo \<le> i \<and> i < hi then v else xs ! i) [0..<length xs]"

lemma fill_range_empty: "hi \<le> lo \<Longrightarrow> fill_range xs lo hi v = xs"
  unfolding fill_range_def by (intro nth_equalityI) auto

lemma fill_range_step: "lo < hi \<Longrightarrow> fill_range (xs[lo := v]) (Suc lo) hi v = fill_range xs lo hi v"
  unfolding fill_range_def by (intro nth_equalityI) (auto simp: nth_list_update)

lemma fill_range_tail:
  "length gs = lo \<Longrightarrow> hi = lo + length ys \<Longrightarrow> fill_range (gs @ ys) lo hi v = gs @ replicate (length ys) v"
  unfolding fill_range_def by (intro nth_equalityI) (auto simp: nth_append)

lemma unmap_blocks_eq:
  "unmap_blocks [lb..<n] ni = ni\<lparr>block_mapping := fill_range (block_mapping ni) lb n (-1)\<rparr>"
proof (induction "n - lb" arbitrary: lb ni)
  case 0
  then show ?case by (simp add: fill_range_empty)
next
  case (Suc k)
  then have step: "[lb..<n] = lb # [Suc lb..<n]" by (simp add: upt_conv_Cons)
  have "unmap_blocks [Suc lb..<n] ni1 =
     ni1\<lparr>block_mapping := fill_range (block_mapping ni1) (Suc lb) n (-1)\<rparr>" for ni1 :: "'a nmbm_instance"
    using Suc by (intro Suc.hyps(1)) simp
  with Suc(2) show ?case by (simp add: step fill_range_step)
qed

lemma build_mapping_table_eq:
  assumes "length (block_mapping ni) = block_count ni" and "mgmt_start_ba ni \<le> block_count ni"
  shows "nmbm_build_mapping_table ni =
    ni\<lparr>block_mapping := map s32 (usable_blocks ni)
                          @ replicate (block_count ni - length (usable_blocks ni)) (-1),
       data_block_count := length (usable_blocks ni)\<rparr>"
proof -
  obtain lb ni1 where m: "map_good_blocks [0..<mgmt_start_ba ni] ni 0 = (lb, ni1)" by fastforce
  from map_good_blocks_eq [OF this] assms
  have eq: "lb = length (usable_blocks ni)"
      "ni1 = ni\<lparr>block_mapping := memput (block_mapping ni) 0 (map s32 (usable_blocks ni))\<rparr>"
    by (simp_all add: usable_blocks_def Let_def)
  have le: "length (usable_blocks ni) \<le> block_count ni"
    using assms(2) length_filter_le [of _ "[0..<mgmt_start_ba ni]"]
    unfolding usable_blocks_def by (metis diff_zero le_trans length_upt)
  define ni2 where "ni2 = ni1\<lparr>data_block_count := lb\<rparr>"
  have bm2: "block_mapping ni2 = map s32 (usable_blocks ni) @ drop lb (block_mapping ni)"
      "length (block_mapping ni2) = block_count ni" "block_count ni2 = block_count ni"
    using assms(1) le by (simp_all add: ni2_def eq memput_def)
  have "nmbm_build_mapping_table ni = unmap_blocks [lb..<block_count ni] ni2"
    by (simp add: nmbm_build_mapping_table_def m ni2_def eq)
  also have "\<dots> = ni2\<lparr>block_mapping := map s32 (usable_blocks ni)
                          @ replicate (block_count ni - length (usable_blocks ni)) (-1)\<rparr>"
    using le assms(1) by (simp add: unmap_blocks_eq bm2(1) eq(1) fill_range_tail)
  finally show ?thesis by (simp add: ni2_def eq)
qed

end
