(* ===== verification/Nmbm_Write.thy ===== *)
theory Nmbm_Write
  imports Nmbm_Blocks
begin

text \<open>
  Erasing and writing whole blocks: \<^verbatim>\<open>nmbm-core.c\<close>, lines 635 to 1004. These are the operations
  that write the signature and the info tables. Each is shown to be a degrading operation that
  writes no address outside the blocks it was given, and a successful write is shown to have read
  its data back.

  The loops that advance by chunks of a page end because a chunk is never empty. A chunk can only
  be empty for a page size of zero, which \<open>nmbm_check_lower_members\<close> refuses; the model leaves the
  loop there with a failure, where the C loop would not end.
\<close>

unbundle bit_operations_syntax

section \<open>Definitions\<close>

fun check_erased_pages :: "nat list \<Rightarrow> 'd nmbm_instance \<Rightarrow> nat \<Rightarrow> bool \<times> 'd nmbm_instance" where
  "check_erased_pages [] ni addr = (True, ni)"
| "check_erased_pages (off # offs) ni addr =
     (let (ret, ni) = read_into_page_cache ni (u64 (addr + off)) NMBM_MODE_PLACE_OOB
      in if ret = - EBADMSG then (False, ni) else check_erased_pages offs ni addr)"

definition nmbm_erase_block_and_check :: "'d nmbm_instance \<Rightarrow> nat \<Rightarrow> bool \<times> 'd nmbm_instance" where
  "nmbm_erase_block_and_check ni ba =
     (let (success, ni) = nmbm_erase_phys_block ni (ba2addr ni ba) in
      if \<not> success then (False, ni)
      else if \<not> lower_flag (lower ni) NMBM_F_EMPTY_PAGE_ECC_OK then (True, ni)
      else check_erased_pages (page_offs ni) ni (ba2addr ni ba))"

text \<open>The common tail of the block loops: mark the block bad on the chip and in the table.\<close>

definition skip_bad_block :: "'d nmbm_instance \<Rightarrow> nat \<Rightarrow> 'd nmbm_instance" where
  "skip_bad_block ni ba =
     (let (_, ni) = nmbm_mark_phys_bad_block ni ba
      in snd (nmbm_set_block_state ni ba BLOCK_ST_BAD))"

fun erase_blocks :: "nat list \<Rightarrow> 'd nmbm_instance \<Rightarrow> 'd nmbm_instance" where
  "erase_blocks [] ni = ni"
| "erase_blocks (ba # bas) ni =
     (if nmbm_get_block_state ni ba \<noteq> BLOCK_ST_GOOD then erase_blocks bas ni
      else
        let (bad, ni) = nmbm_check_bad_phys_block ni ba in
        if bad then erase_blocks bas (snd (nmbm_set_block_state ni ba BLOCK_ST_BAD))
        else
          let (success, ni) = nmbm_erase_block_and_check ni ba in
          if success then erase_blocks bas ni
          else erase_blocks bas (skip_bad_block ni ba))"

definition nmbm_erase_range :: "'d nmbm_instance \<Rightarrow> nat \<Rightarrow> nat \<Rightarrow> 'd nmbm_instance" where
  "nmbm_erase_range ni ba limit = erase_blocks [ba..<limit] ni"

fun write_repeated_pages ::
    "nat list \<Rightarrow> 'd nmbm_instance \<Rightarrow> nat \<Rightarrow> byte list \<Rightarrow> bool \<times> 'd nmbm_instance" where
  "write_repeated_pages [] ni addr data = (True, ni)"
| "write_repeated_pages (off # offs) ni addr data =
     (let sz = length data;
          ws = writesize (lower ni);
          ni = ni\<lparr>page_cache := memput (memput (page_cache ni) 0 data) sz
                                  (replicate (rawpage_size ni - sz) 0xff)\<rparr>;
          (success, ni) = nmbm_write_phys_page ni (u64 (addr + off))
                            (Some (take ws (page_cache ni))) None NMBM_MODE_PLACE_OOB
      in if \<not> success then (False, ni)
         else
           let (ret, ni) = read_into_page_cache ni (u64 (addr + off)) NMBM_MODE_PLACE_OOB
           in if ret < 0 then (False, ni)
              else if memget (page_cache ni) 0 sz \<noteq> data then (False, ni)
              else write_repeated_pages offs ni addr data)"

definition nmbm_write_repeated_data ::
    "'d nmbm_instance \<Rightarrow> nat \<Rightarrow> byte list \<Rightarrow> bool \<times> 'd nmbm_instance" where
  "nmbm_write_repeated_data ni ba data =
     (if length data > writesize (lower ni) then (False, ni)
      else write_repeated_pages (page_offs ni) ni (ba2addr ni ba) data)"

fun write_signature_blocks ::
    "nat list \<Rightarrow> 'd nmbm_instance \<Rightarrow> byte list \<Rightarrow> nat option \<times> 'd nmbm_instance" where
  "write_signature_blocks [] ni sig = (None, ni)"
| "write_signature_blocks (ba # bas) ni sig =
     (if nmbm_get_block_state ni ba \<noteq> BLOCK_ST_GOOD then write_signature_blocks bas ni sig
      else
        let (bad, ni) = nmbm_check_bad_phys_block ni ba in
        if bad then write_signature_blocks bas (snd (nmbm_set_block_state ni ba BLOCK_ST_BAD)) sig
        else
          let (success, ni) = nmbm_erase_block_and_check ni ba in
          if \<not> success then write_signature_blocks bas (skip_bad_block ni ba) sig
          else
            let (success, ni) = nmbm_write_repeated_data ni ba sig in
            if success then (Some ba, ni)
            else write_signature_blocks bas (skip_bad_block ni ba) sig)"

text \<open>The blocks are tried from the highest one down to the one above \<open>limit\<close>.\<close>

definition nmbm_write_signature ::
    "'d nmbm_instance \<Rightarrow> nat \<Rightarrow> byte list \<Rightarrow> nat option \<times> 'd nmbm_instance" where
  "nmbm_write_signature ni limit sig =
     write_signature_blocks (rev [limit + 1..<sub32 (block_count ni) 1 + 1]) ni sig"

definition chunk_size :: "'d nmbm_instance \<Rightarrow> nat \<Rightarrow> nat \<Rightarrow> nat" where
  "chunk_size ni off sizeremain =
     (let chunksize = sub32 (writesize (lower ni)) (off AND writesize_mask ni)
      in if chunksize > sizeremain then sizeremain else chunksize)"

function read_data_loop ::
    "'d nmbm_instance \<Rightarrow> nat \<Rightarrow> byte list \<Rightarrow> nat \<Rightarrow> nat \<Rightarrow> int \<times> byte list \<times> 'd nmbm_instance" where
  "read_data_loop ni off data ptr sizeremain =
     (if sizeremain = 0 then (0, data, ni)
      else
        let leading = off AND writesize_mask ni;
            chunksize = chunk_size ni off sizeremain in
        if chunksize = 0 then (- EFAULT, data, ni)
        else if chunksize = writesize (lower ni) then
          let (ret, page, _, ni) = nmbm_read_phys_page ni (sub64 off leading)
                (Some (memget data ptr chunksize)) None NMBM_MODE_PLACE_OOB;
              data = store_buf data ptr page
          in if ret < 0 then (ret, data, ni)
             else read_data_loop ni (u64 (off + chunksize)) data (ptr + chunksize)
                    (sizeremain - chunksize)
        else
          let (ret, ni) = read_into_page_cache ni (sub64 off leading) NMBM_MODE_PLACE_OOB
          in if ret < 0 then (ret, data, ni)
             else read_data_loop ni (u64 (off + chunksize))
                    (memput data ptr (memget (page_cache ni) leading chunksize))
                    (ptr + chunksize) (sizeremain - chunksize))"
  by pat_completeness auto
termination
  by (relation "measure (\<lambda>(ni, off, data, ptr, sizeremain). sizeremain)") auto

definition nmbn_read_data ::
    "'d nmbm_instance \<Rightarrow> nat \<Rightarrow> byte list \<Rightarrow> nat \<Rightarrow> int \<times> byte list \<times> 'd nmbm_instance" where
  "nmbn_read_data ni addr data sz = read_data_loop ni addr data 0 sz"

function write_verify_loop ::
    "'d nmbm_instance \<Rightarrow> nat \<Rightarrow> byte list \<Rightarrow> bool \<times> 'd nmbm_instance" where
  "write_verify_loop ni off ptr =
     (if ptr = [] then (True, ni)
      else
        let leading = off AND writesize_mask ni;
            chunksize = chunk_size ni off (length ptr);
            ws = writesize (lower ni) in
        if chunksize = 0 then (False, ni)
        else
          let ni = ni\<lparr>page_cache := memput (memput (page_cache ni) 0 (replicate (rawpage_size ni) 0xff))
                                      leading (take chunksize ptr)\<rparr>;
              (success, ni) = nmbm_write_phys_page ni (sub64 off leading)
                                (Some (take ws (page_cache ni))) None NMBM_MODE_PLACE_OOB
          in if \<not> success then (False, ni)
             else
               let (ret, ni) = read_into_page_cache ni (sub64 off leading) NMBM_MODE_PLACE_OOB
               in if ret < 0 then (False, ni)
                  else if memget (page_cache ni) leading chunksize \<noteq> take chunksize ptr then (False, ni)
                  else write_verify_loop ni (u64 (off + chunksize)) (drop chunksize ptr))"
  by pat_completeness auto
termination
  by (relation "measure (\<lambda>(ni, off, ptr). length ptr)") auto

definition nmbn_write_verify_data ::
    "'d nmbm_instance \<Rightarrow> nat \<Rightarrow> byte list \<Rightarrow> bool \<times> 'd nmbm_instance" where
  "nmbn_write_verify_data ni addr data = write_verify_loop ni addr data"

function write_mgmt_loop ::
    "'d nmbm_instance \<Rightarrow> nat \<Rightarrow> nat \<Rightarrow> byte list \<Rightarrow> nat \<Rightarrow> nat
     \<Rightarrow> (nat \<times> nat) option \<times> 'd nmbm_instance" where
  "write_mgmt_loop ni ba limit ptr sz start =
     (if ptr \<noteq> [] \<and> ba < limit then
        let chunksize = (if length ptr > erasesize (lower ni) then erasesize (lower ni) else length ptr)
        in
        if nmbm_get_block_state ni ba \<noteq> BLOCK_ST_GOOD then write_mgmt_loop ni (ba + 1) limit ptr sz start
        else
          let (bad, ni) = nmbm_check_bad_phys_block ni ba in
          if bad then
            write_mgmt_loop (snd (nmbm_set_block_state ni ba BLOCK_ST_BAD)) (ba + 1) limit ptr sz start
          else
            let (success, ni) = nmbm_erase_block_and_check ni ba in
            if \<not> success then write_mgmt_loop (skip_bad_block ni ba) (ba + 1) limit ptr sz start
            else
              let (success, ni) = nmbn_write_verify_data ni (ba2addr ni ba) (take chunksize ptr) in
              if \<not> success then write_mgmt_loop (skip_bad_block ni ba) (ba + 1) limit ptr sz start
              else write_mgmt_loop ni (ba + 1) limit (drop chunksize ptr) sz
                     (if length ptr = sz then ba else start)
      else if ptr \<noteq> [] then (None, ni)
      else (Some (start, ba), ni))"
  by pat_completeness auto
termination
  by (relation "measure (\<lambda>(ni, ba, limit, ptr, sz, start). limit - ba)") auto

text \<open>\<open>Some (actual_start_ba, actual_end_ba)\<close> on success.\<close>

definition nmbm_write_mgmt_range ::
    "'d nmbm_instance \<Rightarrow> nat \<Rightarrow> nat \<Rightarrow> byte list \<Rightarrow> (nat \<times> nat) option \<times> 'd nmbm_instance" where
  "nmbm_write_mgmt_range ni ba limit data = write_mgmt_loop ni ba limit data (length data) 0"

declare read_data_loop.simps [simp del] write_verify_loop.simps [simp del]
  write_mgmt_loop.simps [simp del]

section \<open>Which addresses are written\<close>

definition blk_writes :: "'d nmbm_instance \<Rightarrow> nat \<Rightarrow> nat set" where
  "blk_writes ni ba = blk_addrs ni ba \<union> (\<lambda>a. sub64 a (a AND writesize_mask ni)) ` blk_addrs ni ba"

lemma phys_step_blk_writes [simp]: "phys_step W ni ni' \<Longrightarrow> blk_writes ni' ba = blk_writes ni ba"
  unfolding blk_writes_def by (simp, elim phys_stepE, simp)

lemma degrade_blk_writes [simp]: "degrade W ni ni' \<Longrightarrow> blk_writes ni' ba = blk_writes ni ba"
  unfolding blk_writes_def by (simp add: degrade_keeps, elim degradeE, simp)

lemma blk_addrs_writes: "blk_writes ni ba \<subseteq> W \<Longrightarrow> blk_addrs ni ba \<subseteq> W"
  by (simp add: blk_writes_def)

lemma check_erased_pages_step: "check_erased_pages offs ni a = (r, ni') \<Longrightarrow> phys_step W ni ni'"
proof (induction offs arbitrary: ni)
  case (Cons off offs)
  obtain ret ni1 where c: "read_into_page_cache ni (u64 (a + off)) NMBM_MODE_PLACE_OOB = (ret, ni1)"
    by fastforce
  then have "phys_step W ni ni1" by (rule read_into_page_cache_step)
  with c Cons show ?case by (auto split: if_splits intro: phys_step_trans)
qed simp

lemma erase_block_and_check_step:
  assumes "nmbm_erase_block_and_check ni ba = (r, ni')" and "blk_addrs ni ba \<subseteq> W"
  shows "phys_step W ni ni'"
proof -
  obtain s ni1 where e: "nmbm_erase_phys_block ni (ba2addr ni ba) = (s, ni1)" by fastforce
  have "ba2addr ni ba \<in> W" using assms(2) ba2addr_in_blk by blast
  with e have "phys_step W ni ni1" by (rule erase_phys_block_step)
  with assms(1) e show ?thesis
    unfolding nmbm_erase_block_and_check_def
    by (auto split: if_splits dest!: check_erased_pages_step [where W = W] intro: phys_step_trans)
qed

lemma skip_bad_block_degrade: "blk_addrs ni ba \<subseteq> W \<Longrightarrow> degrade W ni (skip_bad_block ni ba)"
  unfolding skip_bad_block_def
  by (auto split: prod.splits
      intro: degrade_trans [OF degrade_phys degrade_set_bad_snd] mark_phys_bad_block_step)

lemma erase_blocks_degrade:
  "(\<And>ba. ba \<in> set bas \<Longrightarrow> blk_addrs ni ba \<subseteq> W) \<Longrightarrow> degrade W ni (erase_blocks bas ni)"
proof (induction bas arbitrary: ni)
  case (Cons ba bas)
  obtain bad ni1 where c: "nmbm_check_bad_phys_block ni ba = (bad, ni1)" by fastforce
  then have d1: "degrade W ni ni1" by (intro degrade_phys check_bad_phys_block_step)
  obtain s ni2 where e: "nmbm_erase_block_and_check ni1 ba = (s, ni2)" by fastforce
  have "phys_step W ni1 ni2"
    using Cons.prems d1 by (intro erase_block_and_check_step [OF e]) (simp add: degrade_keeps)
  with d1 have d2: "degrade W ni ni2" by (blast intro: degrade_trans degrade_phys)
  have d3: "degrade W ni (skip_bad_block ni2 ba)"
    using Cons.prems d2 by (intro degrade_trans [OF d2] skip_bad_block_degrade) (simp add: degrade_keeps)
  have rest: "degrade W ni (erase_blocks bas n)" if "degrade W ni n" for n
    using that Cons.prems
    by (intro degrade_trans [OF that] Cons.IH) (simp add: degrade_keeps [OF that])
  have d1b: "degrade W ni (snd (nmbm_set_block_state ni1 ba BLOCK_ST_BAD))"
    by (rule degrade_trans [OF d1 degrade_set_bad_snd])
  show ?case
    using rest [OF degrade_refl] rest [OF d1b] rest [OF d2] rest [OF d3]
    by (simp add: c e)
qed simp

lemma erase_range_degrade:
  "(\<And>b. ba \<le> b \<Longrightarrow> b < limit \<Longrightarrow> blk_addrs ni b \<subseteq> W) \<Longrightarrow> degrade W ni (nmbm_erase_range ni ba limit)"
  unfolding nmbm_erase_range_def by (rule erase_blocks_degrade) simp

lemma write_repeated_pages_step:
  assumes "write_repeated_pages offs ni a data = (r, ni')"
    and "\<And>off. off \<in> set offs \<Longrightarrow> u64 (a + off) \<in> W"
  shows "phys_step W ni ni'"
  using assms
proof (induction offs arbitrary: ni)
  case (Cons off offs)
  define ni0 where "ni0 = ni\<lparr>page_cache := memput (memput (page_cache ni) 0 data) (length data)
      (replicate (rawpage_size ni - length data) 0xff)\<rparr>"
  obtain s ni1 where w: "nmbm_write_phys_page ni0 (u64 (a + off))
      (Some (take (writesize (lower ni)) (page_cache ni0))) None NMBM_MODE_PLACE_OOB = (s, ni1)"
    by fastforce
  obtain ret ni2 where c: "read_into_page_cache ni1 (u64 (a + off)) NMBM_MODE_PLACE_OOB = (ret, ni2)"
    by fastforce
  have s0: "phys_step W ni ni0" unfolding ni0_def by (intro phys_step_cache) simp
  have s1: "phys_step W ni ni1" using Cons.prems(2) w s0
    by (auto intro: phys_step_trans write_phys_page_step)
  have s2: "phys_step W ni ni2" using s1 c by (blast intro: phys_step_trans read_into_page_cache_step)
  show ?case
    using Cons.prems(1) Cons.IH [of ni2] Cons.prems(2) s1 s2 w [unfolded ni0_def] c
    by (auto simp: Let_def split: if_splits intro: phys_step_trans)
qed simp

lemma write_repeated_data_step:
  "nmbm_write_repeated_data ni ba data = (r, ni') \<Longrightarrow> blk_addrs ni ba \<subseteq> W \<Longrightarrow> phys_step W ni ni'"
  unfolding nmbm_write_repeated_data_def
  by (auto split: if_splits intro!: write_repeated_pages_step dest: page_addr_in_blk)

lemma write_signature_blocks_degrade:
  assumes "write_signature_blocks bas ni sig = (r, ni')" and "\<And>ba. ba \<in> set bas \<Longrightarrow> blk_addrs ni ba \<subseteq> W"
  shows "degrade W ni ni' \<and> (\<forall>ba. r = Some ba \<longrightarrow> ba \<in> set bas \<and> nmbm_get_block_state ni' ba = BLOCK_ST_GOOD)"
  using assms
proof (induction bas arbitrary: ni)
  case (Cons ba bas)
  obtain bad ni1 where c: "nmbm_check_bad_phys_block ni ba = (bad, ni1)" by fastforce
  obtain s ni2 where e: "nmbm_erase_block_and_check ni1 ba = (s, ni2)" by fastforce
  obtain s' ni3 where w: "nmbm_write_repeated_data ni2 ba sig = (s', ni3)" by fastforce
  have p1: "phys_step W ni ni1" using c by (rule check_bad_phys_block_step)
  have p2: "phys_step W ni ni2"
    using Cons.prems(2) p1 by (intro phys_step_trans [OF p1] erase_block_and_check_step [OF e]) simp
  have p3: "phys_step W ni ni3"
    using Cons.prems(2) p2 by (intro phys_step_trans [OF p2] write_repeated_data_step [OF w]) simp
  have k: "degrade W ni (skip_bad_block n ba)" if "phys_step W ni n" for n
    using Cons.prems(2) that
    by (intro degrade_trans [OF degrade_phys [OF that]] skip_bad_block_degrade) simp
  have rest: "degrade W ni ni' \<and> (\<forall>ba. r = Some ba \<longrightarrow> ba \<in> set bas \<and> nmbm_get_block_state ni' ba = BLOCK_ST_GOOD)"
    if "degrade W ni n" "write_signature_blocks bas n sig = (r, ni')" for n
    using Cons.IH [OF that(2)] Cons.prems(2) degrade_keeps(4) [OF that(1)] degrade_trans [OF that(1)]
    by (metis list.set_intros(2))
  have d1b: "degrade W ni (snd (nmbm_set_block_state ni1 ba BLOCK_ST_BAD))"
    by (rule degrade_trans [OF degrade_phys [OF p1] degrade_set_bad_snd])
  have g3: "nmbm_get_block_state ni3 ba = nmbm_get_block_state ni ba"
    using phys_step_lower [OF p3] by (simp add: nmbm_get_block_state_def)
  show ?case
    using Cons.prems(1) rest [OF degrade_refl] rest [OF d1b] rest [OF k [OF p2]] rest [OF k [OF p3]]
      degrade_phys [OF p3] g3
    by (auto simp: c e w split: if_splits)
qed simp

lemma write_signature_degrade:
  assumes "nmbm_write_signature ni limit sig = (r, ni')"
    and "\<And>b. limit < b \<Longrightarrow> b \<le> sub32 (block_count ni) 1 \<Longrightarrow> blk_addrs ni b \<subseteq> W"
  shows "degrade W ni ni'"
    and "r = Some ba \<Longrightarrow> limit < ba \<and> ba \<le> sub32 (block_count ni) 1
           \<and> nmbm_get_block_state ni' ba = BLOCK_ST_GOOD"
proof -
  have "set (rev [limit + 1..<sub32 (block_count ni) 1 + 1]) = {b. limit < b \<and> b \<le> sub32 (block_count ni) 1}"
    by auto
  from write_signature_blocks_degrade [OF assms(1) [unfolded nmbm_write_signature_def], of W,
      unfolded this] assms(2)
  have "degrade W ni ni' \<and> (\<forall>ba. r = Some ba \<longrightarrow> ba \<in> {b. limit < b \<and> b \<le> sub32 (block_count ni) 1}
      \<and> nmbm_get_block_state ni' ba = BLOCK_ST_GOOD)" by blast
  then show "degrade W ni ni'" and "r = Some ba \<Longrightarrow> limit < ba \<and> ba \<le> sub32 (block_count ni) 1
           \<and> nmbm_get_block_state ni' ba = BLOCK_ST_GOOD" by blast+
qed

lemma read_data_loop_step:
  "read_data_loop ni off data ptr n = (r, data', ni') \<Longrightarrow> phys_step W ni ni'"
proof (induction ni off data ptr n rule: read_data_loop.induct)
  case (1 ni off data ptr n)
  let ?lead = "off AND writesize_mask ni" and ?chunk = "chunk_size ni off n"
  obtain ret page oob ni1 where p: "nmbm_read_phys_page ni (sub64 off ?lead)
      (Some (memget data ptr ?chunk)) None NMBM_MODE_PLACE_OOB = (ret, page, oob, ni1)"
    by (metis prod.exhaust)
  obtain ret2 ni2 where c: "read_into_page_cache ni (sub64 off ?lead) NMBM_MODE_PLACE_OOB = (ret2, ni2)"
    by fastforce
  have s1: "phys_step W ni ni1" using p by (rule read_phys_page_step)
  have s2: "phys_step W ni ni2" using c by (rule read_into_page_cache_step)
  consider "n = 0 \<or> ?chunk = 0" | "0 < n" "?chunk \<noteq> 0" "?chunk = writesize (lower ni)"
    | "0 < n" "?chunk \<noteq> 0" "?chunk \<noteq> writesize (lower ni)" by blast
  then show ?case
  proof cases
    case 1
    with "1.prems" show ?thesis by (auto simp: read_data_loop.simps [of ni off data ptr n] split: if_splits)
  next
    case 2
    with "1.prems" p s1 "1.IH"(1) [OF _ refl refl _ _ p [symmetric] refl refl refl refl] show ?thesis
      by (auto simp: read_data_loop.simps [of ni off data ptr n] Let_def split: if_splits
          intro: phys_step_trans)
  next
    case 3
    with "1.prems" c s2 "1.IH"(2) [OF _ refl refl _ _ c [symmetric] refl] show ?thesis
      by (auto simp: read_data_loop.simps [of ni off data ptr n] Let_def split: if_splits
          intro: phys_step_trans)
  qed
qed

lemma read_data_step: "nmbn_read_data ni addr data sz = (r, data', ni') \<Longrightarrow> phys_step W ni ni'"
  unfolding nmbn_read_data_def by (rule read_data_loop_step)

lemma read_data_loop_nonpos: "read_data_loop ni off data ptr n = (r, data', ni') \<Longrightarrow> r \<le> 0"
proof (induction ni off data ptr n rule: read_data_loop.induct)
  case (1 ni off data ptr n)
  let ?lead = "off AND writesize_mask ni" and ?chunk = "chunk_size ni off n"
  obtain ret page oob ni1 where p: "nmbm_read_phys_page ni (sub64 off ?lead)
      (Some (memget data ptr ?chunk)) None NMBM_MODE_PLACE_OOB = (ret, page, oob, ni1)"
    by (metis prod.exhaust)
  obtain ret2 ni2 where c: "read_into_page_cache ni (sub64 off ?lead) NMBM_MODE_PLACE_OOB = (ret2, ni2)"
    by fastforce
  consider "n = 0 \<or> ?chunk = 0" | "0 < n" "?chunk \<noteq> 0" "?chunk = writesize (lower ni)"
    | "0 < n" "?chunk \<noteq> 0" "?chunk \<noteq> writesize (lower ni)" by blast
  then show ?case
  proof cases
    case 1
    with "1.prems" show ?thesis by (auto simp: read_data_loop.simps [of ni off data ptr n] split: if_splits)
  next
    case 2
    with "1.prems" p "1.IH"(1) [OF _ refl refl _ _ p [symmetric] refl refl refl refl] show ?thesis
      by (auto simp: read_data_loop.simps [of ni off data ptr n] Let_def split: if_splits)
  next
    case 3
    with "1.prems" c "1.IH"(2) [OF _ refl refl _ _ c [symmetric] refl] show ?thesis
      by (auto simp: read_data_loop.simps [of ni off data ptr n] Let_def split: if_splits)
  qed
qed

lemma u64_add_u64: "u64 (u64 a + b) = u64 (a + b)"
  by (simp add: u64_def mod_simps)

lemma write_verify_loop_step:
  assumes "write_verify_loop ni off ptr = (r, ni')" and "off < 2 ^ 64"
    and "\<And>k. k < length ptr \<Longrightarrow> (let a = u64 (off + k) in sub64 a (a AND writesize_mask ni)) \<in> W"
  shows "phys_step W ni ni'"
  using assms
proof (induction ni off ptr rule: write_verify_loop.induct)
  case (1 ni off ptr)
  let ?lead = "off AND writesize_mask ni" and ?chunk = "chunk_size ni off (length ptr)"
  show ?case
  proof (cases "ptr = [] \<or> ?chunk = 0")
    case True
    with "1.prems"(1) show ?thesis
      by (auto simp: write_verify_loop.simps [of ni off ptr] split: if_splits)
  next
    case False
    define ni0 where "ni0 = ni\<lparr>page_cache := memput (memput (page_cache ni) 0
        (replicate (rawpage_size ni) 0xff)) ?lead (take ?chunk ptr)\<rparr>"
    obtain s ni1 where w: "nmbm_write_phys_page ni0 (sub64 off ?lead)
        (Some (take (writesize (lower ni)) (page_cache ni0))) None NMBM_MODE_PLACE_OOB = (s, ni1)"
      by fastforce
    obtain ret ni2 where c: "read_into_page_cache ni1 (sub64 off ?lead) NMBM_MODE_PLACE_OOB = (ret, ni2)"
      by fastforce
    have a: "sub64 off ?lead \<in> W"
      using False "1.prems"(2) "1.prems"(3) [of 0] by (simp add: u64_id Let_def)
    have s0: "phys_step W ni ni0" unfolding ni0_def by (intro phys_step_cache) simp
    have s1: "phys_step W ni ni1" using a w s0 by (blast intro: phys_step_trans write_phys_page_step)
    have s2: "phys_step W ni ni2" using s1 c by (blast intro: phys_step_trans read_into_page_cache_step)
    have m2: "writesize_mask ni2 = writesize_mask ni" using s2 by (elim phys_stepE) simp
    have rest: "phys_step W ni ni'" if "write_verify_loop ni2 (u64 (off + ?chunk)) (drop ?chunk ptr) = (r, ni')"
      "s" "\<not> ret < 0" "memget (page_cache ni2) ?lead ?chunk = take ?chunk ptr"
    proof -
      have "phys_step W ni2 ni'"
      proof (rule "1.IH" [OF _ refl refl refl _ ni0_def refl w [symmetric] _ refl c [symmetric]
            _ _ that(1)])
        show "(let a = u64 (u64 (off + ?chunk) + k) in sub64 a (a AND writesize_mask ni2)) \<in> W"
          if "k < length (drop ?chunk ptr)" for k
          using that "1.prems"(3) [of "?chunk + k"] by (simp add: u64_add_u64 m2 add.assoc)
      qed (use False that in \<open>simp_all add: u64_def\<close>)
      with s2 show ?thesis by (rule phys_step_trans)
    qed
    show ?thesis
      using "1.prems"(1) False w [unfolded ni0_def] c s1 s2 rest
      by (auto simp: write_verify_loop.simps [of ni off ptr] Let_def split: if_splits)
  qed
qed

lemma write_verify_data_step:
  assumes "nmbn_write_verify_data ni (ba2addr ni ba) data = (r, ni')"
    and "length data \<le> erasesize (lower ni)" and "blk_writes ni ba \<subseteq> W"
  shows "phys_step W ni ni'"
proof (rule write_verify_loop_step [OF assms(1) [unfolded nmbn_write_verify_data_def]])
  show "ba2addr ni ba < 2 ^ 64" by (simp add: ba2addr_def u64_def)
  fix k assume "k < length data"
  with assms(2) have "u64 (ba2addr ni ba + k) \<in> blk_addrs ni ba" by (auto simp: blk_addrs_def)
  with assms(3) show "(let a = u64 (ba2addr ni ba + k) in sub64 a (a AND writesize_mask ni)) \<in> W"
    by (auto simp: blk_writes_def Let_def)
qed

section \<open>Writing a management range\<close>

lemma set_bad_other:
  "b \<noteq> ba \<Longrightarrow> nmbm_get_block_state (snd (nmbm_set_block_state ni ba BLOCK_ST_BAD)) b = nmbm_get_block_state ni b"
  by (simp add: get_set_block_state)

lemma phys_step_state: "phys_step W ni ni' \<Longrightarrow> nmbm_get_block_state ni' b = nmbm_get_block_state ni b"
  by (auto simp: nmbm_get_block_state_def dest: phys_step_lower)

lemma skip_bad_block_other:
  "b \<noteq> ba \<Longrightarrow> nmbm_get_block_state (skip_bad_block ni ba) b = nmbm_get_block_state ni b"
  unfolding skip_bad_block_def
  by (auto simp: set_bad_other split: prod.splits
      dest: mark_phys_bad_block_step [where W = UNIV, simplified] phys_step_state)

definition mgmt_range_post ::
    "nat set \<Rightarrow> 'd nmbm_instance \<Rightarrow> nat \<Rightarrow> nat \<Rightarrow> byte list \<Rightarrow> nat \<Rightarrow> nat \<Rightarrow> (nat \<times> nat) option
     \<Rightarrow> 'd nmbm_instance \<Rightarrow> bool" where
  "mgmt_range_post W ni ba limit ptr sz start r ni' \<longleftrightarrow>
     degrade W ni ni'
     \<and> (\<forall>b. b < ba \<or> limit \<le> b \<longrightarrow> nmbm_get_block_state ni' b = nmbm_get_block_state ni b)
     \<and> (\<forall>st en. r = Some (st, en) \<longrightarrow> ba \<le> en \<and> en \<le> max ba limit
          \<and> (length ptr < sz \<or> ptr = [] \<longrightarrow> st = start)
          \<and> (length ptr = sz \<and> ptr \<noteq> [] \<longrightarrow>
               ba \<le> st \<and> st < en \<and> nmbm_get_block_state ni' st = BLOCK_ST_GOOD))"

lemma mgmt_range_post_skip:
  assumes "degrade W ni n" and "\<And>b. b \<noteq> ba \<Longrightarrow> nmbm_get_block_state n b = nmbm_get_block_state ni b"
    and "mgmt_range_post W n (ba + 1) limit ptr sz start r ni'" and "ba < limit"
  shows "mgmt_range_post W ni ba limit ptr sz start r ni'"
  using assms unfolding mgmt_range_post_def by (auto intro: degrade_trans)

lemma mgmt_range_post_written:
  assumes "phys_step W ni n" and "nmbm_get_block_state ni ba = BLOCK_ST_GOOD" and "ba < limit"
    and "ptr \<noteq> []" and "length ptr \<le> sz"
    and "mgmt_range_post W n (ba + 1) limit (drop k ptr) sz (if length ptr = sz then ba else start) r ni'"
  shows "mgmt_range_post W ni ba limit ptr sz start r ni'"
proof -
  have d: "degrade W ni n" using assms(1) by (rule degrade_phys)
  have st: "nmbm_get_block_state n b = nmbm_get_block_state ni b" for b
    using assms(1) by (rule phys_step_state)
  show ?thesis
    using assms(2-6) d st unfolding mgmt_range_post_def
    by (cases "k = 0") (auto intro: degrade_trans)
qed

lemma write_mgmt_loop_post:
  assumes "write_mgmt_loop ni ba limit ptr sz start = (r, ni')" and "length ptr \<le> sz"
    and "\<And>b. ba \<le> b \<Longrightarrow> b < limit \<Longrightarrow> blk_writes ni b \<subseteq> W"
  shows "mgmt_range_post W ni ba limit ptr sz start r ni'"
  using assms
proof (induction "limit - ba" arbitrary: ni ba ptr start)
  case 0
  then show ?case
    by (auto simp: write_mgmt_loop.simps [of ni ba] mgmt_range_post_def split: if_splits)
next
  case (Suc k)
  then have lim: "ba < limit" by simp
  have W: "blk_writes ni ba \<subseteq> W" "blk_addrs ni ba \<subseteq> W"
    using Suc.prems(3) [of ba] lim blk_addrs_writes by blast+
  have IH: "mgmt_range_post W n (ba + 1) limit p sz st r ni'"
    if "write_mgmt_loop n (ba + 1) limit p sz st = (r, ni')" "degrade W ni n" "length p \<le> sz" for n p st
    using that Suc by (intro Suc.hyps(1)) auto
  show ?case
  proof (cases "ptr = []")
    case True
    with Suc.prems show ?thesis
      by (auto simp: write_mgmt_loop.simps [of ni ba] mgmt_range_post_def)
  next
    case False
    define c where "c = (if length ptr > erasesize (lower ni) then erasesize (lower ni) else length ptr)"
    obtain bad ni1 where ch: "nmbm_check_bad_phys_block ni ba = (bad, ni1)" by fastforce
    obtain s ni2 where e: "nmbm_erase_block_and_check ni1 ba = (s, ni2)" by fastforce
    obtain s' ni3 where w: "nmbn_write_verify_data ni2 (ba2addr ni2 ba) (take c ptr) = (s', ni3)"
      by fastforce
    have p1: "phys_step W ni ni1" using ch by (rule check_bad_phys_block_step)
    have p2: "phys_step W ni ni2"
      using p1 W by (intro phys_step_trans [OF p1] erase_block_and_check_step [OF e]) simp
    have "length (take c ptr) \<le> erasesize (lower ni2)"
      using phys_step_lower [OF p2] by (simp add: c_def)
    then have p3: "phys_step W ni ni3"
      using p2 W by (intro phys_step_trans [OF p2] write_verify_data_step [OF w]) simp_all
    have d1b: "degrade W ni (snd (nmbm_set_block_state ni1 ba BLOCK_ST_BAD))"
      by (rule degrade_trans [OF degrade_phys [OF p1] degrade_set_bad_snd])
    have sk: "degrade W ni (skip_bad_block n ba)" if "phys_step W ni n" for n
      using W that by (intro degrade_trans [OF degrade_phys [OF that]] skip_bad_block_degrade) simp
    note eq = write_mgmt_loop.simps [of ni ba limit ptr sz start, unfolded Let_def c_def [symmetric]]
    consider "nmbm_get_block_state ni ba \<noteq> BLOCK_ST_GOOD" | "bad" "nmbm_get_block_state ni ba = BLOCK_ST_GOOD"
      | "\<not> bad" "\<not> s" "nmbm_get_block_state ni ba = BLOCK_ST_GOOD"
      | "\<not> bad" "s" "\<not> s'" "nmbm_get_block_state ni ba = BLOCK_ST_GOOD"
      | "\<not> bad" "s" "s'" "nmbm_get_block_state ni ba = BLOCK_ST_GOOD" by blast
    then show ?thesis
    proof cases
      case 1
      with Suc.prems False lim show ?thesis
        by (intro mgmt_range_post_skip [OF degrade_refl _ IH]) (simp_all add: eq)
    next
      case 2
      with Suc.prems False lim ch d1b show ?thesis
        by (intro mgmt_range_post_skip [OF d1b _ IH])
          (simp_all add: eq set_bad_other phys_step_state [OF p1])
    next
      case 3
      with Suc.prems False lim ch e sk [OF p2] show ?thesis
        by (intro mgmt_range_post_skip [OF sk [OF p2] _ IH])
          (simp_all add: eq skip_bad_block_other phys_step_state [OF p2])
    next
      case 4
      with Suc.prems False lim ch e w sk [OF p3] show ?thesis
        by (intro mgmt_range_post_skip [OF sk [OF p3] _ IH])
          (simp_all add: eq skip_bad_block_other phys_step_state [OF p3])
    next
      case 5
      with Suc.prems False lim ch e w show ?thesis
        by (intro mgmt_range_post_written [OF p3 _ lim False _ IH [where p = "drop c ptr"]])
          (simp_all add: eq degrade_phys [OF p3])
    qed
  qed
qed

lemma write_mgmt_range_post:
  assumes "nmbm_write_mgmt_range ni ba limit data = (r, ni')"
    and "\<And>b. ba \<le> b \<Longrightarrow> b < limit \<Longrightarrow> blk_writes ni b \<subseteq> W"
  shows "mgmt_range_post W ni ba limit data (length data) 0 r ni'"
  by (rule write_mgmt_loop_post [OF assms(1) [unfolded nmbm_write_mgmt_range_def]]) (use assms(2) in auto)

end
