(* ===== verification/Nmbm_Tables.thy ===== *)
theory Nmbm_Tables
  imports Nmbm_Write
begin

text \<open>
  The info tables: building their image, writing main and backup table, and the rescue procedures
  when a table cannot be written (\<^verbatim>\<open>nmbm-core.c\<close>, lines 1006 to 1585). \<open>table_step W\<close> is the
  contract of all of them and \<open>layout\<close> the order the code keeps between the table addresses. With
  them the update loop of \<^verbatim>\<open>nmbm_update_info_table\<close> is shown to end: a pass that leaves the
  tables changed has found a new bad block.
\<close>

unbundle bit_operations_syntax

section \<open>Definitions\<close>

definition nmbm_generate_info_table_cache ::
    "crc_fn \<Rightarrow> 'd nmbm_instance \<Rightarrow> bool \<times> 'd nmbm_instance" where
  "nmbm_generate_info_table_cache crc ni =
     (let cache = memput (info_table_cache ni) 0 (replicate (info_table_size ni) 0xff);
          cache = memput cache (state_table_off (info_table ni))
                    (take (state_table_size ni) (enc_array (\<lambda>w. le32 (unat w)) (block_state ni)));
          cache = memput cache (mapping_table_off (info_table ni))
                    (take (mapping_table_size ni) (enc_array les32 (block_mapping ni)));
          it = info_table ni;
          it = it\<lparr>ift_header := (ift_header it)\<lparr>magic := NMBM_MAGIC_INFO_TABLE, version := NMBM_VER,
                                             hdr_size := info_table_size ni\<rparr>\<rparr>;
          changed = (block_state_changed ni \<noteq> 0 \<or> block_mapping_changed ni \<noteq> 0);
          it = (if changed then it\<lparr>write_count := u32 (write_count it + 1)\<rparr> else it);
          cache = memput cache 0 (info_table_bytes it);
          cache = nmbm_update_checksum crc cache
      in (changed, ni\<lparr>info_table_cache := cache, info_table := it\<rparr>))"

definition nmbm_write_info_table ::
    "'d nmbm_instance \<Rightarrow> nat \<Rightarrow> nat \<Rightarrow> (nat \<times> nat) option \<times> 'd nmbm_instance" where
  "nmbm_write_info_table ni ba limit =
     nmbm_write_mgmt_range ni ba limit (take (info_table_size ni) (info_table_cache ni))"

definition nmbm_mark_tables_clean :: "'d nmbm_instance \<Rightarrow> 'd nmbm_instance" where
  "nmbm_mark_tables_clean ni = ni\<lparr>block_state_changed := 0, block_mapping_changed := 0\<rparr>"

function reserve_blocks_loop :: "'d nmbm_instance \<Rightarrow> nat \<Rightarrow> int \<Rightarrow> int \<Rightarrow> int \<Rightarrow> nat option" where
  "reserve_blocks_loop ni ba nblocks min_count limit =
     (if nblocks \<ge> min_count then
        (case nmbm_block_walk ni True ba nblocks limit of
           Some nba \<Rightarrow> Some nba
         | None \<Rightarrow> reserve_blocks_loop ni ba (nblocks - 1) min_count limit)
      else None)"
  by pat_completeness auto
termination
  by (relation "measure (\<lambda>(ni, ba, nblocks, min_count, limit). nat (nblocks - min_count + 1))") auto

definition nmbm_try_reserve_blocks ::
    "'d nmbm_instance \<Rightarrow> nat \<Rightarrow> nat \<Rightarrow> int \<Rightarrow> int \<Rightarrow> nat option" where
  "nmbm_try_reserve_blocks ni ba count min_count limit =
     reserve_blocks_loop ni ba (s32 count) min_count limit"

text \<open>The limit of a reservation: room for one table must stay below the mapping blocks.\<close>

definition reserve_limit :: "'d nmbm_instance \<Rightarrow> int" where
  "reserve_limit ni = s32 (sub32 (mapping_blocks_top_ba ni) (size2blk ni (info_table_size ni)))"

definition nmbm_rebuild_info_table :: "'d nmbm_instance \<Rightarrow> bool \<times> 'd nmbm_instance" where
  "nmbm_rebuild_info_table ni =
     (let ni = ni\<lparr>main_table_ba := 0, backup_table_ba := 0,
                  mapping_blocks_ba := mapping_blocks_top_ba ni\<rparr> in
      case nmbm_write_info_table ni (mgmt_start_ba ni) (mapping_blocks_top_ba ni) of
        (None, ni) \<Rightarrow> (False, ni\<lparr>protected := True\<rparr>)
      | (Some (table_start_ba, table_end_ba), ni) \<Rightarrow>
          let ni = ni\<lparr>main_table_ba := table_start_ba\<rparr>;
              main_table_end_ba = table_end_ba;
              ni = ni\<lparr>mapping_blocks_ba := table_end_ba\<rparr>;
              ni = nmbm_mark_tables_clean ni
          in
          case nmbm_try_reserve_blocks ni table_end_ba (info_table_spare_blocks ni) 0 (reserve_limit ni) of
            None \<Rightarrow> (True, ni)
          | Some next_start_ba \<Rightarrow>
              case nmbm_write_info_table ni next_start_ba (mapping_blocks_top_ba ni) of
                (None, ni) \<Rightarrow> (True, ni)
              | (Some (table_start_ba, table_end_ba), ni) \<Rightarrow>
                  let ni = ni\<lparr>backup_table_ba := table_start_ba\<rparr>;
                      ni = ni\<lparr>mapping_blocks_ba := table_end_ba\<rparr>;
                      ni = nmbm_erase_range ni main_table_end_ba (backup_table_ba ni)
                  in (True, ni))"

text \<open>
  \<^verbatim>\<open>while (write_ba >= low) \<dots> write_ba--\<close>: try to write a table from ever lower starts. The low
  bound is above the start of the management area, so the counter does not wrap below zero.
\<close>

function write_table_from ::
    "'d nmbm_instance \<Rightarrow> nat \<Rightarrow> nat \<Rightarrow> nat \<Rightarrow> (nat \<times> nat) option \<times> 'd nmbm_instance" where
  "write_table_from ni write_ba low limit =
     (if write_ba \<ge> low then
        (case nmbm_write_info_table ni write_ba limit of
           (Some r, ni) \<Rightarrow> (Some r, ni)
         | (None, ni) \<Rightarrow> if write_ba = 0 then (None, ni)
                        else write_table_from ni (write_ba - 1) low limit)
      else (None, ni))"
  by pat_completeness auto
termination
  by (relation "measure (\<lambda>(ni, write_ba, low, limit). write_ba)") auto

declare reserve_blocks_loop.simps [simp del] write_table_from.simps [simp del]

definition nmbm_rescue_single_info_table :: "'d nmbm_instance \<Rightarrow> bool \<times> 'd nmbm_instance" where
  "nmbm_rescue_single_info_table ni =
     (case nmbm_write_info_table ni (mgmt_start_ba ni) (main_table_ba ni) of
        (Some (table_start_ba, table_end_ba), ni) \<Rightarrow>
          let ni = ni\<lparr>backup_table_ba := main_table_ba ni\<rparr>;
              ni = ni\<lparr>main_table_ba := table_start_ba\<rparr>;
              ni = nmbm_mark_tables_clean ni;
              ni = nmbm_erase_range ni table_end_ba (backup_table_ba ni)
          in (True, ni)
      | (None, ni) \<Rightarrow>
          case nmbm_try_reserve_blocks ni (mapping_blocks_ba ni) (info_table_spare_blocks ni) 0
                 (reserve_limit ni) of
            None \<Rightarrow> (False, ni)
          | Some write_ba \<Rightarrow>
              case write_table_from ni write_ba (mapping_blocks_ba ni) (mapping_blocks_top_ba ni) of
                (Some (table_start_ba, table_end_ba), ni) \<Rightarrow>
                  let ni = nmbm_erase_range ni (mapping_blocks_ba ni) table_start_ba;
                      ni = ni\<lparr>backup_table_ba := table_start_ba\<rparr>;
                      ni = ni\<lparr>mapping_blocks_ba := table_end_ba\<rparr>;
                      ni = nmbm_mark_tables_clean ni
                  in (True, ni)
              | (None, ni) \<Rightarrow> (False, ni))"

definition nmbm_update_single_info_table :: "'d nmbm_instance \<Rightarrow> bool \<Rightarrow> bool \<times> 'd nmbm_instance" where
  "nmbm_update_single_info_table ni update_main_table =
     (let (write_start_ba, write_limit) =
        (if update_main_table then (main_table_ba ni, backup_table_ba ni)
         else (backup_table_ba ni, mapping_blocks_top_ba ni)) in
      case nmbm_write_info_table ni write_start_ba write_limit of
        (Some (table_start_ba, table_end_ba), ni) \<Rightarrow>
          let ni = (if update_main_table then ni\<lparr>main_table_ba := table_start_ba\<rparr>
                    else ni\<lparr>backup_table_ba := table_start_ba, mapping_blocks_ba := table_end_ba\<rparr>)
          in (True, nmbm_mark_tables_clean ni)
      | (None, ni) \<Rightarrow>
          if update_main_table then
            nmbm_rescue_single_info_table
              (ni\<lparr>main_table_ba := backup_table_ba ni, backup_table_ba := 0\<rparr>)
          else (False, ni\<lparr>mapping_blocks_ba := backup_table_ba ni, backup_table_ba := 0\<rparr>))"

text \<open>The part of the rescue that rewrites the backup behind a main table that reached it.\<close>

definition rescue_rewrite_backup :: "'d nmbm_instance \<Rightarrow> nat \<Rightarrow> bool \<times> 'd nmbm_instance" where
  "rescue_rewrite_backup ni main_table_end_ba =
     (let ni = ni\<lparr>mapping_blocks_ba := main_table_end_ba\<rparr> in
      case nmbm_try_reserve_blocks ni main_table_end_ba (info_table_spare_blocks ni) 0
             (reserve_limit ni) of
        None \<Rightarrow> (True, ni\<lparr>backup_table_ba := 0\<rparr>)
      | Some write_ba \<Rightarrow>
          case write_table_from ni write_ba main_table_end_ba (mapping_blocks_top_ba ni) of
            (None, ni) \<Rightarrow> (True, ni\<lparr>backup_table_ba := 0\<rparr>)
          | (Some (tmp_table_start_ba, tmp_table_end_ba), ni) \<Rightarrow>
              let ni = ni\<lparr>backup_table_ba := tmp_table_start_ba\<rparr>;
                  ni = ni\<lparr>mapping_blocks_ba := tmp_table_end_ba\<rparr>
              in (True, nmbm_erase_range ni main_table_end_ba (backup_table_ba ni)))"

definition nmbm_rescue_main_info_table :: "'d nmbm_instance \<Rightarrow> bool \<times> 'd nmbm_instance" where
  "nmbm_rescue_main_info_table ni =
     (case nmbm_try_reserve_blocks ni (mapping_blocks_ba ni) (info_table_spare_blocks ni) 0
             (reserve_limit ni) of
        None \<Rightarrow> (True, ni\<lparr>main_table_ba := backup_table_ba ni, backup_table_ba := 0\<rparr>)
      | Some write_ba \<Rightarrow>
          case write_table_from ni write_ba (mapping_blocks_ba ni) (mapping_blocks_top_ba ni) of
            (None, ni) \<Rightarrow> (True, ni\<lparr>main_table_ba := backup_table_ba ni, backup_table_ba := 0\<rparr>)
          | (Some (tmp_table_start_ba, tmp_table_end_ba), ni) \<Rightarrow>
              let ni = ni\<lparr>mapping_blocks_ba := tmp_table_end_ba\<rparr> in
              case nmbm_write_info_table ni (mgmt_start_ba ni) tmp_table_start_ba of
                (None, ni) \<Rightarrow>
                  (True, nmbm_mark_tables_clean
                     (ni\<lparr>main_table_ba := tmp_table_start_ba, backup_table_ba := 0\<rparr>))
              | (Some (main_table_start_ba, main_table_end_ba), ni) \<Rightarrow>
                  let ni = ni\<lparr>main_table_ba := main_table_start_ba\<rparr>;
                      ni = nmbm_mark_tables_clean ni
                  in if main_table_end_ba \<le> tmp_table_start_ba
                     then (True, ni\<lparr>backup_table_ba := tmp_table_start_ba\<rparr>)
                     else rescue_rewrite_backup ni main_table_end_ba)"

text \<open>The code at the label \<^verbatim>\<open>write_main_table\<close>.\<close>

definition write_main_table :: "'d nmbm_instance \<Rightarrow> nat \<Rightarrow> bool \<times> 'd nmbm_instance" where
  "write_main_table ni main_table_limit =
     (if main_table_ba ni = 0 then nmbm_rebuild_info_table ni
      else
        case nmbm_write_info_table ni (main_table_ba ni) main_table_limit of
          (None, ni) \<Rightarrow>
            if backup_table_ba ni = 0 then nmbm_rebuild_info_table ni
            else nmbm_rescue_main_info_table ni
        | (Some (table_start_ba, table_end_ba), ni) \<Rightarrow>
            let ni = ni\<lparr>main_table_ba := table_start_ba\<rparr>;
                ni = (if backup_table_ba ni = 0 then ni\<lparr>mapping_blocks_ba := table_end_ba\<rparr> else ni)
            in (True, nmbm_mark_tables_clean ni))"

definition nmbm_update_info_table_once ::
    "crc_fn \<Rightarrow> 'd nmbm_instance \<Rightarrow> bool \<Rightarrow> bool \<times> 'd nmbm_instance" where
  "nmbm_update_info_table_once crc ni force =
     (let (changed, ni) = nmbm_generate_info_table_cache crc ni in
      if \<not> changed \<and> \<not> force then (True, ni)
      else if backup_table_ba ni = 0 then write_main_table ni (mapping_blocks_top_ba ni)
      else
        case nmbm_write_info_table ni (backup_table_ba ni) (mapping_blocks_top_ba ni) of
          (None, ni) \<Rightarrow>
            write_main_table (ni\<lparr>mapping_blocks_ba := backup_table_ba ni, backup_table_ba := 0\<rparr>)
              (mapping_blocks_top_ba ni)
        | (Some (table_start_ba, table_end_ba), ni) \<Rightarrow>
            let ni = ni\<lparr>backup_table_ba := table_start_ba\<rparr>;
                ni = ni\<lparr>mapping_blocks_ba := table_end_ba\<rparr>;
                ni = nmbm_mark_tables_clean ni
            in write_main_table ni (backup_table_ba ni))"

section \<open>The contract of the table operations\<close>

definition clean :: "'d nmbm_instance \<Rightarrow> bool" where
  "clean ni \<longleftrightarrow> block_state_changed ni = 0 \<and> block_mapping_changed ni = 0"

text \<open>
  What a table operation may change. The last conjunct: clean tables stay clean unless a block has
  newly turned bad.
\<close>

definition table_step :: "nat set \<Rightarrow> 'd nmbm_instance \<Rightarrow> 'd nmbm_instance \<Rightarrow> bool" where
  "table_step W ni ni' \<longleftrightarrow>
     (\<exists>d pc bs ch mch cache it main backup mb prot.
        ni' = ni\<lparr>lower := (lower ni)\<lparr>arg := d\<rparr>, page_cache := pc, block_state := bs,
                 block_state_changed := ch, block_mapping_changed := mch, info_table_cache := cache,
                 info_table := it, main_table_ba := main, backup_table_ba := backup,
                 mapping_blocks_ba := mb, protected := prot\<rparr>
        \<and> dev_reach W (lower ni) (arg (lower ni)) d \<and> states_degrade (block_state ni) bs
        \<and> (info_table_cache ni \<noteq> [] \<longrightarrow> cache \<noteq> []))
     \<and> (clean ni \<longrightarrow> clean ni' \<or> live_count (block_state ni') < live_count (block_state ni))"

lemma table_stepI:
  "dev_reach W (lower ni) (arg (lower ni)) d \<Longrightarrow> states_degrade (block_state ni) bs \<Longrightarrow>
   info_table_cache ni \<noteq> [] \<longrightarrow> cache \<noteq> [] \<Longrightarrow>
   clean ni \<longrightarrow> clean ni' \<or> live_count (block_state ni') < live_count (block_state ni) \<Longrightarrow>
   ni' = ni\<lparr>lower := (lower ni)\<lparr>arg := d\<rparr>, page_cache := pc, block_state := bs,
            block_state_changed := ch, block_mapping_changed := mch, info_table_cache := cache,
            info_table := it, main_table_ba := main, backup_table_ba := backup,
            mapping_blocks_ba := mb, protected := prot\<rparr> \<Longrightarrow>
   table_step W ni ni'"
  unfolding table_step_def by blast

lemma table_stepE:
  assumes "table_step W ni ni'"
  obtains d pc bs ch mch cache it main backup mb prot where
    "ni' = ni\<lparr>lower := (lower ni)\<lparr>arg := d\<rparr>, page_cache := pc, block_state := bs,
            block_state_changed := ch, block_mapping_changed := mch, info_table_cache := cache,
            info_table := it, main_table_ba := main, backup_table_ba := backup,
            mapping_blocks_ba := mb, protected := prot\<rparr>"
    and "dev_reach W (lower ni) (arg (lower ni)) d" and "states_degrade (block_state ni) bs"
    and "info_table_cache ni \<noteq> [] \<longrightarrow> cache \<noteq> []"
    and "clean ni \<longrightarrow> clean ni' \<or> live_count (block_state ni') < live_count (block_state ni)"
  using assms unfolding table_step_def by blast

lemma states_degrade_live: "states_degrade bs bs' \<Longrightarrow> live_count bs' \<le> live_count bs"
proof -
  assume d: "states_degrade bs bs'"
  have "set (filter (\<lambda>ba. nmbm_get_block_state_raw bs' ba \<noteq> 0) [0..<table_cap bs'])
      \<subseteq> set (filter (\<lambda>ba. nmbm_get_block_state_raw bs ba \<noteq> 0) [0..<table_cap bs])"
    using d by (auto simp: states_degrade_def table_cap_def) (metis gr0I)
  then have "card (set (filter (\<lambda>ba. nmbm_get_block_state_raw bs' ba \<noteq> 0) [0..<table_cap bs']))
      \<le> card (set (filter (\<lambda>ba. nmbm_get_block_state_raw bs ba \<noteq> 0) [0..<table_cap bs]))"
    by (intro card_mono) simp_all
  then show ?thesis
    unfolding live_count_def by (simp only: distinct_card [OF distinct_filter] distinct_upt)
qed

lemma table_step_degrade: "degrade W ni ni' \<Longrightarrow> table_step W ni ni'"
proof (elim degradeE)
  fix d pc bs ch
  assume n: "ni' = ni\<lparr>lower := (lower ni)\<lparr>arg := d\<rparr>, page_cache := pc, block_state := bs,
              block_state_changed := ch\<rparr>"
    and "dev_reach W (lower ni) (arg (lower ni)) d" "states_degrade (block_state ni) bs"
    and "bs = block_state ni \<and> ch = block_state_changed ni \<or> live_count bs < live_count (block_state ni)"
  then show ?thesis
    by (intro table_stepI [where d = d and pc = pc and bs = bs and ch = ch
          and mch = "block_mapping_changed ni" and cache = "info_table_cache ni"
          and it = "info_table ni" and main = "main_table_ba ni" and backup = "backup_table_ba ni"
          and mb = "mapping_blocks_ba ni" and prot = "protected ni"])
      (auto simp: clean_def)
qed

lemma table_step_refl [simp, intro]: "table_step W ni ni"
  by (rule table_step_degrade) simp

lemma table_step_live: "table_step W ni ni' \<Longrightarrow> live_count (block_state ni') \<le> live_count (block_state ni)"
  by (elim table_stepE) (simp add: states_degrade_live)

lemma table_step_trans [trans]:
  assumes "table_step W a b" and "table_step W b c"
  shows "table_step W a c"
proof -
  have cl: "clean a \<longrightarrow> clean c \<or> live_count (block_state c) < live_count (block_state a)"
    using assms table_step_live [OF assms(1)] table_step_live [OF assms(2)]
    unfolding table_step_def by fastforce
  show ?thesis
    using assms cl
    by (elim table_stepE, intro table_stepI)
      (auto intro: dev_reach_trans states_degrade_trans)
qed

text \<open>Operations that only move table addresses.\<close>

lemma table_step_fields:
  "table_step W ni (ni\<lparr>main_table_ba := m, backup_table_ba := b, mapping_blocks_ba := k, protected := p\<rparr>)"
  by (rule table_stepI [where d = "arg (lower ni)" and pc = "page_cache ni" and bs = "block_state ni"
        and ch = "block_state_changed ni" and mch = "block_mapping_changed ni"
        and cache = "info_table_cache ni" and it = "info_table ni"
        and main = m and backup = b and mb = k and prot = p])
    (simp_all add: dev_reach.dev_stay clean_def)

lemma table_step_mark_clean: "table_step W ni (nmbm_mark_tables_clean ni)"
  by (rule table_stepI [where d = "arg (lower ni)" and pc = "page_cache ni" and bs = "block_state ni"
        and ch = 0 and mch = 0 and cache = "info_table_cache ni" and it = "info_table ni"
        and main = "main_table_ba ni" and backup = "backup_table_ba ni"
        and mb = "mapping_blocks_ba ni" and prot = "protected ni"])
    (simp_all add: dev_reach.dev_stay clean_def nmbm_mark_tables_clean_def)

lemma clean_mark [simp]: "clean (nmbm_mark_tables_clean ni)"
  by (simp add: clean_def nmbm_mark_tables_clean_def)

lemma update_checksum_ne [simp]: "nmbm_update_checksum crc data \<noteq> []"
  by (simp add: nmbm_update_checksum_def Let_def memput_def le32_def)

lemma generate_shape:
  assumes "nmbm_generate_info_table_cache crc ni = (c, ni')"
  obtains cache it where "ni' = ni\<lparr>info_table_cache := cache, info_table := it\<rparr>" and "cache \<noteq> []"
  using assms unfolding nmbm_generate_info_table_cache_def Let_def prod.inject
  by (elim conjE) (erule meta_allE, erule meta_allE, erule meta_impE, erule sym, erule meta_mp,
      rule update_checksum_ne)

lemma table_step_generate:
  assumes "nmbm_generate_info_table_cache crc ni = (c, ni')"
  shows "table_step W ni ni'"
proof -
  obtain cache it where "ni' = ni\<lparr>info_table_cache := cache, info_table := it\<rparr>" "cache \<noteq> []"
    using assms by (rule generate_shape)
  then show ?thesis
    by (intro table_stepI [where d = "arg (lower ni)" and pc = "page_cache ni" and bs = "block_state ni"
          and ch = "block_state_changed ni" and mch = "block_mapping_changed ni"
          and cache = cache and it = it and main = "main_table_ba ni" and backup = "backup_table_ba ni"
          and mb = "mapping_blocks_ba ni" and prot = "protected ni"])
      (simp_all add: dev_reach.dev_stay clean_def)
qed

lemma generate_changed: "nmbm_generate_info_table_cache crc ni = (c, ni') \<Longrightarrow> c \<longleftrightarrow> \<not> clean ni"
  by (auto simp: nmbm_generate_info_table_cache_def Let_def clean_def)

section \<open>The layout of the management area\<close>

definition layout :: "'d nmbm_instance \<Rightarrow> bool" where
  "layout ni \<longleftrightarrow> 0 < mgmt_start_ba ni \<and> mgmt_start_ba ni \<le> mapping_blocks_ba ni
     \<and> mapping_blocks_ba ni \<le> mapping_blocks_top_ba ni
     \<and> (main_table_ba ni \<noteq> 0 \<longrightarrow> mgmt_start_ba ni \<le> main_table_ba ni \<and> main_table_ba ni < mapping_blocks_ba ni)
     \<and> (backup_table_ba ni \<noteq> 0 \<longrightarrow> main_table_ba ni \<noteq> 0 \<and> main_table_ba ni < backup_table_ba ni
          \<and> backup_table_ba ni < mapping_blocks_ba ni)
     \<and> info_table_cache ni \<noteq> [] \<and> 0 < info_table_size ni"

text \<open>The addresses of the management area below the mapped blocks.\<close>

definition mgmt_writes :: "'d nmbm_instance \<Rightarrow> nat set" where
  "mgmt_writes ni = (\<Union>b\<in>{mgmt_start_ba ni..<mapping_blocks_top_ba ni}. blk_writes ni b)"

text \<open>
  \<open>confined W\<close> lets one lemma per operation serve two purposes: with \<open>UNIV\<close> it holds of every
  state, as the termination proof needs; with \<open>mgmt_writes\<close> it is the layout invariant.
\<close>

definition confined :: "nat set \<Rightarrow> 'd nmbm_instance \<Rightarrow> bool" where
  "confined W ni \<longleftrightarrow> W = UNIV \<or> layout ni \<and> mgmt_writes ni \<subseteq> W"

definition table_ok :: "nat set \<Rightarrow> 'd nmbm_instance \<Rightarrow> 'd nmbm_instance \<Rightarrow> bool" where
  "table_ok W ni ni' \<longleftrightarrow> table_step W ni ni' \<and> confined W ni'"

lemma confined_UNIV [simp]: "confined UNIV ni"
  by (simp add: confined_def)

lemma confined_layout: "confined W ni \<Longrightarrow> W \<noteq> UNIV \<Longrightarrow> layout ni"
  by (simp add: confined_def)

lemma confined_writes:
  assumes "confined W ni" and "W \<noteq> UNIV \<Longrightarrow> mgmt_start_ba ni \<le> ba \<and> limit \<le> mapping_blocks_top_ba ni"
  shows "ba \<le> b \<Longrightarrow> b < limit \<Longrightarrow> blk_writes ni b \<subseteq> W"
  using assms unfolding confined_def mgmt_writes_def by (fastforce simp: UN_subset_iff)

lemma table_step_blk_writes: "table_step W ni ni' \<Longrightarrow> blk_writes ni' b = blk_writes ni b"
  by (elim table_stepE) (simp add: blk_writes_def blk_addrs_def ba2addr_def)

lemma table_step_keeps:
  assumes "table_step W ni ni'"
  shows "mgmt_start_ba ni' = mgmt_start_ba ni" "mapping_blocks_top_ba ni' = mapping_blocks_top_ba ni"
    "info_table_size ni' = info_table_size ni" "block_mapping ni' = block_mapping ni"
    "mgmt_writes ni' = mgmt_writes ni" "info_table_cache ni \<noteq> [] \<longrightarrow> info_table_cache ni' \<noteq> []"
    "size2blk ni' sz = size2blk ni sz" "read_only ni' = read_only ni"
proof -
  have "mgmt_start_ba ni' = mgmt_start_ba ni \<and> mapping_blocks_top_ba ni' = mapping_blocks_top_ba ni"
    using assms by (elim table_stepE) simp
  then show "mgmt_writes ni' = mgmt_writes ni"
    by (simp add: mgmt_writes_def table_step_blk_writes [OF assms])
qed (use assms in \<open>elim table_stepE, simp add: size2blk_def\<close>)+

lemma degrade_layout: "degrade W ni ni' \<Longrightarrow> layout ni' = layout ni"
  by (elim degradeE) (simp add: layout_def)

lemma table_ok_degrade: "degrade W ni ni' \<Longrightarrow> confined W ni \<Longrightarrow> table_ok W ni ni'"
  unfolding table_ok_def confined_def
  using table_step_degrade table_step_keeps(5) degrade_layout by metis

lemma table_ok_refl [simp, intro]: "confined W ni \<Longrightarrow> table_ok W ni ni"
  by (simp add: table_ok_def)

lemma table_ok_trans [trans]: "table_ok W a b \<Longrightarrow> table_ok W b c \<Longrightarrow> table_ok W a c"
  unfolding table_ok_def by (blast intro: table_step_trans)

lemma table_ok_fields:
  assumes "confined W ni" and "W \<noteq> UNIV \<Longrightarrow> layout (ni\<lparr>main_table_ba := m, backup_table_ba := b,
      mapping_blocks_ba := k, protected := p\<rparr>)"
  shows "table_ok W ni (ni\<lparr>main_table_ba := m, backup_table_ba := b, mapping_blocks_ba := k, protected := p\<rparr>)"
proof -
  let ?n = "ni\<lparr>main_table_ba := m, backup_table_ba := b, mapping_blocks_ba := k, protected := p\<rparr>"
  have "table_step W ni ?n" by (rule table_step_fields)
  with assms table_step_keeps(5) [OF this] show ?thesis
    unfolding table_ok_def confined_def by auto
qed

lemma table_ok_mark_clean: "confined W ni \<Longrightarrow> table_ok W ni (nmbm_mark_tables_clean ni)"
  using table_step_mark_clean [of W ni] table_step_keeps(5) [OF table_step_mark_clean [of W ni]]
  unfolding table_ok_def confined_def by (auto simp: layout_def nmbm_mark_tables_clean_def)

lemma table_ok_generate:
  assumes "nmbm_generate_info_table_cache crc ni = (c, ni')" and "confined W ni"
  shows "table_ok W ni ni'"
proof -
  have t: "table_step W ni ni'" using assms(1) by (rule table_step_generate)
  obtain cache it where "ni' = ni\<lparr>info_table_cache := cache, info_table := it\<rparr>" "cache \<noteq> []"
    using assms(1) by (rule generate_shape)
  then have "layout ni \<Longrightarrow> layout ni'" by (simp add: layout_def)
  with t assms(2) table_step_keeps(5) [OF t] show ?thesis
    unfolding table_ok_def confined_def by auto
qed

lemma write_info_table_post:
  assumes "nmbm_write_info_table ni ba limit = (r, ni')" and "confined W ni"
    and "W \<noteq> UNIV \<Longrightarrow> mgmt_start_ba ni \<le> ba \<and> limit \<le> mapping_blocks_top_ba ni"
  shows "degrade W ni ni'"
    and "r = Some (st, en) \<Longrightarrow> W \<noteq> UNIV \<Longrightarrow> ba \<le> st \<and> st < en \<and> en \<le> limit"
proof -
  let ?data = "take (info_table_size ni) (info_table_cache ni)"
  have post: "mgmt_range_post W ni ba limit ?data (length ?data) 0 r ni'"
    using assms(2,3) confined_writes
    by (intro write_mgmt_range_post [OF assms(1) [unfolded nmbm_write_info_table_def]]) blast
  then show "degrade W ni ni'" by (simp add: mgmt_range_post_def)
  assume "r = Some (st, en)" and "W \<noteq> UNIV"
  then have "?data \<noteq> []" using assms(2) by (simp add: confined_def layout_def)
  with post \<open>r = Some (st, en)\<close> show "ba \<le> st \<and> st < en \<and> en \<le> limit"
    unfolding mgmt_range_post_def by auto
qed

lemma walk_asc_bounds: "walk_asc ni ba nb limit = Some b \<Longrightarrow> ba \<le> b \<and> b < limit"
proof (induction ni ba nb limit rule: walk_asc.induct)
  case (1 ni ba nb limit)
  then show ?case
    by (subst (asm) (2) walk_asc.simps) (auto simp: Let_def split: if_splits)
qed

lemma reserve_blocks_ge: "nmbm_try_reserve_blocks ni ba n m limit = Some b \<Longrightarrow> ba \<le> b"
proof -
  have "reserve_blocks_loop ni ba nb m limit = Some b \<Longrightarrow> ba \<le> b" for nb
  proof (induction ni ba nb m limit rule: reserve_blocks_loop.induct)
    case (1 ni ba nb m limit)
    then show ?case
      by (subst (asm) (2) reserve_blocks_loop.simps)
        (auto simp: nmbm_block_walk_def nmbm_block_walk_asc_def Let_def dest: walk_asc_bounds
          split: if_splits option.splits)
  qed
  then show "nmbm_try_reserve_blocks ni ba n m limit = Some b \<Longrightarrow> ba \<le> b"
    unfolding nmbm_try_reserve_blocks_def .
qed

lemma write_table_from_post:
  assumes "write_table_from ni wb low limit = (r, ni')" and "confined W ni"
    and "W \<noteq> UNIV \<Longrightarrow> mgmt_start_ba ni \<le> low \<and> limit \<le> mapping_blocks_top_ba ni"
  shows "degrade W ni ni' \<and> (\<forall>st en. r = Some (st, en) \<longrightarrow> W \<noteq> UNIV \<longrightarrow> low \<le> st \<and> st < en \<and> en \<le> limit)"
  using assms
proof (induction wb arbitrary: ni rule: less_induct)
  case (less wb)
  show ?case
  proof (cases "low \<le> wb")
    case False
    with less.prems(1) show ?thesis by (simp add: write_table_from.simps [of ni wb])
  next
    case True
    obtain r1 ni1 where w: "nmbm_write_info_table ni wb limit = (r1, ni1)" by fastforce
    have b: "W \<noteq> UNIV \<Longrightarrow> mgmt_start_ba ni \<le> wb \<and> limit \<le> mapping_blocks_top_ba ni"
      using less.prems(3) True by simp
    note post = write_info_table_post [OF w less.prems(2) b]
    show ?thesis
    proof (cases r1)
      case (Some p)
      obtain s e where "p = (s, e)" by fastforce
      with Some w less.prems(1) True have "ni' = ni1" "r = Some (s, e)"
        by (simp_all add: write_table_from.simps [of ni wb])
      with post(1) post(2) [of s e] Some \<open>p = (s, e)\<close> True show ?thesis by (auto dest: order_trans)
    next
      case None
      have c1: "confined W ni1" using table_ok_degrade [OF post(1) less.prems(2)] by (simp add: table_ok_def)
      have k1: "mgmt_start_ba ni1 = mgmt_start_ba ni" "mapping_blocks_top_ba ni1 = mapping_blocks_top_ba ni"
        using table_step_keeps [OF table_step_degrade [OF post(1)]] by simp_all
      show ?thesis
      proof (cases "wb = 0")
        case True
        with None w less.prems(1) \<open>low \<le> wb\<close> have "ni' = ni1" "r = None"
          by (simp_all add: write_table_from.simps [of ni 0])
        with post(1) show ?thesis by simp
      next
        case False
        with None w less.prems(1) \<open>low \<le> wb\<close> have "write_table_from ni1 (wb - 1) low limit = (r, ni')"
          by (simp add: write_table_from.simps [of ni wb])
        from less.IH [OF _ this c1] False k1 less.prems(3) post(1) show ?thesis
          by (auto intro: degrade_trans)
      qed
    qed
  qed
qed

section \<open>The table operations meet the contract\<close>

definition settles :: "'d nmbm_instance \<Rightarrow> 'd nmbm_instance \<Rightarrow> bool" where
  "settles ni ni' \<longleftrightarrow> clean ni' \<or> live_count (block_state ni') < live_count (block_state ni)"

lemma settles_after_mark:
  assumes "table_step W ni n" and "table_step W (nmbm_mark_tables_clean n) ni'"
  shows "settles ni ni'"
proof -
  have "live_count (block_state (nmbm_mark_tables_clean n)) \<le> live_count (block_state ni)"
    using table_step_live [OF assms(1)] by (simp add: nmbm_mark_tables_clean_def)
  with assms(2) show ?thesis unfolding settles_def table_step_def by fastforce
qed

lemma settles_trans: "table_step W a b \<Longrightarrow> settles b c \<Longrightarrow> settles a c"
  unfolding settles_def by (auto dest: table_step_live)

lemma degrade_tables:
  assumes "degrade W ni ni'"
  shows "main_table_ba ni' = main_table_ba ni" "backup_table_ba ni' = backup_table_ba ni"
    "mapping_blocks_ba ni' = mapping_blocks_ba ni" "mgmt_start_ba ni' = mgmt_start_ba ni"
    "mapping_blocks_top_ba ni' = mapping_blocks_top_ba ni"
  using assms by (elim degradeE, simp)+

lemma table_ok_move:
  assumes "confined W ni" and "W \<noteq> UNIV \<Longrightarrow> layout ni'"
    and "ni' = ni\<lparr>main_table_ba := main_table_ba ni', backup_table_ba := backup_table_ba ni',
               mapping_blocks_ba := mapping_blocks_ba ni'\<rparr>"
  shows "table_ok W ni ni'"
proof -
  have eq: "ni' = ni\<lparr>main_table_ba := main_table_ba ni', backup_table_ba := backup_table_ba ni',
               mapping_blocks_ba := mapping_blocks_ba ni', protected := protected ni\<rparr>"
    by (subst assms(3)) simp
  show ?thesis
    using table_ok_fields [OF assms(1), where m = "main_table_ba ni'" and b = "backup_table_ba ni'"
      and k = "mapping_blocks_ba ni'" and p = "protected ni", folded eq, OF assms(2)] .
qed

lemma table_ok_protect: "confined W ni \<Longrightarrow> table_ok W ni (ni\<lparr>protected := True\<rparr>)"
  using table_ok_fields [where ni = ni and m = "main_table_ba ni" and b = "backup_table_ba ni"
      and k = "mapping_blocks_ba ni" and p = True and W = W] confined_layout [of W ni]
  by (auto simp: layout_def)

lemma table_okD: "table_ok W ni ni' \<Longrightarrow> confined W ni'" "table_ok W ni ni' \<Longrightarrow> table_step W ni ni'"
  by (simp_all add: table_ok_def)

lemma ok_layout: "table_ok W ni ni' \<Longrightarrow> W \<noteq> UNIV \<Longrightarrow> layout ni'"
  by (auto simp: table_ok_def confined_def)

lemma erase_range_ok:
  assumes "confined W ni" and "W \<noteq> UNIV \<Longrightarrow> mgmt_start_ba ni \<le> ba \<and> limit \<le> mapping_blocks_top_ba ni"
  shows "degrade W ni (nmbm_erase_range ni ba limit)" "table_ok W ni (nmbm_erase_range ni ba limit)"
proof -
  show d: "degrade W ni (nmbm_erase_range ni ba limit)"
    using assms by (intro erase_range_degrade blk_addrs_writes) (rule confined_writes, auto)
  then show "table_ok W ni (nmbm_erase_range ni ba limit)" using assms(1) by (rule table_ok_degrade)
qed

lemma rebuild_info_table_ok:
  assumes "nmbm_rebuild_info_table ni = (r, ni')" and "confined W ni"
  shows "table_ok W ni ni' \<and> (r \<longrightarrow> settles ni ni')"
proof -
  define n0 where "n0 = ni\<lparr>main_table_ba := 0, backup_table_ba := 0, mapping_blocks_ba := mapping_blocks_top_ba ni\<rparr>"
  have t0: "table_ok W ni n0" unfolding n0_def
    using confined_layout [OF assms(2)]
    by (intro table_ok_move [OF assms(2)]) (auto simp: layout_def)
  obtain r1 n1 where w1: "nmbm_write_info_table n0 (mgmt_start_ba n0) (mapping_blocks_top_ba n0) = (r1, n1)"
    by fastforce
  have p1: "degrade W n0 n1" "r1 = Some (s, e) \<Longrightarrow> W \<noteq> UNIV \<Longrightarrow> mgmt_start_ba n0 \<le> s \<and> s < e \<and> e \<le> mapping_blocks_top_ba n0"
    for s e
    using write_info_table_post [OF w1 table_okD(1) [OF t0]] by auto
  have t1: "table_ok W ni n1" using t0 table_ok_degrade [OF p1(1) table_okD(1) [OF t0]] by (rule table_ok_trans)
  note k1 = degrade_tables [OF p1(1)]
  show ?thesis
  proof (cases r1)
    case None
    then have "r = False" "ni' = n1\<lparr>protected := True\<rparr>"
      using assms(1) w1 by (simp_all add: nmbm_rebuild_info_table_def n0_def Let_def)
    moreover have "table_ok W n1 (n1\<lparr>protected := True\<rparr>)"
      by (rule table_ok_protect [OF table_okD(1) [OF t1]])
    ultimately show ?thesis using t1 by (auto intro: table_ok_trans)
  next
    case (Some p)
    obtain s e where p: "p = (s, e)" by fastforce
    define n1' where "n1' = n1\<lparr>main_table_ba := s, mapping_blocks_ba := e\<rparr>"
    define n2 where "n2 = nmbm_mark_tables_clean n1'"
    have "table_ok W n1 n1'"
      unfolding n1'_def using p1(2) [of s e] Some p k1 ok_layout [OF t1]
      by (intro table_ok_move [OF table_okD(1) [OF t1]]) (auto simp: layout_def n0_def)
    then have t1': "table_ok W ni n1'" using t1 by (blast intro: table_ok_trans)
    then have t2: "table_ok W ni n2"
      unfolding n2_def by (blast intro: table_ok_trans table_ok_mark_clean table_okD(1))
    have k2: "main_table_ba n2 = s" "mapping_blocks_ba n2 = e" "backup_table_ba n2 = 0"
        "mgmt_start_ba n2 = mgmt_start_ba ni" "mapping_blocks_top_ba n2 = mapping_blocks_top_ba ni"
      using k1 by (simp_all add: n2_def n1'_def n0_def nmbm_mark_tables_clean_def)
    have settle: "settles ni n" if "table_ok W n2 n" for n
      using settles_after_mark [OF table_okD(2) [OF t1']] that by (simp add: n2_def table_okD(2))
    have s0: "W \<noteq> UNIV \<Longrightarrow> 0 < s"
      using p1(2) [of s e] Some p ok_layout [OF t0] by (fastforce simp: layout_def)
    show ?thesis
    proof (cases "nmbm_try_reserve_blocks n2 e (info_table_spare_blocks n2) 0 (reserve_limit n2)")
      case None
      then have "ni' = n2" using assms(1) w1 Some p
        by (simp add: nmbm_rebuild_info_table_def n0_def Let_def n2_def n1'_def)
      with t2 settle [of n2] show ?thesis by (auto simp: table_okD)
    next
      case (Some nb)
      obtain r2 n3 where w2: "nmbm_write_info_table n2 nb (mapping_blocks_top_ba n2) = (r2, n3)"
        by fastforce
      have nb: "e \<le> nb" using Some by (rule reserve_blocks_ge)
      have b2: "W \<noteq> UNIV \<Longrightarrow> mgmt_start_ba n2 \<le> nb \<and> mapping_blocks_top_ba n2 \<le> mapping_blocks_top_ba n2"
        using nb k2 ok_layout [OF t2] by (auto simp: layout_def)
      have p2: "degrade W n2 n3" "r2 = Some (s', e') \<Longrightarrow> W \<noteq> UNIV \<Longrightarrow> nb \<le> s' \<and> s' < e' \<and> e' \<le> mapping_blocks_top_ba n2"
        for s' e'
        using write_info_table_post [OF w2 table_okD(1) [OF t2] b2] by blast+
      have t3: "table_ok W n2 n3" by (rule table_ok_degrade [OF p2(1) table_okD(1) [OF t2]])
      note k3 = degrade_tables [OF p2(1)]
      have eq: "(r, ni') = (case r2 of None \<Rightarrow> (True, n3) | Some (s', e') \<Rightarrow>
          (True, nmbm_erase_range (n3\<lparr>backup_table_ba := s', mapping_blocks_ba := e'\<rparr>) e s'))"
        using assms(1) w1 \<open>r1 = Some p\<close> p Some w2
        by (auto simp: nmbm_rebuild_info_table_def n0_def Let_def n2_def n1'_def split: option.splits)
      show ?thesis
      proof (cases r2)
        case None
        with eq t2 t3 settle [of n3] show ?thesis by (auto intro: table_ok_trans)
      next
        case (Some q)
        obtain s' e' where q: "q = (s', e')" by fastforce
        define n4 where "n4 = n3\<lparr>backup_table_ba := s', mapping_blocks_ba := e'\<rparr>"
        have t4: "table_ok W n3 n4"
          unfolding n4_def using p2(2) [of s' e'] Some q k3 k2 nb s0 ok_layout [OF t2] ok_layout [OF t3]
          by (intro table_ok_move [OF table_okD(1) [OF t3]]) (auto simp: layout_def)
        have "table_ok W n4 (nmbm_erase_range n4 e s')"
          using table_okD(1) [OF t4] k2 k3 p2(2) [of s' e'] Some q ok_layout [OF t2]
          by (intro erase_range_ok) (auto simp: n4_def layout_def)
        then have "table_ok W n2 (nmbm_erase_range n4 e s')" using t3 t4 by (blast intro: table_ok_trans)
        with eq Some q t2 settle show ?thesis by (auto simp: n4_def intro: table_ok_trans)
      qed
    qed
  qed
qed

lemma write_info_table_ok:
  assumes "nmbm_write_info_table ni ba limit = (r, ni')" and "confined W ni"
    and "W \<noteq> UNIV \<Longrightarrow> mgmt_start_ba ni \<le> ba \<and> limit \<le> mapping_blocks_top_ba ni"
  shows "table_ok W ni ni'"
  by (rule table_ok_degrade [OF write_info_table_post(1) [OF assms] assms(2)])

lemma rescue_single_info_table_ok:
  assumes "nmbm_rescue_single_info_table ni = (r, ni')" and "confined W ni"
    and "W \<noteq> UNIV \<Longrightarrow> main_table_ba ni \<noteq> 0"
  shows "table_ok W ni ni' \<and> (r \<longrightarrow> settles ni ni')"
proof -
  obtain r1 n1 where w1: "nmbm_write_info_table ni (mgmt_start_ba ni) (main_table_ba ni) = (r1, n1)"
    by fastforce
  have b1: "W \<noteq> UNIV \<Longrightarrow> mgmt_start_ba ni \<le> mgmt_start_ba ni \<and> main_table_ba ni \<le> mapping_blocks_top_ba ni"
    using confined_layout [OF assms(2)] assms(3) by (auto simp: layout_def)
  note p1 = write_info_table_post [OF w1 assms(2) b1]
  note t1 = write_info_table_ok [OF w1 assms(2) b1]
  note k1 = degrade_tables [OF p1(1)]
  show ?thesis
  proof (cases r1)
    case (Some p)
    obtain s e where p: "p = (s, e)" by fastforce
    define n2 where "n2 = n1\<lparr>backup_table_ba := main_table_ba ni, main_table_ba := s\<rparr>"
    have "table_ok W n1 n2"
      unfolding n2_def using p1(2) [of s e] Some p k1 assms(3) ok_layout [OF t1]
      by (intro table_ok_move [OF table_okD(1) [OF t1]]) (auto simp: layout_def)
    then have t2: "table_ok W ni n2" using t1 by (blast intro: table_ok_trans)
    then have t3: "table_ok W n2 (nmbm_mark_tables_clean n2)" by (blast intro: table_ok_mark_clean table_okD(1))
    have t4: "table_ok W (nmbm_mark_tables_clean n2)
        (nmbm_erase_range (nmbm_mark_tables_clean n2) e (main_table_ba ni))"
      using table_okD(1) [OF t3] p1(2) [of s e] Some p k1 ok_layout [OF t1]
      by (intro erase_range_ok) (auto simp: n2_def layout_def nmbm_mark_tables_clean_def)
    have "r = True" "ni' = nmbm_erase_range (nmbm_mark_tables_clean n2) e (main_table_ba ni)"
      using assms(1) w1 Some p k1
      by (simp_all add: nmbm_rescue_single_info_table_def Let_def n2_def nmbm_mark_tables_clean_def)
    with t2 t3 t4 settles_after_mark [OF table_okD(2) [OF t2] table_okD(2) [OF t4]]
    show ?thesis by (blast intro: table_ok_trans)
  next
    case None
    note r1 = this
    show ?thesis
    proof (cases "nmbm_try_reserve_blocks n1 (mapping_blocks_ba n1) (info_table_spare_blocks n1) 0 (reserve_limit n1)")
      case None
      with assms(1) w1 r1 t1 show ?thesis by (simp add: nmbm_rescue_single_info_table_def)
    next
      case (Some wb)
      obtain r2 n2 where w2: "write_table_from n1 wb (mapping_blocks_ba n1) (mapping_blocks_top_ba n1) = (r2, n2)"
        by fastforce
      have b2: "W \<noteq> UNIV \<Longrightarrow> mgmt_start_ba n1 \<le> mapping_blocks_ba n1 \<and> mapping_blocks_top_ba n1 \<le> mapping_blocks_top_ba n1"
        using ok_layout [OF t1] by (simp add: layout_def)
      note p2 = write_table_from_post [OF w2 table_okD(1) [OF t1] b2]
      have d2: "degrade W n1 n2" using p2 by blast
      have t2: "table_ok W n1 n2" by (rule table_ok_degrade [OF d2 table_okD(1) [OF t1]])
      note k2 = degrade_tables [OF d2]
      show ?thesis
      proof (cases r2)
        case None
        with assms(1) w1 r1 Some w2 t1 t2 show ?thesis
          by (auto simp: nmbm_rescue_single_info_table_def intro: table_ok_trans)
      next
        case r2: (Some p)
        obtain s e where p: "p = (s, e)" by fastforce
        define n3 where "n3 = nmbm_erase_range n2 (mapping_blocks_ba n2) s"
        have e3: "degrade W n2 n3" "table_ok W n2 n3"
          unfolding n3_def using p2 r2 p k2 ok_layout [OF t2]
          by (intro erase_range_ok table_okD(1) [OF t2]; auto simp: layout_def)+
        note k3 = degrade_tables [OF e3(1)]
        define n4 where "n4 = n3\<lparr>backup_table_ba := s, mapping_blocks_ba := e\<rparr>"
        have t4: "table_ok W n3 n4"
          unfolding n4_def using p2 r2 p k1 k2 k3 assms(3) ok_layout [OF e3(2)]
          by (intro table_ok_move [OF table_okD(1) [OF e3(2)]]) (auto simp: layout_def)
        have "table_ok W ni n4" using t1 t2 e3(2) t4 by (blast intro: table_ok_trans)
        moreover from this have "table_ok W n4 (nmbm_mark_tables_clean n4)"
          by (blast intro: table_ok_mark_clean table_okD(1))
        moreover have "ni' = nmbm_mark_tables_clean n4"
          using assms(1) w1 r1 Some w2 r2 p
          by (simp add: nmbm_rescue_single_info_table_def Let_def n3_def n4_def)
        ultimately show ?thesis by (auto simp: settles_def intro: table_ok_trans)
      qed
    qed
  qed
qed

lemma update_single_info_table_ok:
  assumes "nmbm_update_single_info_table ni m = (r, ni')" and "confined W ni"
    and "W \<noteq> UNIV \<Longrightarrow> main_table_ba ni \<noteq> 0 \<and> backup_table_ba ni \<noteq> 0"
  shows "table_ok W ni ni' \<and> (r \<longrightarrow> settles ni ni')"
proof -
  define st lim where "st = (if m then main_table_ba ni else backup_table_ba ni)"
    and "lim = (if m then backup_table_ba ni else mapping_blocks_top_ba ni)"
  obtain r1 n1 where w1: "nmbm_write_info_table ni st lim = (r1, n1)" by fastforce
  have b1: "W \<noteq> UNIV \<Longrightarrow> mgmt_start_ba ni \<le> st \<and> lim \<le> mapping_blocks_top_ba ni"
    using assms(3) confined_layout [OF assms(2)] by (auto simp: layout_def st_def lim_def)
  note p1 = write_info_table_post [OF w1 assms(2) b1]
  note t1 = write_info_table_ok [OF w1 assms(2) b1]
  note k1 = degrade_tables [OF p1(1)]
  note eq = assms(1) [unfolded nmbm_update_single_info_table_def]
  consider s e where "r1 = Some (s, e)" "m" | s e where "r1 = Some (s, e)" "\<not> m"
    | "r1 = None" "m" | "r1 = None" "\<not> m"
    by (cases r1; cases m) auto
  then show ?thesis
  proof cases
    case (1 s e)
    let ?n = "n1\<lparr>main_table_ba := s\<rparr>"
    have "table_ok W n1 ?n"
      using p1(2) [of s e] 1 k1 assms(3) ok_layout [OF t1]
      by (intro table_ok_move [OF table_okD(1) [OF t1]]) (auto simp: layout_def st_def lim_def)
    then have "table_ok W ni (nmbm_mark_tables_clean ?n)"
      using t1 by (blast intro: table_ok_trans table_ok_mark_clean table_okD(1))
    with eq w1 1 show ?thesis by (auto simp: st_def lim_def settles_def)
  next
    case (2 s e)
    let ?n = "n1\<lparr>backup_table_ba := s, mapping_blocks_ba := e\<rparr>"
    have "table_ok W n1 ?n"
      using p1(2) [of s e] 2 k1 assms(3) ok_layout [OF t1]
      by (intro table_ok_move [OF table_okD(1) [OF t1]]) (auto simp: layout_def st_def lim_def)
    then have "table_ok W ni (nmbm_mark_tables_clean ?n)"
      using t1 by (blast intro: table_ok_trans table_ok_mark_clean table_okD(1))
    with eq w1 2 show ?thesis by (auto simp: st_def lim_def settles_def)
  next
    case 3
    let ?n = "n1\<lparr>main_table_ba := backup_table_ba n1, backup_table_ba := 0\<rparr>"
    have t2: "table_ok W n1 ?n"
      using k1 assms(3) ok_layout [OF t1]
      by (intro table_ok_move [OF table_okD(1) [OF t1]]) (auto simp: layout_def)
    have "nmbm_rescue_single_info_table ?n = (r, ni')" using eq w1 3 by (simp add: st_def lim_def)
    from rescue_single_info_table_ok [OF this table_okD(1) [OF t2]] k1 assms(3)
    have "table_ok W ?n ni' \<and> (r \<longrightarrow> settles ?n ni')" by simp
    then show ?thesis
      using t1 t2 by (meson settles_trans table_okD(2) table_ok_trans)
  next
    case 4
    let ?n = "n1\<lparr>mapping_blocks_ba := backup_table_ba n1, backup_table_ba := 0\<rparr>"
    have "table_ok W n1 ?n"
      using k1 assms(3) ok_layout [OF t1] by (intro table_ok_move [OF table_okD(1) [OF t1]]) (auto simp: layout_def)
    with eq w1 4 t1 show ?thesis by (auto simp: st_def lim_def intro: table_ok_trans)
  qed
qed

text \<open>
  The rewriting of the backup in \<^verbatim>\<open>nmbm_rescue_main_info_table\<close> is reached only when the new main
  table ends above the start of the temporary one. Its write was limited to end there, so within the
  layout that never happens; outside of it the weaker contract is enough.
\<close>

lemma rescue_rewrite_backup_ok:
  assumes "rescue_rewrite_backup ni e = (r, ni')"
  shows "table_ok UNIV ni ni'"
proof -
  define n0 where "n0 = ni\<lparr>mapping_blocks_ba := e\<rparr>"
  have t0: "table_ok UNIV ni n0" unfolding n0_def by (rule table_ok_move) simp_all
  have drop: "table_ok UNIV n (n\<lparr>backup_table_ba := 0\<rparr>)" for n :: "'a nmbm_instance"
    by (rule table_ok_move) simp_all
  obtain r1 n1 wb where c: "nmbm_try_reserve_blocks n0 e (info_table_spare_blocks n0) 0 (reserve_limit n0) = wb"
    "write_table_from n0 (the wb) e (mapping_blocks_top_ba n0) = (r1, n1)" by fastforce
  from c(2) have "degrade UNIV n0 n1" by (rule write_table_from_post [THEN conjunct1]) simp_all
  then have t1: "table_ok UNIV n0 n1" by (rule table_ok_degrade) simp
  have t2: "table_ok UNIV n1 (n1\<lparr>backup_table_ba := s, mapping_blocks_ba := k\<rparr>)" for s k
    by (rule table_ok_move) simp_all
  have t3: "table_ok UNIV n (nmbm_erase_range n a b)" for n :: "'a nmbm_instance" and a b
    by (rule erase_range_ok(2)) simp_all
  consider "wb = None" | w where "wb = Some w" "r1 = None" | w s k where "wb = Some w" "r1 = Some (s, k)"
    by (cases wb; cases r1) auto
  then show ?thesis
  proof cases
    case 1
    with assms c have "ni' = n0\<lparr>backup_table_ba := 0\<rparr>" by (simp add: rescue_rewrite_backup_def n0_def Let_def)
    then show ?thesis using t0 drop by (blast intro: table_ok_trans)
  next
    case 2
    with assms c have "ni' = n1\<lparr>backup_table_ba := 0\<rparr>" by (simp add: rescue_rewrite_backup_def n0_def Let_def)
    then show ?thesis using t0 t1 drop by (blast intro: table_ok_trans)
  next
    case (3 w s k)
    with assms c have "ni' = nmbm_erase_range (n1\<lparr>backup_table_ba := s, mapping_blocks_ba := k\<rparr>) e s"
      by (simp add: rescue_rewrite_backup_def n0_def Let_def)
    then show ?thesis using t0 t1 t2 t3 by (blast intro: table_ok_trans)
  qed
qed

text \<open>The states in which the rescue of the main table gives up and keeps one table only.\<close>

lemma backup_becomes_main:
  assumes "confined W ni" and "W \<noteq> UNIV \<Longrightarrow> backup_table_ba ni \<noteq> 0"
  shows "table_ok W ni (ni\<lparr>main_table_ba := backup_table_ba ni, backup_table_ba := 0\<rparr>)"
  using assms(2) confined_layout [OF assms(1)]
  by (intro table_ok_move [OF assms(1)]) (auto simp: layout_def)

lemma rescue_main_info_table_ok:
  assumes "nmbm_rescue_main_info_table ni = (r, ni')" and "confined W ni"
    and "W \<noteq> UNIV \<Longrightarrow> backup_table_ba ni \<noteq> 0"
  shows "table_ok W ni ni'"
proof -
  obtain wb where c: "nmbm_try_reserve_blocks ni (mapping_blocks_ba ni) (info_table_spare_blocks ni) 0
      (reserve_limit ni) = wb" by fastforce
  obtain r1 n1 where w1: "write_table_from ni (the wb) (mapping_blocks_ba ni) (mapping_blocks_top_ba ni) = (r1, n1)"
    by fastforce
  have b1: "W \<noteq> UNIV \<Longrightarrow> mgmt_start_ba ni \<le> mapping_blocks_ba ni \<and> mapping_blocks_top_ba ni \<le> mapping_blocks_top_ba ni"
    using confined_layout [OF assms(2)] by (simp add: layout_def)
  note p1 = write_table_from_post [OF w1 assms(2) b1]
  have d1: "degrade W ni n1" using p1 by blast
  have t1: "table_ok W ni n1" by (rule table_ok_degrade [OF d1 assms(2)])
  note k1 = degrade_tables [OF d1]
  consider "wb = None" | w where "wb = Some w" "r1 = None" | w s e where "wb = Some w" "r1 = Some (s, e)"
    by (cases wb; cases r1) auto
  then show ?thesis
  proof cases
    case 1
    with assms(1) c have "ni' = ni\<lparr>main_table_ba := backup_table_ba ni, backup_table_ba := 0\<rparr>"
      by (simp add: nmbm_rescue_main_info_table_def)
    then show ?thesis using backup_becomes_main [OF assms(2,3)] by simp
  next
    case 2
    with assms(1) c w1 have "ni' = n1\<lparr>main_table_ba := backup_table_ba n1, backup_table_ba := 0\<rparr>"
      by (simp add: nmbm_rescue_main_info_table_def)
    with k1 assms(3) backup_becomes_main [OF table_okD(1) [OF t1]] t1 show ?thesis
      by (auto intro: table_ok_trans)
  next
    case (3 w s e)
    define n2 where "n2 = n1\<lparr>mapping_blocks_ba := e\<rparr>"
    have se: "W \<noteq> UNIV \<Longrightarrow> mgmt_start_ba ni \<le> s \<and> mapping_blocks_ba ni \<le> s \<and> s < e
        \<and> e \<le> mapping_blocks_top_ba ni"
    proof -
      assume "W \<noteq> UNIV"
      with p1 3 have "mapping_blocks_ba ni \<le> s \<and> s < e \<and> e \<le> mapping_blocks_top_ba ni" by blast
      with b1 [OF \<open>W \<noteq> UNIV\<close>] show ?thesis by simp
    qed
    have t2: "table_ok W n1 n2"
      unfolding n2_def using se k1 ok_layout [OF t1]
      by (intro table_ok_move [OF table_okD(1) [OF t1]]) (auto simp: layout_def)
    obtain r2 n3 where w2: "nmbm_write_info_table n2 (mgmt_start_ba n2) s = (r2, n3)" by fastforce
    have k2: "main_table_ba n2 = main_table_ba ni" "backup_table_ba n2 = backup_table_ba ni"
      "mapping_blocks_ba n2 = e" "mapping_blocks_top_ba n2 = mapping_blocks_top_ba ni"
      "mgmt_start_ba n2 = mgmt_start_ba ni"
      using k1 by (simp_all add: n2_def)
    have b2: "W \<noteq> UNIV \<Longrightarrow> mgmt_start_ba n2 \<le> mgmt_start_ba n2 \<and> s \<le> mapping_blocks_top_ba n2"
      using se k2 by auto
    note p2 = write_info_table_post [OF w2 table_okD(1) [OF t2] b2]
    note t3 = write_info_table_ok [OF w2 table_okD(1) [OF t2] b2]
    note k3 = degrade_tables [OF p2(1)]
    show ?thesis
    proof (cases r2)
      case None
      let ?n = "n3\<lparr>main_table_ba := s, backup_table_ba := 0\<rparr>"
      have "table_ok W n3 ?n"
        using se k3 k2 ok_layout [OF t3] by (intro table_ok_move [OF table_okD(1) [OF t3]]) (auto simp: layout_def)
      moreover from this have "table_ok W ?n (nmbm_mark_tables_clean ?n)"
        by (intro table_ok_mark_clean table_okD(1))
      moreover have "ni' = nmbm_mark_tables_clean ?n"
        using assms(1) c w1 3 w2 None by (simp add: nmbm_rescue_main_info_table_def n2_def Let_def)
      ultimately show ?thesis using t1 t2 t3 by (blast intro: table_ok_trans)
    next
      case (Some q)
      obtain ms me where q: "q = (ms, me)" by fastforce
      have mse: "W \<noteq> UNIV \<Longrightarrow> mgmt_start_ba ni \<le> ms \<and> ms < me \<and> me \<le> s"
        using p2(2) [of ms me] Some q k2 by auto
      let ?n = "nmbm_mark_tables_clean (n3\<lparr>main_table_ba := ms\<rparr>)"
      have res: "(r, ni') = (if me \<le> s then (True, ?n\<lparr>backup_table_ba := s\<rparr>) else rescue_rewrite_backup ?n me)"
        using assms(1) c w1 3 w2 Some q by (simp add: nmbm_rescue_main_info_table_def n2_def Let_def)
      show ?thesis
      proof (cases "me \<le> s")
        case True
        let ?m = "n3\<lparr>main_table_ba := ms, backup_table_ba := s\<rparr>"
        have "table_ok W n3 ?m"
          using se mse k3 k2 ok_layout [OF t3]
          by (intro table_ok_move [OF table_okD(1) [OF t3]]) (auto simp: layout_def)
        moreover from this have "table_ok W ?m (nmbm_mark_tables_clean ?m)"
          by (intro table_ok_mark_clean table_okD(1))
        moreover have "ni' = nmbm_mark_tables_clean ?m"
          using res True by (simp add: nmbm_mark_tables_clean_def)
        ultimately show ?thesis using t1 t2 t3 by (blast intro: table_ok_trans)
      next
        case False
        then have W: "W = UNIV" using mse by blast
        have "table_ok UNIV n3 (n3\<lparr>main_table_ba := ms\<rparr>)" by (rule table_ok_move) simp_all
        moreover have "table_ok UNIV (n3\<lparr>main_table_ba := ms\<rparr>) ?n" by (rule table_ok_mark_clean) simp
        moreover have "table_ok UNIV ?n ni'"
          using res False by (intro rescue_rewrite_backup_ok [where r = r]) auto
        ultimately show ?thesis using t1 t2 t3 unfolding W by (blast intro: table_ok_trans)
      qed
    qed
  qed
qed

lemma write_main_table_ok:
  assumes "write_main_table ni limit = (r, ni')" and "confined W ni"
    and "W \<noteq> UNIV \<Longrightarrow> limit = (if backup_table_ba ni = 0 then mapping_blocks_top_ba ni else backup_table_ba ni)"
  shows "table_ok W ni ni' \<and> (r \<and> backup_table_ba ni = 0 \<longrightarrow> settles ni ni')"
proof (cases "main_table_ba ni = 0")
  case True
  with assms(1) rebuild_info_table_ok [OF _ assms(2)] show ?thesis by (simp add: write_main_table_def)
next
  case False
  obtain r1 n1 where w1: "nmbm_write_info_table ni (main_table_ba ni) limit = (r1, n1)" by fastforce
  have b1: "W \<noteq> UNIV \<Longrightarrow> mgmt_start_ba ni \<le> main_table_ba ni \<and> limit \<le> mapping_blocks_top_ba ni"
    using confined_layout [OF assms(2)] False assms(3) by (auto simp: layout_def)
  note p1 = write_info_table_post [OF w1 assms(2) b1]
  note t1 = write_info_table_ok [OF w1 assms(2) b1]
  note k1 = degrade_tables [OF p1(1)]
  note eq = assms(1) [unfolded write_main_table_def]
  consider "r1 = None" "backup_table_ba ni = 0" | "r1 = None" "backup_table_ba ni \<noteq> 0"
    | s e where "r1 = Some (s, e)" by (cases r1) auto
  then show ?thesis
  proof cases
    case 1
    with eq w1 False k1 have "nmbm_rebuild_info_table n1 = (r, ni')" by simp
    from rebuild_info_table_ok [OF this table_okD(1) [OF t1]] t1 show ?thesis
      by (meson settles_trans table_okD(2) table_ok_trans)
  next
    case 2
    with eq w1 False k1 have "nmbm_rescue_main_info_table n1 = (r, ni')" by simp
    with 2 k1 have "table_ok W n1 ni'"
      by (intro rescue_main_info_table_ok [OF _ table_okD(1) [OF t1]]) simp_all
    with t1 2 show ?thesis by (auto intro: table_ok_trans)
  next
    case (3 s e)
    define n2 where "n2 = (if backup_table_ba n1 = 0
      then n1\<lparr>main_table_ba := s, mapping_blocks_ba := e\<rparr> else n1\<lparr>main_table_ba := s\<rparr>)"
    have "table_ok W n1 n2"
      unfolding n2_def using p1(2) [of s e] 3 k1 b1 assms(3) ok_layout [OF t1]
      by (intro table_ok_move [OF table_okD(1) [OF t1]]) (auto simp: layout_def)
    then have "table_ok W ni (nmbm_mark_tables_clean n2)"
      using t1 by (blast intro: table_ok_trans table_ok_mark_clean table_okD(1))
    moreover have "ni' = nmbm_mark_tables_clean n2"
      using eq w1 False 3 by (auto simp: n2_def Let_def split: if_splits)
    ultimately show ?thesis by (simp add: settles_def)
  qed
qed

lemma update_info_table_once_ok:
  assumes "nmbm_update_info_table_once crc ni f = (r, ni')" and "confined W ni"
  shows "table_ok W ni ni' \<and> (r \<and> \<not> clean ni \<longrightarrow> settles ni ni')"
proof -
  obtain c n0 where g: "nmbm_generate_info_table_cache crc ni = (c, n0)" by fastforce
  have t0: "table_ok W ni n0" using g assms(2) by (rule table_ok_generate)
  have c: "c \<longleftrightarrow> \<not> clean ni" using g by (rule generate_changed)
  note eq = assms(1) [unfolded nmbm_update_info_table_once_def]
  obtain r1 n1 where w1: "nmbm_write_info_table n0 (backup_table_ba n0) (mapping_blocks_top_ba n0) = (r1, n1)"
    by fastforce
  consider "\<not> c" "\<not> f" | "c \<or> f" "backup_table_ba n0 = 0" | "c \<or> f" "backup_table_ba n0 \<noteq> 0" "r1 = None"
    | s e where "c \<or> f" "backup_table_ba n0 \<noteq> 0" "r1 = Some (s, e)"
    by (cases r1) auto
  then show ?thesis
  proof cases
    case 1
    with eq g c t0 show ?thesis by auto
  next
    case 2
    with eq g have "write_main_table n0 (mapping_blocks_top_ba n0) = (r, ni')" by auto
    from write_main_table_ok [OF this table_okD(1) [OF t0]] 2 t0 show ?thesis
      by (auto intro: settles_trans table_okD(2) table_ok_trans)
  next
    case 3
    have b1: "W \<noteq> UNIV \<Longrightarrow> mgmt_start_ba n0 \<le> backup_table_ba n0 \<and> mapping_blocks_top_ba n0 \<le> mapping_blocks_top_ba n0"
      using ok_layout [OF t0] 3 by (auto simp: layout_def)
    note t1 = write_info_table_ok [OF w1 table_okD(1) [OF t0] b1]
    note k1 = degrade_tables [OF write_info_table_post(1) [OF w1 table_okD(1) [OF t0] b1]]
    let ?n = "n1\<lparr>mapping_blocks_ba := backup_table_ba n1, backup_table_ba := 0\<rparr>"
    have t2: "table_ok W n1 ?n"
      using k1 3 ok_layout [OF t1] by (intro table_ok_move [OF table_okD(1) [OF t1]]) (auto simp: layout_def)
    have "write_main_table ?n (mapping_blocks_top_ba n1) = (r, ni')" using eq g 3 w1 by auto
    from write_main_table_ok [OF this table_okD(1) [OF t2]]
    have "table_ok W ?n ni' \<and> (r \<longrightarrow> settles ?n ni')" by simp
    then show ?thesis using t0 t1 t2 by (meson settles_trans table_okD(2) table_ok_trans)
  next
    case (4 s e)
    have b1: "W \<noteq> UNIV \<Longrightarrow> mgmt_start_ba n0 \<le> backup_table_ba n0 \<and> mapping_blocks_top_ba n0 \<le> mapping_blocks_top_ba n0"
      using ok_layout [OF t0] 4 by (auto simp: layout_def)
    note p1 = write_info_table_post [OF w1 table_okD(1) [OF t0] b1]
    note t1 = write_info_table_ok [OF w1 table_okD(1) [OF t0] b1]
    note k1 = degrade_tables [OF p1(1)]
    define n2 where "n2 = n1\<lparr>backup_table_ba := s, mapping_blocks_ba := e\<rparr>"
    have "table_ok W n1 n2"
      unfolding n2_def using p1(2) [of s e] k1 4 ok_layout [OF t1]
      by (intro table_ok_move [OF table_okD(1) [OF t1]]) (auto simp: layout_def)
    then have t2: "table_ok W ni n2" using t0 t1 by (blast intro: table_ok_trans)
    then have t3: "table_ok W n2 (nmbm_mark_tables_clean n2)"
      by (blast intro: table_ok_mark_clean table_okD(1))
    have w: "write_main_table (nmbm_mark_tables_clean n2) s = (r, ni')"
      using eq g 4 w1 by (auto simp: n2_def Let_def nmbm_mark_tables_clean_def)
    have "s \<noteq> 0" if "W \<noteq> UNIV" using p1(2) [of s e] 4 that by auto
    then have "table_ok W (nmbm_mark_tables_clean n2) ni'"
      by (intro write_main_table_ok [OF w table_okD(1) [OF t3], THEN conjunct1])
        (simp add: n2_def nmbm_mark_tables_clean_def)
    then show ?thesis
      using t2 t3 settles_after_mark [OF table_okD(2) [OF t2]] by (blast intro: table_ok_trans table_okD(2))
  qed
qed

section \<open>The update loop\<close>

text \<open>
  \<^verbatim>\<open>nmbm_update_info_table\<close> repeats the update until nothing has changed. Every pass that
  succeeds and leaves a change behind has turned a block bad, so the loop ends.
\<close>

function update_info_table_loop :: "crc_fn \<Rightarrow> 'd nmbm_instance \<Rightarrow> bool \<times> 'd nmbm_instance" where
  "update_info_table_loop crc ni =
     (if block_state_changed ni \<noteq> 0 \<or> block_mapping_changed ni \<noteq> 0 then
        (case nmbm_update_info_table_once crc ni False of
           (False, ni) \<Rightarrow> (False, ni)
         | (True, ni) \<Rightarrow> update_info_table_loop crc ni)
      else (True, ni))"
  by pat_completeness auto
termination
proof (relation "measures [\<lambda>(crc, ni). live_count (block_state ni), \<lambda>(crc, ni). if clean ni then 0 else 1]")
  fix crc :: crc_fn and ni ni' :: "'d nmbm_instance" and r
  assume "block_state_changed ni \<noteq> 0 \<or> block_mapping_changed ni \<noteq> 0"
    and u: "(r, ni') = nmbm_update_info_table_once crc ni False" and r: "r = True"
  then have c: "\<not> clean ni" by (auto simp: clean_def)
  from update_info_table_once_ok [OF u [symmetric], of UNIV] c r
  have "table_step UNIV ni ni'" "settles ni ni'" by (simp_all add: table_okD(2))
  with c show "((crc, ni'), crc, ni) \<in> measures [\<lambda>(crc, ni). live_count (block_state ni),
      \<lambda>(crc, ni). if clean ni then 0 else 1]"
    using table_step_live [of UNIV ni ni'] by (auto simp: settles_def le_less)
qed simp

definition nmbm_update_info_table :: "crc_fn \<Rightarrow> 'd nmbm_instance \<Rightarrow> bool \<times> 'd nmbm_instance" where
  "nmbm_update_info_table crc ni =
     (if protected ni then (True, ni) else update_info_table_loop crc ni)"

declare update_info_table_loop.simps [simp del]

lemma update_info_table_loop_ok:
  "update_info_table_loop crc ni = (r, ni') \<Longrightarrow> confined W ni \<Longrightarrow> table_ok W ni ni' \<and> (r \<longrightarrow> clean ni')"
proof (induction crc ni rule: update_info_table_loop.induct)
  case (1 crc ni)
  obtain r1 n1 where u: "nmbm_update_info_table_once crc ni False = (r1, n1)" by fastforce
  have t1: "table_ok W ni n1" using update_info_table_once_ok [OF u "1.prems"(2)] by blast
  show ?case
  proof (cases "clean ni")
    case True
    with "1.prems" show ?thesis
      by (auto simp: update_info_table_loop.simps [of crc ni] clean_def)
  next
    case False
    then have c: "block_state_changed ni \<noteq> 0 \<or> block_mapping_changed ni \<noteq> 0" by (simp add: clean_def)
    show ?thesis
    proof (cases r1)
      case True
      with u c "1.prems"(1) have "update_info_table_loop crc n1 = (r, ni')"
        by (simp add: update_info_table_loop.simps [of crc ni])
      with "1.IH" [OF c u [symmetric]] True t1 show ?thesis
        by (blast intro: table_ok_trans table_okD(1))
    next
      case False
      with u c "1.prems"(1) t1 show ?thesis
        by (simp add: update_info_table_loop.simps [of crc ni])
    qed
  qed
qed

lemma update_info_table_ok:
  assumes "nmbm_update_info_table crc ni = (r, ni')" and "confined W ni"
  shows "table_ok W ni ni' \<and> (r \<longrightarrow> protected ni \<or> clean ni')"
  using assms update_info_table_loop_ok [of crc ni r ni' W]
  by (auto simp: nmbm_update_info_table_def split: if_splits)

end
