(* ===== verification/Nmbm_Map.thy ===== *)
theory Nmbm_Map
  imports Nmbm_Tables
begin

text \<open>
  Mapping a logic block to a spare block and creating NMBM on a fresh chip: \<^verbatim>\<open>nmbm-core.c\<close>,
  lines 1587 to 1726. \<open>inst_step W\<close> is the contract that all operations of the instance share: the
  device evolves by \<open>dev_reach W\<close> and the geometry stays. The spare block that
  \<^verbatim>\<open>nmbm_map_block\<close> picks is characterised, and the layout is shown to survive the mapping.
\<close>

unbundle bit_operations_syntax

section \<open>Definitions\<close>

definition nmbm_map_block :: "crc_fn \<Rightarrow> 'd nmbm_instance \<Rightarrow> nat \<Rightarrow> bool \<times> 'd nmbm_instance" where
  "nmbm_map_block crc ni lb =
     (if mapping_blocks_ba ni = mapping_blocks_top_ba ni then (False, ni)
      else
        case nmbm_block_walk ni False (mapping_blocks_top_ba ni) 0 (s32 (mapping_blocks_ba ni)) of
          None \<Rightarrow>
            (let (_, ni) = nmbm_update_info_table crc ni
             in (False, ni\<lparr>mapping_blocks_top_ba := mapping_blocks_ba ni\<rparr>))
        | Some pb \<Rightarrow>
            (True, ni\<lparr>block_mapping := (block_mapping ni)[lb := s32 pb],
                      mapping_blocks_top_ba := sub32 (mapping_blocks_top_ba ni) 1,
                      block_mapping_changed := u32 (block_mapping_changed ni + 1)\<rparr>))"

text \<open>\<^verbatim>\<open>for (lb = ni->data_block_count; lb < ni->mgmt_start_ba; lb++)\<close>: the first failure ends it.\<close>

fun remap_tail_blocks :: "crc_fn \<Rightarrow> nat list \<Rightarrow> 'd nmbm_instance \<Rightarrow> 'd nmbm_instance" where
  "remap_tail_blocks crc [] ni = ni"
| "remap_tail_blocks crc (lb # lbs) ni =
     (case nmbm_map_block crc ni lb of
        (False, ni) \<Rightarrow> ni
      | (True, ni) \<Rightarrow>
          remap_tail_blocks crc lbs (ni\<lparr>data_block_count := u32 (data_block_count ni + 1)\<rparr>))"

definition nmbm_create_info_table :: "crc_fn \<Rightarrow> 'd nmbm_instance \<Rightarrow> bool \<times> 'd nmbm_instance" where
  "nmbm_create_info_table crc ni =
     (case nmbm_block_walk ni False (signature_ba ni) 1 (s32 (mgmt_start_ba ni)) of
        None \<Rightarrow> (False, ni)
      | Some top_ba \<Rightarrow>
          let ni = ni\<lparr>mapping_blocks_top_ba := top_ba\<rparr>;
              (_, ni) = nmbm_generate_info_table_cache crc ni;
              (success, ni) = nmbm_rebuild_info_table ni
          in if \<not> success then (False, ni)
             else
               let ni = remap_tail_blocks crc [data_block_count ni..<mgmt_start_ba ni] ni
               in nmbm_update_info_table crc ni)"

definition first_mgmt_block :: "'d nmbm_instance \<Rightarrow> nat" where
  "first_mgmt_block ni =
     (let start = u32 (block_count ni * sub32 NMBM_MGMT_DIV (max_ratio (lower ni))) div NMBM_MGMT_DIV
      in if max_reserved_blocks (lower ni) \<noteq> 0
            \<and> sub32 (block_count ni) start > max_reserved_blocks (lower ni)
         then sub32 (block_count ni) (max_reserved_blocks (lower ni)) else start)"

definition new_signature :: "crc_fn \<Rightarrow> 'd nmbm_instance \<Rightarrow> nmbm_signature" where
  "new_signature crc ni =
     (let sig = (signature ni)\<lparr>sig_header := (sig_header (signature ni))\<lparr>magic := NMBM_MAGIC_SIGNATURE,
                                              version := NMBM_VER, hdr_size := sizeof_signature\<rparr>,
                               nand_size := nld_size (lower ni), block_size := erasesize (lower ni),
                               page_size := writesize (lower ni), spare_size := oobsize (lower ni),
                               mgmt_start_pb := mgmt_start_ba ni,
                               max_try_count := word_of_nat NMBM_TRY_COUNT\<rparr>
      in signature_of_bytes (nmbm_update_checksum crc (signature_bytes sig)))"

definition nmbm_create_new :: "crc_fn \<Rightarrow> 'd nmbm_instance \<Rightarrow> bool \<times> 'd nmbm_instance" where
  "nmbm_create_new crc ni =
     (let ni = ni\<lparr>mgmt_start_ba := first_mgmt_block ni\<rparr>;
          ni = nmbm_scan_badblocks ni;
          ni = nmbm_build_mapping_table ni;
          ni = ni\<lparr>signature := new_signature crc ni\<rparr>
      in
      if read_only ni then (True, ni)
      else
        case nmbm_write_signature ni (mgmt_start_ba ni) (signature_bytes (signature ni)) of
          (None, ni) \<Rightarrow> (False, ni)
        | (Some ba, ni) \<Rightarrow> nmbm_create_info_table crc (ni\<lparr>signature_ba := ba\<rparr>))"

section \<open>The contract of the instance operations\<close>

definition inst_step :: "nat set \<Rightarrow> 'd nmbm_instance \<Rightarrow> 'd nmbm_instance \<Rightarrow> bool" where
  "inst_step W ni ni' \<longleftrightarrow>
     (\<exists>d. lower ni' = (lower ni)\<lparr>arg := d\<rparr> \<and> dev_reach W (lower ni) (arg (lower ni)) d)
     \<and> erasesize_shift ni' = erasesize_shift ni \<and> writesize_mask ni' = writesize_mask ni
     \<and> block_count ni' = block_count ni"

lemma inst_stepE:
  assumes "inst_step W ni ni'"
  obtains d where "lower ni' = (lower ni)\<lparr>arg := d\<rparr>" and "dev_reach W (lower ni) (arg (lower ni)) d"
    and "erasesize_shift ni' = erasesize_shift ni" and "writesize_mask ni' = writesize_mask ni"
    and "block_count ni' = block_count ni"
  using assms unfolding inst_step_def by blast

lemma inst_stepI:
  "lower ni' = (lower ni)\<lparr>arg := d\<rparr> \<Longrightarrow> dev_reach W (lower ni) (arg (lower ni)) d \<Longrightarrow>
   erasesize_shift ni' = erasesize_shift ni \<Longrightarrow> writesize_mask ni' = writesize_mask ni \<Longrightarrow>
   block_count ni' = block_count ni \<Longrightarrow> inst_step W ni ni'"
  unfolding inst_step_def by blast

lemma inst_same:
  "lower ni' = lower ni \<Longrightarrow> erasesize_shift ni' = erasesize_shift ni \<Longrightarrow>
   writesize_mask ni' = writesize_mask ni \<Longrightarrow> block_count ni' = block_count ni \<Longrightarrow> inst_step W ni ni'"
  by (rule inst_stepI [where d = "arg (lower ni)"]) (simp_all add: dev_reach.dev_stay)

lemma inst_refl [simp, intro]: "inst_step W ni ni"
  by (rule inst_same) simp_all

lemma inst_trans [trans]: "inst_step W a b \<Longrightarrow> inst_step W b c \<Longrightarrow> inst_step W a c"
proof (elim inst_stepE)
  fix d e
  assume "lower b = (lower a)\<lparr>arg := d\<rparr>" "dev_reach W (lower a) (arg (lower a)) d"
    "lower c = (lower b)\<lparr>arg := e\<rparr>" "dev_reach W (lower b) (arg (lower b)) e"
    and geo: "erasesize_shift b = erasesize_shift a" "writesize_mask b = writesize_mask a"
    "block_count b = block_count a" "erasesize_shift c = erasesize_shift b"
    "writesize_mask c = writesize_mask b" "block_count c = block_count b"
  then have "lower c = (lower a)\<lparr>arg := e\<rparr>" "dev_reach W (lower a) (arg (lower a)) e"
    by (auto intro: dev_reach_trans)
  with geo show ?thesis by (intro inst_stepI [where d = e]) simp_all
qed

lemma inst_mono: "inst_step W a b \<Longrightarrow> W \<subseteq> W' \<Longrightarrow> inst_step W' a b"
  unfolding inst_step_def by (auto intro: dev_reach_mono)

lemma inst_degrade: "degrade W ni ni' \<Longrightarrow> inst_step W ni ni'"
  by (elim degradeE) (auto simp: inst_step_def)

lemma inst_phys: "phys_step W ni ni' \<Longrightarrow> inst_step W ni ni'"
  by (rule inst_degrade) (rule degrade_phys)

lemma inst_table: "table_step W ni ni' \<Longrightarrow> inst_step W ni ni'"
  by (elim table_stepE) (auto simp: inst_step_def)

lemma inst_blk_writes: "inst_step W ni ni' \<Longrightarrow> blk_writes ni' b = blk_writes ni b"
  by (elim inst_stepE) (simp add: blk_writes_def blk_addrs_def ba2addr_def)

lemma inst_blk_addrs: "inst_step W ni ni' \<Longrightarrow> blk_addrs ni' b = blk_addrs ni b"
  by (elim inst_stepE) (simp add: blk_addrs_def ba2addr_def)

lemma inst_read_only: "inst_step W ni ni' \<Longrightarrow> read_only ni' = read_only ni"
  by (auto simp: inst_step_def)

text \<open>On a read-only device no address is ever written.\<close>

lemma dev_reach_read_only:
  "dev_reach W nld d e \<Longrightarrow> lower_flag nld NMBM_F_READ_ONLY \<Longrightarrow> dev_reach {} nld d e"
  by (induction rule: dev_reach.induct) (auto intro: dev_reach.intros)

lemma inst_step_read_only: "inst_step W ni ni' \<Longrightarrow> read_only ni \<Longrightarrow> inst_step {} ni ni'"
  unfolding inst_step_def by (auto intro: dev_reach_read_only)

text \<open>All addresses are 64-bit numbers, so the management area is a proper subset of them.\<close>

lemma sub64_and_le: "sub64 x (x AND m) \<le> x"
proof -
  have "int (x AND m) \<le> int x" by (simp add: of_nat_and_eq)
  then show ?thesis by (simp add: sub64_def)
qed

lemma blk_addrs_bound: "x \<in> blk_addrs ni b \<Longrightarrow> x < 2 ^ 64"
  by (auto simp: blk_addrs_def u64_def)

lemma blk_writes_bound: "blk_writes ni b \<subseteq> {..<2 ^ 64}"
proof
  fix x assume "x \<in> blk_writes ni b"
  then obtain y where "y \<in> blk_addrs ni b" "x \<le> y"
    unfolding blk_writes_def using sub64_and_le by blast
  with blk_addrs_bound [of y ni b] show "x \<in> {..<2 ^ 64}" by (simp add: order.strict_trans1)
qed

lemma mgmt_writes_bound: "mgmt_writes ni \<subseteq> {..<2 ^ 64}"
  unfolding mgmt_writes_def using blk_writes_bound by blast

lemma bounded_not_all: "W \<subseteq> {..<2 ^ 64} \<Longrightarrow> W \<noteq> (UNIV :: nat set)"
  using infinite_UNIV_nat finite_subset by blast

lemma mgmt_writes_not_all: "mgmt_writes ni \<noteq> UNIV"
  by (rule bounded_not_all [OF mgmt_writes_bound])

section \<open>Mapping a block\<close>

lemma u32_of_int_s32: "n < 2 ^ 32 \<Longrightarrow> u32_of_int (s32 n) = n"
proof -
  assume "n < 2 ^ 32"
  moreover from this have "(int n - 4294967296) mod 4294967296 = int n"
    using mod_pos_pos_trivial [of "int n" 4294967296] minus_mod_self2 [of "int n" 4294967296] by simp
  ultimately show ?thesis by (simp add: u32_of_int_def s32_def u32_id)
qed

lemma s32_0 [simp]: "s32 0 = 0"
  by (simp add: s32_def)

lemma u32_of_int_0 [simp]: "u32_of_int 0 = 0"
  by (simp add: u32_of_int_def)

text \<open>The spare block that is taken is the highest good block above the tables.\<close>

lemma map_block_pick:
  assumes "nmbm_block_walk ni False tb 0 (s32 lo) = Some pb" and "lo < block_count ni" and "lo < 2 ^ 32"
  shows "lo < pb" "pb \<le> tb" "nmbm_get_block_state ni pb = BLOCK_ST_GOOD"
    "pb < c \<Longrightarrow> c \<le> tb \<Longrightarrow> nmbm_get_block_state ni c \<noteq> BLOCK_ST_GOOD"
proof -
  have w: "nth_good ni 0 (rev [Suc lo..<Suc tb]) = Some pb"
    using assms walk_desc_nth_good [of ni tb 0 lo]
    by (simp add: nmbm_block_walk_def nmbm_block_walk_desc_def u32_of_int_s32 Let_def del: upt_Suc)
  from nth_good_SomeD(2) [OF w] nth_good_0_first [OF w]
  show "lo < pb" "pb \<le> tb" "nmbm_get_block_state ni pb = BLOCK_ST_GOOD"
    "pb < c \<Longrightarrow> c \<le> tb \<Longrightarrow> nmbm_get_block_state ni c \<noteq> BLOCK_ST_GOOD"
    by auto
qed

lemma walk_desc_pos: "walk_desc ni ba n limit = Some b \<Longrightarrow> limit < ba"
  by (subst (asm) walk_desc.simps) (auto split: if_splits)

lemma block_walk_desc_pos: "nmbm_block_walk ni False ba n limit = Some b \<Longrightarrow> 0 < ba"
  unfolding nmbm_block_walk_def nmbm_block_walk_desc_def Let_def
  by (auto dest: walk_desc_pos)

lemma map_block_success:
  assumes "nmbm_map_block crc ni lb = (True, ni')"
  obtains pb where "nmbm_block_walk ni False (mapping_blocks_top_ba ni) 0 (s32 (mapping_blocks_ba ni)) = Some pb"
    and "mapping_blocks_ba ni \<noteq> mapping_blocks_top_ba ni" and "0 < mapping_blocks_top_ba ni"
    and "ni' = ni\<lparr>block_mapping := (block_mapping ni)[lb := s32 pb],
                 mapping_blocks_top_ba := mapping_blocks_top_ba ni - 1,
                 block_mapping_changed := u32 (block_mapping_changed ni + 1)\<rparr>"
proof -
  from assms obtain pb where
    w: "nmbm_block_walk ni False (mapping_blocks_top_ba ni) 0 (s32 (mapping_blocks_ba ni)) = Some pb"
    and rest: "mapping_blocks_ba ni \<noteq> mapping_blocks_top_ba ni"
      "ni' = ni\<lparr>block_mapping := (block_mapping ni)[lb := s32 pb],
                 mapping_blocks_top_ba := sub32 (mapping_blocks_top_ba ni) 1,
                 block_mapping_changed := u32 (block_mapping_changed ni + 1)\<rparr>"
    by (auto simp: nmbm_map_block_def split: if_splits option.splits prod.splits)
  from w have "0 < mapping_blocks_top_ba ni" by (rule block_walk_desc_pos)
  with that w rest show ?thesis by (simp add: sub32_def)
qed

lemma map_block_top_less:
  "nmbm_map_block crc ni lb = (True, ni') \<Longrightarrow> mapping_blocks_top_ba ni' < mapping_blocks_top_ba ni"
  by (elim map_block_success) simp

text \<open>Lowering the top of the spare blocks shrinks the area the tables may use.\<close>

lemma confined_shrink:
  assumes "confined W ni" and "inst_step W ni ni'" and "W \<noteq> UNIV \<Longrightarrow> layout ni'"
    and "mgmt_start_ba ni' = mgmt_start_ba ni" and "mapping_blocks_top_ba ni' \<le> mapping_blocks_top_ba ni"
  shows "confined W ni'"
proof -
  have "mgmt_writes ni' \<subseteq> mgmt_writes ni"
    using assms(4,5) inst_blk_writes [OF assms(2)] unfolding mgmt_writes_def by fastforce
  with assms(1,3) show ?thesis unfolding confined_def by blast
qed

lemma map_block_ok:
  assumes "nmbm_map_block crc ni lb = (r, ni')" and "confined W ni"
  shows "inst_step W ni ni' \<and> confined W ni' \<and> mgmt_start_ba ni' = mgmt_start_ba ni
    \<and> (W \<noteq> UNIV \<longrightarrow> mapping_blocks_top_ba ni' \<le> mapping_blocks_top_ba ni)"
proof (cases r)
  case True
  with assms(1) have "nmbm_map_block crc ni lb = (True, ni')" by simp
  then obtain pb where "nmbm_block_walk ni False (mapping_blocks_top_ba ni) 0 (s32 (mapping_blocks_ba ni)) = Some pb"
    and n: "mapping_blocks_ba ni \<noteq> mapping_blocks_top_ba ni" "0 < mapping_blocks_top_ba ni"
    "ni' = ni\<lparr>block_mapping := (block_mapping ni)[lb := s32 pb],
              mapping_blocks_top_ba := mapping_blocks_top_ba ni - 1,
              block_mapping_changed := u32 (block_mapping_changed ni + 1)\<rparr>"
    by (rule map_block_success)
  then have i: "inst_step W ni ni'" by (intro inst_same) simp_all
  have "confined W ni'"
    using n confined_layout [OF assms(2)] by (intro confined_shrink [OF assms(2) i]) (auto simp: layout_def)
  with i n show ?thesis by simp
next
  case False
  obtain u n1 where u: "nmbm_update_info_table crc ni = (u, n1)" by fastforce
  have t: "table_ok W ni n1" using update_info_table_ok [OF u assms(2)] by blast
  have k: "mgmt_start_ba n1 = mgmt_start_ba ni" "mapping_blocks_top_ba n1 = mapping_blocks_top_ba ni"
    using table_step_keeps [OF table_okD(2) [OF t]] by simp_all
  let ?n = "n1\<lparr>mapping_blocks_top_ba := mapping_blocks_ba n1\<rparr>"
  have i: "inst_step W n1 ?n" by (rule inst_same) simp_all
  have c: "W \<noteq> UNIV \<Longrightarrow> confined W ?n"
    using ok_layout [OF t] by (intro confined_shrink [OF table_okD(1) [OF t] i]) (auto simp: layout_def)
  have "confined W ?n" by (cases "W = UNIV") (simp_all add: c)
  moreover have "inst_step W ni ?n" using inst_table [OF table_okD(2) [OF t]] i by (rule inst_trans)
  moreover have "ni' = ni \<or> ni' = ?n"
    using False assms(1) u by (auto simp: nmbm_map_block_def split: if_splits option.splits)
  moreover have "W \<noteq> UNIV \<longrightarrow> mapping_blocks_top_ba ?n \<le> mapping_blocks_top_ba ni"
    using ok_layout [OF t] k by (auto simp: layout_def)
  ultimately show ?thesis using assms(2) k by auto
qed

lemma remap_tail_blocks_ok:
  "confined W ni \<Longrightarrow> inst_step W ni (remap_tail_blocks crc lbs ni) \<and> confined W (remap_tail_blocks crc lbs ni)
     \<and> mgmt_start_ba (remap_tail_blocks crc lbs ni) = mgmt_start_ba ni"
proof (induction lbs arbitrary: ni)
  case (Cons lb lbs)
  obtain r n1 where m: "nmbm_map_block crc ni lb = (r, n1)" by fastforce
  note ok = map_block_ok [OF m Cons.prems]
  let ?n = "n1\<lparr>data_block_count := u32 (data_block_count n1 + 1)\<rparr>"
  have i: "inst_step W n1 ?n" by (rule inst_same) simp_all
  have "confined W ?n"
    using ok by (intro confined_shrink [OF _ i]) (auto simp: layout_def dest: confined_layout)
  from Cons.IH [OF this] ok i m show ?case by (cases r) (auto intro: inst_trans)
qed simp

section \<open>Creating NMBM\<close>

text \<open>The management area: everything from its first block to the end of the chip.\<close>

definition mgmt_area :: "'d nmbm_instance \<Rightarrow> nat set" where
  "mgmt_area ni = (\<Union>b\<in>{mgmt_start_ba ni..<block_count ni}. blk_writes ni b)"

lemma mgmt_area_not_all: "mgmt_area ni \<noteq> UNIV"
  using blk_writes_bound by (intro bounded_not_all) (auto simp: mgmt_area_def)

lemma rebuild_from_empty:
  "nmbm_rebuild_info_table ni =
     nmbm_rebuild_info_table (ni\<lparr>main_table_ba := 0, backup_table_ba := 0,
                                mapping_blocks_ba := mapping_blocks_top_ba ni\<rparr>)"
  by (simp add: nmbm_rebuild_info_table_def)

lemma walk_desc_bounds:
  assumes "nmbm_block_walk ni False ba (int n) (s32 lo) = Some b" and "lo < block_count ni"
    and "lo < 2 ^ 32" and "n < 2 ^ 31"
  shows "lo < b" "b \<le> ba"
proof -
  have "s32 (u32_of_int (int n)) = int n" using assms(4) by (intro s32_u32_of_int) simp_all
  then have "nth_good ni n (rev [Suc lo..<Suc ba]) = Some b"
    using assms walk_desc_nth_good [of ni ba n lo]
    by (simp add: nmbm_block_walk_def nmbm_block_walk_desc_def u32_of_int_s32 Let_def del: upt_Suc)
  from nth_good_SomeD(1) [OF this] show "lo < b" "b \<le> ba" by auto
qed

lemma create_info_table_ok:
  assumes "nmbm_create_info_table crc ni = (r, ni')"
    and W: "W = UNIV \<or> 0 < mgmt_start_ba ni \<and> mgmt_start_ba ni < block_count ni \<and> block_count ni < 2 ^ 32
          \<and> signature_ba ni < block_count ni \<and> 0 < info_table_size ni \<and> mgmt_area ni \<subseteq> W"
  shows "inst_step W ni ni' \<and> (r \<longrightarrow> confined W ni')"
proof (cases "nmbm_block_walk ni False (signature_ba ni) 1 (s32 (mgmt_start_ba ni))")
  case None
  with assms(1) show ?thesis by (simp add: nmbm_create_info_table_def)
next
  case (Some tb)
  define n0 where "n0 = ni\<lparr>mapping_blocks_top_ba := tb\<rparr>"
  obtain c n1 where g: "nmbm_generate_info_table_cache crc n0 = (c, n1)" by fastforce
  obtain cache it where n1: "n1 = n0\<lparr>info_table_cache := cache, info_table := it\<rparr>" "cache \<noteq> []"
    using g by (rule generate_shape)
  define n2 where "n2 = n1\<lparr>main_table_ba := 0, backup_table_ba := 0, mapping_blocks_ba := mapping_blocks_top_ba n1\<rparr>"
  have i2: "inst_step W ni n2" by (rule inst_same) (simp_all add: n2_def n1 n0_def)
  have "mgmt_writes n2 \<subseteq> mgmt_area ni" if "tb \<le> block_count ni"
    using that inst_blk_writes [OF i2] unfolding mgmt_writes_def mgmt_area_def
    by (fastforce simp: n2_def n1 n0_def)
  moreover have "mgmt_start_ba ni < tb \<and> tb \<le> signature_ba ni" if "W \<noteq> UNIV"
    using walk_desc_bounds [of ni "signature_ba ni" 1 "mgmt_start_ba ni" tb] Some W that by simp
  ultimately have c2: "confined W n2"
    using W unfolding confined_def layout_def n2_def n1(1) n0_def
    by (cases "W = UNIV") (use n1(2) in auto)
  obtain s n3 where b: "nmbm_rebuild_info_table n1 = (s, n3)" by fastforce
  then have "nmbm_rebuild_info_table n2 = (s, n3)" using rebuild_from_empty [of n1] by (simp add: n2_def)
  from rebuild_info_table_ok [OF this c2] have t3: "table_ok W n2 n3" by blast
  define n4 where "n4 = remap_tail_blocks crc [data_block_count n3..<mgmt_start_ba n3] n3"
  have ok4: "inst_step W n3 n4" "confined W n4"
    using remap_tail_blocks_ok [OF table_okD(1) [OF t3]] by (simp_all add: n4_def)
  obtain r5 n5 where u: "nmbm_update_info_table crc n4 = (r5, n5)" by fastforce
  have t5: "table_ok W n4 n5" using update_info_table_ok [OF u ok4(2)] by blast
  have i3: "inst_step W ni n3" using i2 inst_table [OF table_okD(2) [OF t3]] by (rule inst_trans)
  have i5: "inst_step W ni n5"
    using i3 ok4(1) inst_table [OF table_okD(2) [OF t5]] by (blast intro: inst_trans)
  show ?thesis
    using assms(1) Some g b u i3 i5 table_okD(1) [OF t5]
    by (auto simp: nmbm_create_info_table_def Let_def n0_def n4_def split: if_splits)
qed

lemma map_good_blocks_shape:
  "map_good_blocks pbs ni lb = (lb', ni') \<Longrightarrow> \<exists>bm. ni' = ni\<lparr>block_mapping := bm\<rparr>"
proof (induction pbs arbitrary: ni lb)
  case Nil
  then have "ni' = ni\<lparr>block_mapping := block_mapping ni\<rparr>" by simp
  then show ?case by blast
next
  case (Cons pb pbs)
  then show ?case by (fastforce split: if_splits)
qed

lemma build_mapping_table_shape:
  obtains bm n where "nmbm_build_mapping_table ni = ni\<lparr>block_mapping := bm, data_block_count := n\<rparr>"
proof -
  obtain lb n1 where m: "map_good_blocks [0..<mgmt_start_ba ni] ni 0 = (lb, n1)" by fastforce
  then obtain bm where "n1 = ni\<lparr>block_mapping := bm\<rparr>" using map_good_blocks_shape by blast
  with m have "nmbm_build_mapping_table ni =
      ni\<lparr>block_mapping := fill_range bm lb (block_count ni) (-1), data_block_count := lb\<rparr>"
    by (simp add: nmbm_build_mapping_table_def unmap_blocks_eq)
  with that show ?thesis .
qed

lemma signature_range:
  "b \<in> {mgmt_start_ba ni..<block_count ni} \<Longrightarrow> blk_addrs ni b \<subseteq> mgmt_area ni"
  unfolding mgmt_area_def blk_writes_def by blast

text \<open>
  Creation writes nothing below the management area, and a success on a writable device ends in
  the layout.
\<close>

lemma create_new_ok:
  assumes "nmbm_create_new crc ni = (r, ni')"
    and W: "W = UNIV \<or> 0 < first_mgmt_block ni \<and> first_mgmt_block ni < block_count ni \<and> block_count ni < 2 ^ 32
          \<and> 0 < info_table_size ni \<and> mgmt_area (ni\<lparr>mgmt_start_ba := first_mgmt_block ni\<rparr>) \<subseteq> W"
  shows "inst_step W ni ni' \<and> (r \<and> \<not> read_only ni \<longrightarrow> confined W ni')"
proof -
  define n0 where "n0 = ni\<lparr>mgmt_start_ba := first_mgmt_block ni\<rparr>"
  have d1: "degrade W n0 (nmbm_scan_badblocks n0)" by (rule scan_badblocks_degrade)
  define n1 where "n1 = nmbm_scan_badblocks n0"
  obtain bm k where b: "nmbm_build_mapping_table n1 = n1\<lparr>block_mapping := bm, data_block_count := k\<rparr>"
    by (rule build_mapping_table_shape)
  define n2 where "n2 = (nmbm_build_mapping_table n1)\<lparr>signature := new_signature crc (nmbm_build_mapping_table n1)\<rparr>"
  have i0: "inst_step W ni n0" by (rule inst_same) (simp_all add: n0_def)
  have i1: "inst_step W n0 n1" unfolding n1_def by (rule inst_degrade [OF d1])
  have i2: "inst_step W n1 n2" by (rule inst_same) (simp_all add: n2_def b)
  have i: "inst_step W ni n2" using i0 i1 i2 by (blast intro: inst_trans)
  have k2: "mgmt_start_ba n2 = first_mgmt_block ni" "info_table_size n2 = info_table_size ni"
    "block_count n2 = block_count ni" "mgmt_area n2 = mgmt_area n0" "read_only n2 = read_only ni"
  proof -
    show "mgmt_start_ba n2 = first_mgmt_block ni" "info_table_size n2 = info_table_size ni"
      "block_count n2 = block_count ni"
      using d1 by (simp_all add: n2_def b, (elim degradeE, simp add: n1_def n0_def)+)
    with inst_blk_writes [OF i] inst_blk_writes [OF i0] show "mgmt_area n2 = mgmt_area n0"
      unfolding mgmt_area_def by (simp add: n0_def)
    show "read_only n2 = read_only ni" by (rule inst_read_only [OF i])
  qed
  show ?thesis
  proof (cases "read_only ni")
    case True
    with assms(1) i k2 show ?thesis
      by (simp add: nmbm_create_new_def Let_def n2_def n1_def n0_def)
  next
    case False
    obtain s n3 where w: "nmbm_write_signature n2 (mgmt_start_ba n2) (signature_bytes (signature n2)) = (s, n3)"
      by fastforce
    have h: "blk_addrs n2 b \<subseteq> W" if "mgmt_start_ba n2 < b" "b \<le> sub32 (block_count n2) 1" for b
    proof (cases "W = UNIV")
      case False
      with W have f: "first_mgmt_block ni < block_count ni" "mgmt_area n0 \<subseteq> W" by (auto simp: n0_def)
      with that k2 have "b \<in> {mgmt_start_ba n2..<block_count n2}" by (simp add: sub32_def)
      from signature_range [OF this] f(2) k2(4) show ?thesis by simp
    qed simp
    have ws: "degrade W n2 n3" "s = Some ba \<Longrightarrow> mgmt_start_ba n2 < ba \<and> ba \<le> sub32 (block_count n2) 1" for ba
      using write_signature_degrade [OF w, of W] h by blast+
    have i3: "inst_step W ni n3" using i inst_degrade [OF ws(1)] by (rule inst_trans)
    show ?thesis
    proof (cases s)
      case None
      with assms(1) i3 k2 w False show ?thesis
        by (simp add: nmbm_create_new_def Let_def n2_def n1_def n0_def)
    next
      case (Some ba)
      define n4 where "n4 = n3\<lparr>signature_ba := ba\<rparr>"
      have i4: "inst_step W n3 n4" by (rule inst_same) (simp_all add: n4_def)
      have c: "nmbm_create_info_table crc n4 = (r, ni')"
        using assms(1) k2 w Some False by (simp add: nmbm_create_new_def Let_def n2_def n1_def n0_def n4_def)
      have k4: "mgmt_start_ba n4 = mgmt_start_ba n2" "block_count n4 = block_count n2"
        "info_table_size n4 = info_table_size n2"
        using ws(1) by (elim degradeE, simp add: n4_def)+
      have "mgmt_area n4 = mgmt_area n2"
        using inst_blk_writes [OF inst_trans [OF i3 i4]] inst_blk_writes [OF i] k4
        unfolding mgmt_area_def by simp
      moreover have "mgmt_start_ba n2 < ba \<and> ba \<le> sub32 (block_count n2) 1" using ws(2) [OF Some] by blast
      ultimately have "inst_step W n4 ni' \<and> (r \<longrightarrow> confined W ni')"
        using W k2 k4 by (intro create_info_table_ok [OF c]) (auto simp: n4_def n0_def sub32_def)
      with i3 i4 show ?thesis by (blast intro: inst_trans)
    qed
  qed
qed

end
