(* ===== verification/Nmbm_Load.thy ===== *)
theory Nmbm_Load
  imports Nmbm_Map
begin

text \<open>
  Finding the signature and the info tables on a chip, checking the lower device, laying out the
  instance, and attaching to and detaching from a device: \<^verbatim>\<open>nmbm-core.c\<close>, lines 1728 to 2398. The
  search for the signature may run for ever, so it is a partial function whose value \<open>None\<close> means
  that it does not return; it is shown to return whenever its lower limit is positive.
\<close>

unbundle bit_operations_syntax

section \<open>Checking a loaded info table\<close>

definition nmbm_check_info_table_header :: "'d nmbm_instance \<Rightarrow> byte list \<Rightarrow> bool" where
  "nmbm_check_info_table_header ni data =
     (let ifthdr = info_table_of_bytes data in
      if magic (ift_header ifthdr) \<noteq> NMBM_MAGIC_INFO_TABLE then False
      else if hdr_size (ift_header ifthdr) \<noteq> info_table_size ni then False
      else if sub32 (mapping_table_off ifthdr) (state_table_off ifthdr) < state_table_size ni then False
      else if sub32 (info_table_size ni) (mapping_table_off ifthdr) < mapping_table_size ni then False
      else True)"

text \<open>
  The two tables inside an info table. The mapping entries are compared with unsigned block
  addresses, so an entry is read as an unsigned number there.
\<close>

definition table_states :: "byte list \<Rightarrow> nat \<Rightarrow> nat \<Rightarrow> 32 word list" where
  "table_states data off sz = dec_array 4 (\<lambda>bs. word_of_nat (get32 bs)) (sz div 4) (memget data off sz)"

definition table_mapping :: "byte list \<Rightarrow> nat \<Rightarrow> nat \<Rightarrow> int list" where
  "table_mapping data off sz = dec_array 4 gets32 (sz div 4) (memget data off sz)"

fun check_mappings :: "nat list \<Rightarrow> 'd nmbm_instance \<Rightarrow> int list \<Rightarrow> nat \<Rightarrow> nat \<Rightarrow> nat option" where
  "check_mappings [] ni mapping end_ba minimum_mapping_pb = Some minimum_mapping_pb"
| "check_mappings (ba # bas) ni mapping end_ba minimum_mapping_pb =
     (let m = u32_of_int (rd 0 mapping ba) in
      if m \<ge> data_block_count ni \<and> m < end_ba \<or> m = signature_ba ni then None
      else check_mappings bas ni mapping end_ba
             (if m \<ge> end_ba \<and> m < minimum_mapping_pb then m else minimum_mapping_pb))"

text \<open>\<open>Some mapping_blocks_top_ba\<close> when the table is valid.\<close>

definition nmbm_check_info_table ::
    "'d nmbm_instance \<Rightarrow> nat \<Rightarrow> nat \<Rightarrow> byte list \<Rightarrow> nat option" where
  "nmbm_check_info_table ni start_ba end_ba data =
     (let ifthdr = info_table_of_bytes data;
          mapping = table_mapping data (mapping_table_off ifthdr) (mapping_table_size ni);
          states = table_states data (state_table_off ifthdr) (state_table_size ni)
      in case check_mappings [0..<data_block_count ni] ni mapping end_ba (signature_ba ni) of
           None \<Rightarrow> None
         | Some minimum_mapping_pb \<Rightarrow>
             if list_all (\<lambda>ba. nmbm_get_block_state ni ba = BLOCK_ST_GOOD \<longrightarrow>
                               nmbm_get_block_state_raw states ba = BLOCK_ST_GOOD) [start_ba..<end_ba]
             then Some (sub32 minimum_mapping_pb 1) else None)"

section \<open>Loading an info table\<close>

text \<open>
  The loop that reads the table block by block. \<open>None\<close> is a \<^verbatim>\<open>return false\<close> inside the loop;
  \<open>Some (ba, start_ba, sizeremain)\<close> are the variables when it ends.
\<close>

function try_load_loop ::
    "'d nmbm_instance \<Rightarrow> nat \<Rightarrow> nat \<Rightarrow> nat \<Rightarrow> nat \<Rightarrow> nat \<Rightarrow> bool
     \<Rightarrow> (nat \<times> nat \<times> nat) option \<times> 'd nmbm_instance" where
  "try_load_loop ni ba limit off sizeremain start_ba checkhdr =
     (if sizeremain \<noteq> 0 \<and> ba < limit then
        if nmbm_get_block_state ni ba \<noteq> BLOCK_ST_GOOD
        then try_load_loop ni (ba + 1) limit off sizeremain start_ba checkhdr
        else
          let (bad, ni) = nmbm_check_bad_phys_block ni ba in
          if bad
          then try_load_loop (snd (nmbm_set_block_state ni ba BLOCK_ST_BAD)) (ba + 1) limit off
                 sizeremain start_ba checkhdr
          else
            let chunksize = (if sizeremain > erasesize (lower ni) then erasesize (lower ni) else sizeremain);
                (ret, data, ni) = nmbn_read_data ni (ba2addr ni ba)
                                    (memget (info_table_cache ni) off chunksize) chunksize;
                ni = ni\<lparr>info_table_cache := memput (info_table_cache ni) off data\<rparr>
            in
            if ret < 0
            then try_load_loop (snd (nmbm_set_block_state ni ba BLOCK_ST_BAD)) (ba + 1) limit off
                   sizeremain start_ba checkhdr
            else if ret > 0 then (None, ni)
            else if checkhdr \<and> \<not> nmbm_check_info_table_header ni (drop off (info_table_cache ni))
            then (None, ni)
            else try_load_loop ni (ba + 1) limit (off + chunksize) (sizeremain - chunksize)
                   (if checkhdr then ba else start_ba) False
      else (Some (ba, start_ba, sizeremain), ni))"
  by pat_completeness auto
termination
  by (relation "measure (\<lambda>(ni, ba, limit, off, sizeremain, start_ba, checkhdr). limit - ba)") auto

declare try_load_loop.simps [simp del]

text \<open>\<open>Some (eba, write_count, mapping_blocks_top_ba)\<close> on success.\<close>

definition nmbm_try_load_info_table ::
    "crc_fn \<Rightarrow> 'd nmbm_instance \<Rightarrow> nat \<Rightarrow> bool \<Rightarrow> (nat \<times> nat \<times> nat) option \<times> 'd nmbm_instance" where
  "nmbm_try_load_info_table crc ni ba table_loaded =
     (let limit = u32 (ba + size2blk ni (info_table_size ni)) in
      case try_load_loop ni ba limit 0 (info_table_size ni) 0 True of
        (None, ni) \<Rightarrow> (None, ni)
      | (Some (eba, start_ba, sizeremain), ni) \<Rightarrow>
          if sizeremain \<noteq> 0 then (None, ni)
          else if \<not> nmbm_check_header crc (info_table_cache ni) (info_table_size ni) then (None, ni)
          else
            let ifthdr = info_table_of_bytes (info_table_cache ni) in
            case nmbm_check_info_table ni start_ba eba (info_table_cache ni) of
              None \<Rightarrow> (None, ni)
            | Some top_ba \<Rightarrow>
                let ni =
                  (if \<not> table_loaded \<or> write_count ifthdr > write_count (info_table ni)
                   then ni\<lparr>info_table := ifthdr,
                           block_state := table_states (info_table_cache ni) (state_table_off ifthdr)
                                            (state_table_size ni),
                           block_mapping := table_mapping (info_table_cache ni) (mapping_table_off ifthdr)
                                              (mapping_table_size ni)\<rparr>
                   else ni)
                in (Some (eba, write_count ifthdr, top_ba), ni))"

text \<open>
  The bound \<^verbatim>\<open>limit - size2blk(ni, ni->info_table_size)\<close> of the search does not change while it
  runs; it is computed once here. \<open>Some (table_start_ba, table_end_ba, write_count,
  mapping_blocks_top_ba)\<close> on success.
\<close>

function search_loop ::
    "crc_fn \<Rightarrow> 'd nmbm_instance \<Rightarrow> nat \<Rightarrow> nat \<Rightarrow> bool \<Rightarrow> (nat \<times> nat \<times> nat \<times> nat) option \<times> 'd nmbm_instance" where
  "search_loop crc ni ba bound table_loaded =
     (if ba < bound then
        (case nmbm_try_load_info_table crc ni ba table_loaded of
           (Some (eba, wc, top_ba), ni) \<Rightarrow> (Some (ba, eba, wc, top_ba), ni)
         | (None, ni) \<Rightarrow> search_loop crc ni (ba + 1) bound table_loaded)
      else (None, ni))"
  by pat_completeness auto
termination
  by (relation "measure (\<lambda>(crc, ni, ba, bound, l). bound - ba)") auto

declare search_loop.simps [simp del]

definition nmbm_search_info_table ::
    "crc_fn \<Rightarrow> 'd nmbm_instance \<Rightarrow> nat \<Rightarrow> nat \<Rightarrow> bool \<Rightarrow> (nat \<times> nat \<times> nat \<times> nat) option \<times> 'd nmbm_instance" where
  "nmbm_search_info_table crc ni ba limit table_loaded =
     search_loop crc ni ba (sub32 limit (size2blk ni (info_table_size ni))) table_loaded"

text \<open>\<^verbatim>\<open>for (i = mgmt_start_pb; i > 0; i--) if (block_mapping[i - 1] >= 0) \<dots> break\<close>\<close>

fun last_mapped :: "int list \<Rightarrow> nat \<Rightarrow> nat option" where
  "last_mapped mapping 0 = None"
| "last_mapped mapping (Suc i) = (if rd (-1) mapping i \<ge> 0 then Some (Suc i) else last_mapped mapping i)"

text \<open>The end of \<^verbatim>\<open>nmbm_load_info_table\<close> on a writable device: complete the pair of tables.\<close>

definition restore_tables :: "'d nmbm_instance \<Rightarrow> nat \<Rightarrow> nat \<Rightarrow> 'd nmbm_instance" where
  "restore_tables ni main_write_count backup_write_count =
     (let (success, ni) =
        (if backup_table_ba ni = 0 then nmbm_rescue_single_info_table ni
         else if main_write_count \<noteq> backup_write_count
         then nmbm_update_single_info_table (ni\<lparr>block_state_changed := 1, block_mapping_changed := 1\<rparr>)
                (main_write_count < backup_write_count)
         else (True, ni))
      in if mapping_blocks_ba ni = mapping_blocks_top_ba ni then ni\<lparr>protected := True\<rparr>
         else if \<not> success then ni\<lparr>protected := True\<rparr>
         else ni)"

definition nmbm_load_info_table ::
    "crc_fn \<Rightarrow> 'd nmbm_instance \<Rightarrow> nat \<Rightarrow> nat \<Rightarrow> bool \<times> 'd nmbm_instance" where
  "nmbm_load_info_table crc ni ba limit =
     (let ni = ni\<lparr>main_table_ba := 0, backup_table_ba := 0,
                  info_table := (info_table ni)\<lparr>write_count := 0\<rparr>,
                  mapping_blocks_top_ba := sub32 (signature_ba ni) 1,
                  data_block_count := mgmt_start_pb (signature ni)\<rparr> in
      case nmbm_search_info_table crc ni ba limit False of
        (None, ni) \<Rightarrow> (False, ni)
      | (Some (main_start, main_end, main_wc, main_top), ni) \<Rightarrow>
          let ni = ni\<lparr>main_table_ba := main_start\<rparr>;
              (backup, ni) = nmbm_search_info_table crc ni main_end limit True;
              (backup_start, table_end_ba, backup_wc, backup_top) =
                (case backup of None \<Rightarrow> (0, main_end, 0, 0) | Some b \<Rightarrow> b);
              ni = ni\<lparr>backup_table_ba := backup_start\<rparr>;
              ni = ni\<lparr>mapping_blocks_top_ba :=
                       (if backup_table_ba ni = 0 then main_top
                        else if main_wc \<ge> backup_wc then main_top else backup_top)\<rparr>;
              ni = ni\<lparr>mapping_blocks_ba := table_end_ba\<rparr>;
              ni = (case last_mapped (block_mapping ni) (mgmt_start_pb (signature ni)) of
                      None \<Rightarrow> ni | Some i \<Rightarrow> ni\<lparr>data_block_count := i\<rparr>);
              (_, ni) = nmbm_generate_info_table_cache crc ni
          in if read_only ni then (True, ni)
             else (True, restore_tables ni main_wc backup_wc))"

definition nmbm_load_existing :: "crc_fn \<Rightarrow> 'd nmbm_instance \<Rightarrow> bool \<times> 'd nmbm_instance" where
  "nmbm_load_existing crc ni =
     (let ni = ni\<lparr>mgmt_start_ba := mgmt_start_pb (signature ni)\<rparr>;
          (success, ni) = nmbm_load_info_table crc ni (mgmt_start_ba ni) (signature_ba ni)
      in if success then (True, ni)
         else if \<not> lower_flag (lower ni) NMBM_F_CREATE then (False, ni)
         else
           let ni = nmbm_build_mapping_table (nmbm_scan_badblocks ni)
           in if read_only ni then (True, ni) else nmbm_create_info_table crc ni)"

section \<open>Finding the signature\<close>

fun find_signature_pages ::
    "crc_fn \<Rightarrow> nat list \<Rightarrow> 'd nmbm_instance \<Rightarrow> nat \<Rightarrow> byte list
     \<Rightarrow> nmbm_signature option \<times> byte list \<times> 'd nmbm_instance" where
  "find_signature_pages crc [] ni addr sig = (None, sig, ni)"
| "find_signature_pages crc (off # offs) ni addr sig =
     (let (ret, sig, ni) = nmbn_read_data ni (u64 (addr + off)) sig sizeof_signature in
      if ret \<noteq> 0 then find_signature_pages crc offs ni addr sig
      else if \<not> nmbm_check_header crc sig sizeof_signature then find_signature_pages crc offs ni addr sig
      else if magic (sig_header (signature_of_bytes sig)) = NMBM_MAGIC_SIGNATURE
      then (Some (signature_of_bytes sig), sig, ni)
      else find_signature_pages crc offs ni addr sig)"

partial_function (option) find_signature_loop ::
    "crc_fn \<Rightarrow> 'd nmbm_instance \<Rightarrow> nat \<Rightarrow> nat \<Rightarrow> byte list
     \<Rightarrow> ((nmbm_signature \<times> nat) option \<times> 'd nmbm_instance) option" where
  "find_signature_loop crc ni ba limit sig =
     (if ba \<ge> limit then
        (case nmbm_check_bad_phys_block ni (sub32 ba 1) of (bad, ni1) \<Rightarrow>
           if bad then find_signature_loop crc ni1 (sub32 ba 1) limit sig
           else
             (case find_signature_pages crc (page_offs ni1) ni1 (ba2addr ni1 (sub32 ba 1)) sig of
                (found, sig1, ni2) \<Rightarrow>
                  (case found of
                     Some s \<Rightarrow> Some (Some (s, sub32 ba 1), ni2)
                   | None \<Rightarrow> find_signature_loop crc ni2 (sub32 ba 1) limit sig1)))
      else Some (None, ni))"

definition signature_limit :: "'d nmbm_instance \<Rightarrow> nat \<Rightarrow> nat" where
  "signature_limit ni block_cnt =
     (let limit = u32 (block_cnt div NMBM_MGMT_DIV * sub32 NMBM_MGMT_DIV (max_ratio (lower ni)))
      in if max_reserved_blocks (lower ni) \<noteq> 0
            \<and> sub32 block_cnt limit > max_reserved_blocks (lower ni)
         then sub32 block_cnt (max_reserved_blocks (lower ni)) else limit)"

text \<open>The buffer on the stack that the pages are read into starts with arbitrary bytes; zeros here.\<close>

definition nmbm_find_signature ::
    "crc_fn \<Rightarrow> 'd nmbm_instance \<Rightarrow> ((nmbm_signature \<times> nat) option \<times> 'd nmbm_instance) option" where
  "nmbm_find_signature crc ni =
     (let block_cnt = u32 (nld_size (lower ni) div 2 ^ erasesize_shift ni)
      in find_signature_loop crc ni block_cnt (signature_limit ni block_cnt)
           (replicate sizeof_signature 0))"

section \<open>Checking and laying out\<close>

definition is_power_of_2_u64 :: "nat \<Rightarrow> bool" where
  "is_power_of_2_u64 n \<longleftrightarrow> n \<noteq> 0 \<and> n AND (n - 1) = 0"

definition nmbm_check_lower_members :: "'d nmbm_lower_device \<Rightarrow> bool \<times> 'd nmbm_lower_device" where
  "nmbm_check_lower_members nld =
     (if nld_size nld = 0 \<or> \<not> is_power_of_2_u64 (nld_size nld) then (False, nld)
      else if erasesize nld = 0 \<or> \<not> is_power_of_2_u64 (erasesize nld) then (False, nld)
      else if writesize nld = 0 \<or> \<not> is_power_of_2_u64 (writesize nld) then (False, nld)
      else if oobsize nld = 0 then (False, nld)
      else if read_page nld = None then (False, nld)
      else if \<not> lower_flag nld NMBM_F_READ_ONLY \<and> (write_page nld = None \<or> erase_block nld = None)
      then (False, nld)
      else
        let nld = (if max_ratio nld = 0 then nld\<lparr>max_ratio := 1\<rparr> else nld) in
        if max_ratio nld \<ge> NMBM_MGMT_DIV - 1 then (False, nld)
        else if max_reserved_blocks nld \<noteq> 0 \<and> max_reserved_blocks nld < NMBM_MGMT_BLOCKS_MIN
        then (False, nld)
        else (True, nld))"

definition nmbm_lldiv :: "nat \<Rightarrow> nat \<Rightarrow> nat" where
  "nmbm_lldiv dividend divisor = u32 (dividend div divisor)"

definition NMBM_ALIGN :: "nat \<Rightarrow> nat \<Rightarrow> nat" where
  "NMBM_ALIGN v a = unat ((word_of_nat (sub32 (u32 (v + a)) 1) :: 32 word) AND NOT (word_of_nat (sub32 a 1)))"

definition state_bytes :: "nat \<Rightarrow> nat" where
  "state_bytes block_cnt = u32 (sub32 (u32 (block_cnt + NMBM_BITMAP_BLOCKS_PER_UNIT)) 1
     div NMBM_BITMAP_BLOCKS_PER_UNIT * NMBM_BITMAP_UNIT_SIZE)"

text \<open>The size of \<^verbatim>\<open>struct nmbm_instance\<close> depends on the target and is an argument here.\<close>

definition nmbm_calc_structure_size :: "nat \<Rightarrow> 'd nmbm_lower_device \<Rightarrow> nat" where
  "nmbm_calc_structure_size sizeof_instance nld =
     (let block_cnt = nmbm_lldiv (nld_size nld) (erasesize nld);
          state_sz = state_bytes block_cnt;
          mapping_sz = u32 (block_cnt * 4);
          info_sz = NMBM_ALIGN sizeof_info_table (writesize nld);
          info_sz = u32 (info_sz + NMBM_ALIGN state_sz (writesize nld));
          info_sz = u32 (info_sz + NMBM_ALIGN mapping_sz (writesize nld))
      in u32 (info_sz + state_sz + mapping_sz + writesize nld + oobsize nld) + sizeof_instance)"

function ctz :: "nat \<Rightarrow> nat" where
  "ctz n = (if n = 0 \<or> odd n then 0 else Suc (ctz (n div 2)))"
  by pat_completeness auto
termination
  by (relation "measure id") auto

definition ffs :: "nat \<Rightarrow> nat" where
  "ffs n = (if n = 0 then 0 else Suc (ctz n))"

declare ctz.simps [simp del]

text \<open>
  The tables and buffers lie behind the structure in one allocation, which the callers get from
  \<^verbatim>\<open>kzalloc\<close>-like functions: the model starts them with zeros. The state table is then set to ones.
\<close>

definition nmbm_init_structure :: "'d nmbm_instance \<Rightarrow> 'd nmbm_instance" where
  "nmbm_init_structure ni =
     (let nld = lower ni;
          pages_per_block = erasesize nld div writesize nld;
          blocks_per_chip = nmbm_lldiv (nld_size nld) (erasesize nld);
          rawpage = u32 (writesize nld + oobsize nld);
          rawblock = u32 (pages_per_block * rawpage);
          rawchip = u32 (blocks_per_chip * rawblock);
          erase_shift = ffs (erasesize nld) - 1;
          block_cnt = u32 (nld_size nld div 2 ^ erase_shift);
          state_sz = state_bytes block_cnt;
          mapping_sz = u32 (block_cnt * 4);
          state_off = NMBM_ALIGN sizeof_info_table (writesize nld);
          mapping_off = u32 (state_off + NMBM_ALIGN state_sz (writesize nld));
          info_sz = u32 (mapping_off + NMBM_ALIGN mapping_sz (writesize nld));
          ni = ni\<lparr>rawpage_size := rawpage, rawblock_size := rawblock, rawchip_size := rawchip,
                  writesize_mask := sub32 (writesize nld) 1, erasesize_mask := sub32 (erasesize nld) 1,
                  writesize_shift := ffs (writesize nld) - 1, erasesize_shift := erase_shift,
                  block_count := block_cnt, state_table_size := state_sz,
                  mapping_table_size := mapping_sz,
                  info_table := (info_table ni)\<lparr>state_table_off := state_off,
                                                 mapping_table_off := mapping_off\<rparr>,
                  info_table_size := info_sz\<rparr>
      in ni\<lparr>info_table_spare_blocks := nmbm_get_spare_block_count (size2blk ni info_sz),
            info_table_cache := replicate info_sz 0,
            block_state := replicate (state_sz div 4) (- 1),
            block_mapping := replicate (mapping_sz div 4) 0,
            page_cache := replicate rawpage 0,
            block_state_changed := 0, block_mapping_changed := 0\<rparr>)"

section \<open>Attaching and detaching\<close>

text \<open>
  \<open>nmbm_attach\<close> returns the result, the lower device structure it was given (its maximal ratio may
  have been set to the default) and the instance. It does not return (\<open>None\<close>) when the search for
  the signature does not. The refusal of \<^verbatim>\<open>NULL\<close> pointers is left out, here and below.
\<close>

definition nmbm_attach ::
    "crc_fn \<Rightarrow> 'd nmbm_lower_device \<Rightarrow> 'd nmbm_instance
     \<Rightarrow> (int \<times> 'd nmbm_lower_device \<times> 'd nmbm_instance) option" where
  "nmbm_attach crc nld ni =
     (let ni = ni\<lparr>log_display_level := NMBM_LOG_INFO\<rparr>;
          (success, nld) = nmbm_check_lower_members nld
      in if \<not> success then Some (- EINVAL, nld, ni)
         else
           let ni = nmbm_init_structure (ni\<lparr>lower := nld\<rparr>) in
           case nmbm_find_signature crc ni of
             None \<Rightarrow> None
           | Some (None, ni) \<Rightarrow>
               if \<not> lower_flag nld NMBM_F_CREATE then Some (- ENODEV, nld, ni)
               else (let (success, ni) = nmbm_create_new crc ni
                     in Some (if \<not> success then - ENODEV else 0, nld, ni))
           | Some (Some (sig, ba), ni) \<Rightarrow>
               let ni = ni\<lparr>signature := sig, signature_ba := ba\<rparr> in
               if version (sig_header sig) \<noteq> NMBM_VER then Some (- EINVAL, nld, ni)
               else if nand_size sig \<noteq> nld_size nld \<or> block_size sig \<noteq> erasesize nld
                       \<or> page_size sig \<noteq> writesize nld \<or> spare_size sig \<noteq> oobsize nld
               then Some (- EINVAL, nld, ni)
               else (let (success, ni) = nmbm_load_existing crc ni
                     in Some (if \<not> success then - ENODEV else 0, nld, ni)))"

definition nmbm_detach :: "crc_fn \<Rightarrow> 'd nmbm_instance \<Rightarrow> int \<times> 'd nmbm_instance" where
  "nmbm_detach crc ni =
     (0, if \<not> read_only ni then snd (nmbm_update_info_table crc ni) else ni)"

section \<open>What loading does to the device\<close>

lemma inst_cache: "inst_step W ni n \<Longrightarrow> inst_step W ni (n\<lparr>info_table_cache := c\<rparr>)"
  by (erule inst_trans) (rule inst_same, simp_all)

lemma inst_set_state: "inst_step W ni n \<Longrightarrow> inst_step W ni (snd (nmbm_set_block_state n ba st))"
  by (erule inst_trans) (rule inst_same, simp_all add: nmbm_set_block_state_def Let_def)

lemma try_load_loop_inst:
  "try_load_loop ni ba limit off rem st ch = (r, ni') \<Longrightarrow> inst_step W ni ni'"
proof (induction "limit - ba" arbitrary: ni ba off rem st ch)
  case 0
  then show ?case by (simp add: try_load_loop.simps [of ni ba])
next
  case (Suc k)
  have IH: "inst_step W ni ni'" if "try_load_loop n (ba + 1) limit o2 r2 s2 c2 = (r, ni')" "inst_step W ni n"
    for n o2 r2 s2 c2
    using that(2) Suc.hyps(1) [OF _ that(1)] Suc.hyps(2) by (auto intro: inst_trans)
  obtain bad n1 where c: "nmbm_check_bad_phys_block ni ba = (bad, n1)" by fastforce
  define cs where "cs = (if rem > erasesize (lower n1) then erasesize (lower n1) else rem)"
  obtain ret data n2 where rd: "nmbn_read_data n1 (ba2addr n1 ba) (memget (info_table_cache n1) off cs) cs = (ret, data, n2)"
    by (metis prod.exhaust)
  have i1: "inst_step W ni n1" using c by (intro inst_phys check_bad_phys_block_step)
  have "inst_step W ni n2" using i1 read_data_step [OF rd] by (blast intro: inst_trans inst_phys)
  then have i2: "inst_step W ni (n2\<lparr>info_table_cache := c\<rparr>)" for c by (rule inst_cache)
  show ?case
    using Suc.prems Suc.hyps(2) IH [OF _ inst_refl] IH [OF _ inst_set_state [OF i1]]
      IH [OF _ inst_set_state [OF i2]] IH [OF _ i2] i2
    by (auto simp: try_load_loop.simps [of ni ba] c rd [unfolded cs_def] Let_def split: if_splits)
qed

lemma try_load_inst:
  assumes "nmbm_try_load_info_table crc ni ba l = (r, ni')"
  shows "inst_step W ni ni'"
proof -
  obtain x n1 where t: "try_load_loop ni ba (u32 (ba + size2blk ni (info_table_size ni))) 0
      (info_table_size ni) 0 True = (x, n1)" by fastforce
  have i1: "inst_step W ni n1" by (rule try_load_loop_inst [OF t])
  have "inst_step W n1 (n1\<lparr>info_table := it, block_state := bs, block_mapping := bm\<rparr>)" for it bs bm
    by (rule inst_same) simp_all
  with i1 have i2: "inst_step W ni (n1\<lparr>info_table := it, block_state := bs, block_mapping := bm\<rparr>)" for it bs bm
    by (blast intro: inst_trans)
  show ?thesis
    using assms t i1 i2
    by (auto simp: nmbm_try_load_info_table_def Let_def split: option.splits if_splits prod.splits)
qed

lemma search_loop_inst: "search_loop crc ni ba bound l = (r, ni') \<Longrightarrow> inst_step W ni ni'"
proof (induction "bound - ba" arbitrary: ni ba)
  case 0
  then show ?case by (simp add: search_loop.simps [of crc ni ba])
next
  case (Suc k)
  obtain x n1 where t: "nmbm_try_load_info_table crc ni ba l = (x, n1)" by fastforce
  have i1: "inst_step W ni n1" using t by (rule try_load_inst)
  have lt: "ba < bound" using Suc.hyps(2) by simp
  have "x = None \<Longrightarrow> inst_step W n1 ni'"
    using Suc t lt by (intro Suc.hyps(1) [of "ba + 1"]) (auto simp: search_loop.simps [of crc ni ba])
  with i1 Suc t lt show ?case
    by (cases x) (auto simp: search_loop.simps [of crc ni ba] intro: inst_trans split: prod.splits)
qed

lemma search_inst: "nmbm_search_info_table crc ni ba limit l = (r, ni') \<Longrightarrow> inst_step W ni ni'"
  unfolding nmbm_search_info_table_def by (rule search_loop_inst)

lemma generate_inst: "nmbm_generate_info_table_cache crc ni = (c, ni') \<Longrightarrow> inst_step W ni ni'"
  by (rule inst_table) (rule table_step_generate)

lemma restore_tables_inst: "inst_step UNIV ni (restore_tables ni m b)"
proof -
  define x where "x = (if backup_table_ba ni = 0 then nmbm_rescue_single_info_table ni
         else if m \<noteq> b then nmbm_update_single_info_table (ni\<lparr>block_state_changed := 1, block_mapping_changed := 1\<rparr>) (m < b)
         else (True, ni))"
  have "inst_step UNIV ni (snd x)"
  proof -
    have "inst_step UNIV ni (snd (nmbm_rescue_single_info_table ni))"
      using rescue_single_info_table_ok [of ni _ _ UNIV] by (auto intro!: inst_table table_okD(2) simp: prod_eq_iff)
    moreover have "inst_step UNIV n (snd (nmbm_update_single_info_table n u))" for n :: "'a nmbm_instance" and u
      using update_single_info_table_ok [of n u _ _ UNIV] by (auto intro!: inst_table table_okD(2) simp: prod_eq_iff)
    moreover have "inst_step UNIV ni (ni\<lparr>block_state_changed := 1, block_mapping_changed := 1\<rparr>)"
      by (rule inst_same) simp_all
    ultimately show ?thesis by (auto simp: x_def intro: inst_trans)
  qed
  moreover have "inst_step UNIV n (n\<lparr>protected := True\<rparr>)" for n :: "'a nmbm_instance"
    by (rule inst_same) simp_all
  moreover have "restore_tables ni m b = (if mapping_blocks_ba (snd x) = mapping_blocks_top_ba (snd x)
      \<or> \<not> fst x then (snd x)\<lparr>protected := True\<rparr> else snd x)"
    unfolding restore_tables_def x_def by (simp split: prod.splits if_split)
  ultimately show ?thesis by (auto intro: inst_trans)
qed

lemma load_info_table_inst:
  assumes "nmbm_load_info_table crc ni ba limit = (r, ni')"
  shows "inst_step UNIV ni ni'"
proof -
  define n0 where "n0 = ni\<lparr>main_table_ba := 0, backup_table_ba := 0,
      info_table := (info_table ni)\<lparr>write_count := 0\<rparr>, mapping_blocks_top_ba := sub32 (signature_ba ni) 1,
      data_block_count := mgmt_start_pb (signature ni)\<rparr>"
  have i0: "inst_step UNIV ni n0" by (rule inst_same) (simp_all add: n0_def)
  obtain x n1 where s1: "nmbm_search_info_table crc n0 ba limit False = (x, n1)" by fastforce
  have i1: "inst_step UNIV ni n1" using i0 search_inst [OF s1] by (rule inst_trans)
  show ?thesis
  proof (cases x)
    case None
    with assms s1 i1 show ?thesis by (simp add: nmbm_load_info_table_def n0_def)
  next
    case (Some p)
    obtain ms me mwc mtop where p: "p = (ms, me, mwc, mtop)" by (metis prod.exhaust)
    obtain y n2 where s2: "nmbm_search_info_table crc (n1\<lparr>main_table_ba := ms\<rparr>) me limit True = (y, n2)"
      by fastforce
    have "inst_step UNIV n1 (n1\<lparr>main_table_ba := ms\<rparr>)" by (rule inst_same) simp_all
    with i1 search_inst [OF s2] have i2: "inst_step UNIV ni n2" by (blast intro: inst_trans)
    obtain bs te bwc btop where y: "(case y of None \<Rightarrow> (0, me, 0, 0) | Some b \<Rightarrow> b) = (bs, te, bwc, btop)"
      by (metis prod.exhaust)
    define n3 where "n3 = n2\<lparr>backup_table_ba := bs,
        mapping_blocks_top_ba := (if bs = 0 then mtop else if mwc \<ge> bwc then mtop else btop),
        mapping_blocks_ba := te\<rparr>"
    define n4 where "n4 = (case last_mapped (block_mapping n3) (mgmt_start_pb (signature n3)) of
                      None \<Rightarrow> n3 | Some i \<Rightarrow> n3\<lparr>data_block_count := i\<rparr>)"
    obtain c n5 where g: "nmbm_generate_info_table_cache crc n4 = (c, n5)" by fastforce
    have "inst_step UNIV n2 n4" by (rule inst_same) (simp_all add: n4_def n3_def split: option.split)
    with i2 generate_inst [OF g] have i5: "inst_step UNIV ni n5" by (blast intro: inst_trans)
    have "ni' = (if read_only n5 then n5 else restore_tables n5 mwc bwc)"
      using assms s1 Some p s2 y g [unfolded n4_def n3_def]
      by (cases y) (simp_all add: nmbm_load_info_table_def n0_def Let_def split: if_splits option.splits)
    with i5 restore_tables_inst [of n5] show ?thesis by (auto intro: inst_trans)
  qed
qed

lemma load_existing_inst:
  assumes "nmbm_load_existing crc ni = (r, ni')"
  shows "inst_step UNIV ni ni'"
proof -
  define n0 where "n0 = ni\<lparr>mgmt_start_ba := mgmt_start_pb (signature ni)\<rparr>"
  obtain s n1 where l: "nmbm_load_info_table crc n0 (mgmt_start_ba n0) (signature_ba n0) = (s, n1)" by fastforce
  have "inst_step UNIV ni n0" by (rule inst_same) (simp_all add: n0_def)
  with load_info_table_inst [OF l] have i1: "inst_step UNIV ni n1" by (blast intro: inst_trans)
  define n2 where "n2 = nmbm_build_mapping_table (nmbm_scan_badblocks n1)"
  have "inst_step UNIV (nmbm_scan_badblocks n1) n2"
  proof -
    obtain bm k where "n2 = (nmbm_scan_badblocks n1)\<lparr>block_mapping := bm, data_block_count := k\<rparr>"
      unfolding n2_def by (rule build_mapping_table_shape)
    then show ?thesis by (intro inst_same) simp_all
  qed
  with i1 inst_degrade [OF scan_badblocks_degrade] have i2: "inst_step UNIV ni n2" by (blast intro: inst_trans)
  obtain q n3 where c: "nmbm_create_info_table crc n2 = (q, n3)" by fastforce
  have i3: "inst_step UNIV ni n3" using i2 create_info_table_ok [OF c, of UNIV] by (blast intro: inst_trans)
  show ?thesis
    using assms l i1 i2 i3 c
    by (simp add: nmbm_load_existing_def n0_def Let_def n2_def split: if_splits)
qed

section \<open>The search for the signature\<close>

lemma find_signature_pages_spec:
  "find_signature_pages crc offs ni addr sig = (found, sig', ni') \<Longrightarrow>
     phys_step W ni ni' \<and> (\<forall>s. found = Some s \<longrightarrow> s = signature_of_bytes sig'
       \<and> nmbm_check_header crc sig' sizeof_signature \<and> magic (sig_header s) = NMBM_MAGIC_SIGNATURE)"
proof (induction offs arbitrary: ni sig)
  case (Cons off offs)
  obtain ret sig1 n1 where r: "nmbn_read_data ni (u64 (addr + off)) sig sizeof_signature = (ret, sig1, n1)"
    by (metis prod.exhaust)
  have "phys_step W ni n1" using r by (rule read_data_step)
  with Cons r show ?case by (fastforce split: if_splits intro: phys_step_trans)
qed simp

text \<open>With a positive lower limit the search returns, and what it returns is a checked signature.\<close>

lemma find_signature_loop_returns:
  assumes "0 < limit" and "ba < 2 ^ 32"
  shows "\<exists>r ni'. find_signature_loop crc ni ba limit sig = Some (r, ni') \<and> phys_step W ni ni'
    \<and> (\<forall>s b. r = Some (s, b) \<longrightarrow> limit \<le> Suc b \<and> b < ba \<and> magic (sig_header s) = NMBM_MAGIC_SIGNATURE
        \<and> (\<exists>bs. s = signature_of_bytes bs \<and> nmbm_check_header crc bs sizeof_signature))"
  using assms
proof (induction ba arbitrary: ni sig)
  case 0
  then show ?case by (simp add: find_signature_loop.simps [of crc ni 0])
next
  case (Suc ba)
  show ?case
  proof (cases "Suc ba \<ge> limit")
    case False
    then show ?thesis by (simp add: find_signature_loop.simps [of crc ni "Suc ba"])
  next
    case True
    have pred: "sub32 (Suc ba) 1 = ba" by (simp add: sub32_def)
    obtain bad n1 where c: "nmbm_check_bad_phys_block ni ba = (bad, n1)" by fastforce
    have s1: "phys_step W ni n1" using c by (rule check_bad_phys_block_step)
    obtain f sig1 n2 where p: "find_signature_pages crc (page_offs n1) n1 (ba2addr n1 ba) sig = (f, sig1, n2)"
      by (metis prod.exhaust)
    note ps = find_signature_pages_spec [OF p, of W]
    have s2: "phys_step W ni n2" using s1 ps by (blast intro: phys_step_trans)
    note eq = find_signature_loop.simps [of crc ni "Suc ba" limit sig, unfolded pred c]
    have lt: "ba < 2 ^ 32" using Suc.prems(2) by simp
    consider "bad" | "\<not> bad" "f = None" | s where "\<not> bad" "f = Some s" by (cases f) auto
    then show ?thesis
    proof cases
      case 1
      from Suc.IH [OF Suc.prems(1) lt, of n1 sig] 1 True s1 show ?thesis
        by (simp add: eq) (blast intro: phys_step_trans less_SucI)
    next
      case 2
      from Suc.IH [OF Suc.prems(1) lt, of n2 sig1] 2 True s2 p show ?thesis
        by (simp add: eq) (blast intro: phys_step_trans less_SucI)
    next
      case (3 s)
      with True p s2 ps show ?thesis by (auto simp: eq)
    qed
  qed
qed

end
