(* ===== verification/Nmbm_Attach.thy ===== *)
theory Nmbm_Attach
  imports Nmbm_Load
begin

text \<open>
  What a successful check of the lower device and the layout of the instance establish:
  \<open>inst_wf\<close> says that the tables have room for every block and fit into the info table image. It
  carries the round trip of the info tables: the image that
  \<^verbatim>\<open>nmbm_generate_info_table_cache\<close> builds passes the checks of \<^verbatim>\<open>nmbm_try_load_info_table\<close> and
  gives back the two tables. The end of the theory is about attaching as a whole.
\<close>

unbundle bit_operations_syntax

section \<open>Powers of two\<close>

lemma is_power_of_2_iff: "is_power_of_2_u64 n \<longleftrightarrow> (\<exists>k. n = 2 ^ k)"
proof
  show "is_power_of_2_u64 n \<Longrightarrow> \<exists>k. n = 2 ^ k"
  proof (induction n rule: less_induct)
    case (less n)
    then have n: "n \<noteq> 0" "n AND (n - 1) = 0" by (simp_all add: is_power_of_2_u64_def)
    show ?case
    proof (cases "even n")
      case True
      then obtain m where m: "n = 2 * m" by (elim evenE)
      then have "(n - 1) div 2 = m - 1" by (cases m) simp_all
      with m n have "m AND (m - 1) = 0" using and_rec [of n "n - 1"] by auto
      with m n(1) less.IH [of m] obtain k where "m = 2 ^ k" by (auto simp: is_power_of_2_u64_def)
      with m have "n = 2 ^ Suc k" by simp
      then show ?thesis by blast
    next
      case False
      then obtain m where m: "n = 2 * m + 1" by (elim oddE)
      with n(2) and_rec [of n "n - 1"] have "m = 0" by simp
      with m have "n = 2 ^ 0" by simp
      then show ?thesis by blast
    qed
  qed
next
  assume "\<exists>k. n = 2 ^ k"
  then obtain k where "n = 2 ^ k" by blast
  moreover have "(2::nat) ^ k AND (2 ^ k - 1) = 0"
    using take_bit_eq_mask [of k "2 ^ k :: nat"] by (simp add: mask_eq_exp_minus_1 take_bit_eq_mod)
  ultimately show "is_power_of_2_u64 n" by (simp add: is_power_of_2_u64_def)
qed

lemma ffs_power: "ffs (2 ^ k) - Suc 0 = k"
proof -
  have "ctz (2 ^ k) = k" 
  proof (induction k)
    case (Suc k)
    then show ?case by (simp add: ctz.simps [of "2 * 2 ^ k"])
  qed (simp add: ctz.simps [of "Suc 0"])
  then show ?thesis by (simp add: ffs_def)
qed

lemma and_not_mask_word: "(x :: 32 word) AND NOT (mask k) = push_bit k (drop_bit k x)"
  by (rule bit_eqI) (auto simp: bit_simps dest: bit_imp_le_length)

lemma NMBM_ALIGN_eq:
  assumes "v + 2 ^ k < 2 ^ 32"
  shows "NMBM_ALIGN v (2 ^ k) = (v + 2 ^ k - 1) div 2 ^ k * 2 ^ k"
proof -
  define n :: nat where "n = v + 2 ^ k - 1"
  have "1 \<le> v + (2 :: nat) ^ k" by (simp add: Suc_leI)
  with assms have n: "n < 2 ^ 32" "sub32 (u32 (v + 2 ^ k)) 1 = n"
    by (simp_all add: n_def u32_id sub32_def)
  have "word_of_nat (sub32 (2 ^ k) 1) = (mask k :: 32 word)"
    using of_nat_mask_eq [of k, where 'a = "32 word"] by (simp add: sub32_def mask_eq_exp_minus_1)
  then have "NMBM_ALIGN v (2 ^ k) = unat (push_bit k (drop_bit k (word_of_nat n :: 32 word)))"
    unfolding NMBM_ALIGN_def n(2) by (simp add: and_not_mask_word)
  also have "\<dots> = take_bit 32 (push_bit k (drop_bit k (take_bit 32 n)))"
    by (simp add: unsigned_push_bit_eq unsigned_drop_bit_eq unsigned_of_nat)
  also have "take_bit 32 n = n" using n(1) by (simp add: take_bit_nat_eq_self_iff)
  also have "push_bit k (drop_bit k n) = n div 2 ^ k * 2 ^ k" by (simp add: push_bit_eq_mult drop_bit_eq_div)
  also have "take_bit 32 (n div 2 ^ k * 2 ^ k) = n div 2 ^ k * 2 ^ k"
    using le_less_trans [OF div_times_less_eq_dividend n(1), of "2 ^ k"]
    by (simp only: take_bit_nat_eq_self_iff)
  finally show ?thesis by (simp add: n_def)
qed

lemma NMBM_ALIGN_bounds:
  assumes "v + 2 ^ k < 2 ^ 32"
  shows "v \<le> NMBM_ALIGN v (2 ^ k)" "NMBM_ALIGN v (2 ^ k) < v + 2 ^ k"
proof -
  have "(v + 2 ^ k - 1) div 2 ^ k * 2 ^ k + (v + 2 ^ k - 1) mod 2 ^ k = v + 2 ^ k - 1"
    by (rule div_mult_mod_eq)
  moreover have "(v + 2 ^ k - 1) mod 2 ^ k < (2 :: nat) ^ k" by simp
  moreover have "0 < (2 :: nat) ^ k" by simp
  ultimately show "v \<le> NMBM_ALIGN v (2 ^ k)" "NMBM_ALIGN v (2 ^ k) < v + 2 ^ k"
    unfolding NMBM_ALIGN_eq [OF assms] by linarith+
qed

section \<open>The well-formed instance\<close>

definition inst_wf :: "'d nmbm_instance \<Rightarrow> bool" where
  "inst_wf ni \<longleftrightarrow>
     erasesize (lower ni) = 2 ^ erasesize_shift ni \<and> writesize (lower ni) = 2 ^ writesize_shift ni
     \<and> writesize_mask ni = writesize (lower ni) - 1 \<and> erasesize_mask ni = erasesize (lower ni) - 1
     \<and> rawpage_size ni = writesize (lower ni) + oobsize (lower ni)
     \<and> length (page_cache ni) = rawpage_size ni
     \<and> block_count ni < 2 ^ 31 \<and> length (block_mapping ni) = block_count ni
     \<and> block_count ni \<le> table_cap (block_state ni)
     \<and> state_table_size ni = 4 * length (block_state ni) \<and> mapping_table_size ni = 4 * block_count ni
     \<and> 32 \<le> state_table_off (info_table ni)
     \<and> state_table_off (info_table ni) + state_table_size ni \<le> mapping_table_off (info_table ni)
     \<and> mapping_table_off (info_table ni) + mapping_table_size ni \<le> info_table_size ni
     \<and> info_table_size ni < 2 ^ 32 \<and> length (info_table_cache ni) = info_table_size ni"

definition geometry_ok :: "'d nmbm_lower_device \<Rightarrow> bool" where
  "geometry_ok nld \<longleftrightarrow> erasesize nld \<le> 2 ^ 30 \<and> writesize nld \<le> 2 ^ 24 \<and> oobsize nld \<le> 2 ^ 24
     \<and> nld_size nld div erasesize nld \<le> 2 ^ 24"

lemma state_bytes_eq: "n \<le> 2 ^ 24 \<Longrightarrow> state_bytes n = (n + 15) div 16 * 4"
proof -
  assume n: "n \<le> 2 ^ 24"
  then have "(n + 15) div 16 \<le> (2 ^ 24 + 15) div 16" by (intro div_le_mono) simp
  then have "(n + 15) div 16 * 4 < 2 ^ 32" by simp
  with n show ?thesis by (simp add: state_bytes_def u32_id sub32_def)
qed

lemma init_structure_wf:
  assumes "nmbm_check_lower_members nld0 = (True, nld)" and "geometry_ok nld"
  shows "inst_wf (nmbm_init_structure (ni\<lparr>lower := nld\<rparr>))"
    and "block_count (nmbm_init_structure (ni\<lparr>lower := nld\<rparr>)) = nld_size nld div erasesize nld"
proof -
  obtain e w where ew: "erasesize nld = 2 ^ e" "writesize nld = 2 ^ w"
    using assms(1) unfolding nmbm_check_lower_members_def Let_def
    by (auto simp: is_power_of_2_iff split: if_splits)
  define bc where "bc = nld_size nld div erasesize nld"
  have bc: "bc \<le> 2 ^ 24" using assms(2) by (simp add: geometry_ok_def bc_def)
  have w: "(2::nat) ^ w \<le> 2 ^ 24" and e: "(2::nat) ^ e \<le> 2 ^ 30" and o: "oobsize nld \<le> 2 ^ 24"
    using assms(2) ew by (simp_all add: geometry_ok_def)
  define sb where "sb = (bc + 15) div 16 * 4"
  have sb: "state_bytes bc = sb" "sb \<le> bc + 15" "4 * bc \<le> 16 * sb" "sb = 4 * (sb div 4)"
    using state_bytes_eq [OF bc] by (auto simp: sb_def)
  have sz: "32 + 2 ^ w < (2::nat) ^ 32" "sb + 2 ^ w < 2 ^ 32" "bc * 4 + 2 ^ w < 2 ^ 32"
    using w bc sb(2) by simp_all
  note al = NMBM_ALIGN_bounds [OF sz(1)] NMBM_ALIGN_bounds [OF sz(2)] NMBM_ALIGN_bounds [OF sz(3)]
  let ?n = "nmbm_init_structure (ni\<lparr>lower := nld\<rparr>)"
  have u: "u32 (NMBM_ALIGN 32 (2 ^ w) + NMBM_ALIGN sb (2 ^ w)) = NMBM_ALIGN 32 (2 ^ w) + NMBM_ALIGN sb (2 ^ w)"
    "u32 (NMBM_ALIGN 32 (2 ^ w) + NMBM_ALIGN sb (2 ^ w) + NMBM_ALIGN (bc * 4) (2 ^ w))
       = NMBM_ALIGN 32 (2 ^ w) + NMBM_ALIGN sb (2 ^ w) + NMBM_ALIGN (bc * 4) (2 ^ w)"
    using al w bc sb(2) by (auto intro!: u32_id)
  have b: "u32 (nld_size nld div 2 ^ e) = bc" "u32 (bc * 4) = bc * 4" "u32 (2 ^ w + oobsize nld) = 2 ^ w + oobsize nld"
    using bc w o ew by (simp_all add: bc_def u32_id)
  have f: "erasesize_shift ?n = e" "writesize_shift ?n = w" "writesize_mask ?n = 2 ^ w - 1"
    "erasesize_mask ?n = 2 ^ e - 1" "rawpage_size ?n = 2 ^ w + oobsize nld" "lower ?n = nld"
    "length (page_cache ?n) = 2 ^ w + oobsize nld" "block_count ?n = bc" "length (block_mapping ?n) = bc"
    "length (block_state ?n) = sb div 4" "state_table_size ?n = sb" "mapping_table_size ?n = bc * 4"
    "state_table_off (info_table ?n) = NMBM_ALIGN 32 (2 ^ w)"
    "mapping_table_off (info_table ?n) = NMBM_ALIGN 32 (2 ^ w) + NMBM_ALIGN sb (2 ^ w)"
    "info_table_size ?n = NMBM_ALIGN 32 (2 ^ w) + NMBM_ALIGN sb (2 ^ w) + NMBM_ALIGN (bc * 4) (2 ^ w)"
    "length (info_table_cache ?n) = NMBM_ALIGN 32 (2 ^ w) + NMBM_ALIGN sb (2 ^ w) + NMBM_ALIGN (bc * 4) (2 ^ w)"
    by (simp_all add: nmbm_init_structure_def Let_def ew ffs_power sub32_def b u sb(1))
  show "block_count ?n = nld_size nld div erasesize nld" by (simp add: f bc_def)
  have dvd: "4 * (sb div 4) = sb" using sb(4) by simp
  have "bc \<le> 16 * (sb div 4)" using sb(3) dvd by simp
  then show "inst_wf ?n"
    unfolding inst_wf_def f ew table_cap_def using al dvd bc w sb(2) by simp
qed

section \<open>The round trip of the info tables\<close>

interpretation cw32: le_codec "\<lambda>w. le32 (unat w)" "\<lambda>bs. word_of_nat (get32 bs) :: 32 word" 4 "\<lambda>_. True"
proof unfold_locales
  show "word_of_nat (get32 (le32 (unat w))) = w" for w :: "32 word"
  proof -
    have "unat w < 2 ^ LENGTH(32)" by (rule unsigned_less)
    then show ?thesis by (simp add: get32_le32)
  qed
qed simp

lemma info_table_of_checksum_put:
  assumes "32 \<le> length data" and "c < 2 ^ 32"
  shows "info_table_of_bytes (memput data 12 (le32 c)) =
    (info_table_of_bytes data)\<lparr>ift_header := (ift_header (info_table_of_bytes data))\<lparr>checksum := c\<rparr>\<rparr>"
proof -
  have sub: "memget (memget d 0 16) o2 4 = memget d o2 4" if "o2 \<le> 12" for d :: "byte list" and o2
    using that by (simp add: memget_def drop_take min_def)
  have "header_of_bytes (memget d 0 16) = header_of_bytes d" for d
    by (simp add: header_of_bytes_def sub)
  then show ?thesis
    using assms header_of_checksum_put [of data c]
    by (simp add: info_table_of_bytes_def memget_memput_after)
qed

lemma length_update_checksum: "16 \<le> length data \<Longrightarrow> length (nmbm_update_checksum crc data) = length data"
  by (simp add: nmbm_update_checksum_def Let_def)

lemma memget_update_checksum:
  "16 \<le> length data \<Longrightarrow> 16 \<le> off \<Longrightarrow> memget (nmbm_update_checksum crc data) off n = memget data off n"
  by (simp add: nmbm_update_checksum_def Let_def memget_memput_after)

lemma info_table_of_update_checksum:
  assumes "32 \<le> length data"
  obtains c where "info_table_of_bytes (nmbm_update_checksum crc data) =
    (info_table_of_bytes data)\<lparr>ift_header := (ift_header (info_table_of_bytes data))\<lparr>checksum := c\<rparr>\<rparr>"
proof -
  define d where "d = memput data 12 (le32 0)"
  define c where "c = unat (nmbm_crc32 crc 0 (take (hdr_size (header_of_bytes d)) d))"
  have c: "c < 2 ^ 32" unfolding c_def using unsigned_less [of "nmbm_crc32 crc 0 (take (hdr_size (header_of_bytes d)) d)"] by simp
  have "nmbm_update_checksum crc data = memput d 12 (le32 c)"
    by (simp add: nmbm_update_checksum_def Let_def d_def c_def)
  with that assms c show ?thesis by (simp add: d_def info_table_of_checksum_put)
qed

text \<open>What the fields of an instance must satisfy to fit their places on flash.\<close>

definition tables_fit :: "'d nmbm_instance \<Rightarrow> bool" where
  "tables_fit ni \<longleftrightarrow> list_all (\<lambda>x. - (2 ^ 31) \<le> x \<and> x < 2 ^ 31) (block_mapping ni)
     \<and> write_count (info_table ni) < 2 ^ 32 \<and> ift_padding (info_table ni) < 2 ^ 32
     \<and> checksum (ift_header (info_table ni)) < 2 ^ 32"

lemma NMBM_VER_value: "NMBM_VER = 1"
  by (simp add: NMBM_VER_def NMBM_VERSION_MAKE_def)

lemma generate_round_trip:
  assumes g: "nmbm_generate_info_table_cache crc ni = (c, ni')" and wf: "inst_wf ni"
    and fit: "tables_fit ni" and crc: "crc_chains crc"
  shows "length (info_table_cache ni') = info_table_size ni"
    and "nmbm_check_info_table_header ni' (info_table_cache ni')"
    and "nmbm_check_header crc (info_table_cache ni') (info_table_size ni)"
    and "table_states (info_table_cache ni') (state_table_off (info_table_of_bytes (info_table_cache ni')))
           (state_table_size ni) = block_state ni"
    and "table_mapping (info_table_cache ni') (mapping_table_off (info_table_of_bytes (info_table_cache ni')))
           (mapping_table_size ni) = block_mapping ni"
    and "write_count (info_table_of_bytes (info_table_cache ni')) =
           u32 (write_count (info_table ni) + (if clean ni then 0 else 1))"
proof -
  define so mo sz where "so = state_table_off (info_table ni)" and "mo = mapping_table_off (info_table ni)"
    and "sz = info_table_size ni"
  let ?S = "enc_array (\<lambda>w. le32 (unat w)) (block_state ni)" and ?M = "enc_array les32 (block_mapping ni)"
  have len: "length ?S = state_table_size ni" "length ?M = mapping_table_size ni"
    using wf by (simp_all add: cw32.length_enc_array cs32.length_enc_array inst_wf_def)
  have cnt: "state_table_size ni div 4 = length (block_state ni)"
    "mapping_table_size ni div 4 = length (block_mapping ni)"
    using wf by (simp_all add: inst_wf_def)
  have b: "32 \<le> so" "so + state_table_size ni \<le> mo" "mo + mapping_table_size ni \<le> sz" "sz < 2 ^ 32"
    "length (info_table_cache ni) = sz"
    using wf by (simp_all add: inst_wf_def so_def mo_def sz_def)
  define it where "it = (info_table ni)\<lparr>ift_header := (ift_header (info_table ni))\<lparr>magic := NMBM_MAGIC_INFO_TABLE,
      version := NMBM_VER, hdr_size := sz\<rparr>, write_count := u32 (write_count (info_table ni) + (if clean ni then 0 else 1))\<rparr>"
  define c1 where "c1 = memput (replicate sz 0xff) so ?S"
  define c2 where "c2 = memput c1 mo ?M"
  define c3 where "c3 = memput c2 0 (info_table_bytes it)"
  have l: "length c1 = sz" "length c2 = sz" "length c3 = sz"
    using b len by (simp_all add: c1_def c2_def c3_def)
  have ni': "ni' = ni\<lparr>info_table_cache := nmbm_update_checksum crc c3, info_table := it\<rparr>"
  proof -
    have cache: "memput (info_table_cache ni) 0 (replicate sz 0xff) = replicate sz 0xff"
      using b(5) by (simp add: memput_def)
    have wc: "u32 (write_count (info_table ni)) = write_count (info_table ni)"
      using fit by (simp add: tables_fit_def u32_id)
    show ?thesis
      using g cache wc len
      by (auto simp: nmbm_generate_info_table_cache_def Let_def c1_def c2_def c3_def it_def clean_def
          so_def mo_def sz_def)
  qed
  have fits: "info_table_fits it"
    using fit b by (simp add: info_table_fits_def header_fits_def it_def tables_fit_def NMBM_VER_value so_def [symmetric] mo_def [symmetric])
  have it3: "info_table_of_bytes c3 = it"
  proof -
    have "take 32 c3 = info_table_bytes it" using b l by (simp add: c3_def memput_def)
    moreover have "info_table_of_bytes c3 = info_table_of_bytes (take 32 c3)"
      by (simp add: info_table_of_bytes_def memget_def drop_take)
    ultimately show ?thesis using info_table.dec_enc [OF fits] by simp
  qed
  obtain k where k: "info_table_of_bytes (info_table_cache ni') = it\<lparr>ift_header := (ift_header it)\<lparr>checksum := k\<rparr>\<rparr>"
    using info_table_of_update_checksum [of c3 crc] b l it3 by (auto simp: ni')
  show "length (info_table_cache ni') = info_table_size ni"
    using b l by (simp add: ni' length_update_checksum sz_def)
  show "nmbm_check_info_table_header ni' (info_table_cache ni')"
    unfolding nmbm_check_info_table_header_def k Let_def
    using b by (auto simp: ni' it_def so_def mo_def sz_def sub32_def)
  have "ift_header (info_table_of_bytes c3) = header_of_bytes (take 16 c3)"
    by (simp add: info_table_of_bytes_def memget_def)
  moreover have "header_of_bytes (take 16 c3) = header_of_bytes c3"
    by (simp add: header_of_bytes_def memget_def drop_take)
  ultimately have "header_of_bytes c3 = ift_header it" using it3 by simp
  then have "hdr_size (header_of_bytes c3) = sz" by (simp add: it_def)
  then show "nmbm_check_header crc (info_table_cache ni') (info_table_size ni)"
    using b l check_header_update_checksum [OF crc, of sz c3 sz] by (simp add: ni' sz_def [symmetric])
  have "memget (info_table_cache ni') so (state_table_size ni) = ?S"
    using b l len by (simp add: ni' memget_update_checksum c3_def c2_def c1_def memget_memput_after
        memget_memput_before memget_memput_same)
  then show "table_states (info_table_cache ni') (state_table_off (info_table_of_bytes (info_table_cache ni')))
           (state_table_size ni) = block_state ni"
    using cw32.dec_enc_array [of "block_state ni" "[]"] cnt
    by (simp add: table_states_def k it_def so_def [symmetric] list_all_iff)
  have "memget (info_table_cache ni') mo (mapping_table_size ni) = ?M"
    using b l len by (simp add: ni' memget_update_checksum c3_def c2_def memget_memput_after
        memget_memput_before memget_memput_same)
  then show "table_mapping (info_table_cache ni') (mapping_table_off (info_table_of_bytes (info_table_cache ni')))
           (mapping_table_size ni) = block_mapping ni"
    using cs32.dec_enc_array [of "block_mapping ni" "[]"] cnt fit
    by (simp add: table_mapping_def k it_def mo_def [symmetric] tables_fit_def)
  show "write_count (info_table_of_bytes (info_table_cache ni')) =
           u32 (write_count (info_table ni) + (if clean ni then 0 else 1))"
    by (simp add: k it_def)
qed

section \<open>Attaching\<close>

lemma check_lower_members_ratio:
  assumes "nmbm_check_lower_members nld0 = (True, nld)"
  shows "1 \<le> max_ratio nld \<and> max_ratio nld \<le> 14" "flags nld = flags nld0" "read_page nld \<noteq> None"
  using assms unfolding nmbm_check_lower_members_def Let_def by (auto split: if_splits)

lemma signature_limit_pos:
  assumes "1 \<le> max_ratio (lower ni)" and "max_ratio (lower ni) \<le> 14" and "16 \<le> n" and "n < 2 ^ 32"
  shows "0 < signature_limit ni n"
proof -
  define l where "l = n div 16 * (16 - max_ratio (lower ni))"
  have "l \<le> n div 16 * 16" unfolding l_def by simp
  then have l: "l \<le> n" "u32 l = l" using assms(4) by (simp_all add: u32_id)
  have "0 < n div 16" "0 < 16 - max_ratio (lower ni)" using assms by (simp_all add: div_greater_zero_iff)
  then have "0 < l" by (simp add: l_def)
  with l assms show ?thesis
    by (auto simp: signature_limit_def Let_def sub32_def l_def [symmetric])
qed

lemma init_structure_inst: "lower (nmbm_init_structure ni) = lower ni"
  by (simp add: nmbm_init_structure_def Let_def)

lemma find_signature_inst:
  assumes "nmbm_find_signature crc ni = Some (r, ni')"
    and "0 < signature_limit ni (u32 (nld_size (lower ni) div 2 ^ erasesize_shift ni))"
  shows "inst_step W ni ni'"
  using find_signature_loop_returns [OF assms(2), of "u32 (nld_size (lower ni) div 2 ^ erasesize_shift ni)"
      crc ni "replicate 48 0" W] assms(1)
  unfolding nmbm_find_signature_def Let_def by (auto intro: inst_phys simp: u32_def)

text \<open>
  An attach that finds at least 16 blocks returns, with one of four results, and has moved the
  device only by \<open>dev_reach\<close>.
\<close>

lemma attach_spec:
  assumes "nmbm_check_lower_members nld0 = (True, nld)" and "geometry_ok nld"
    and "16 \<le> nld_size nld div erasesize nld"
  obtains ret ni' where "nmbm_attach crc nld0 ni = Some (ret, nld, ni')"
    and "ret \<in> {0, - EINVAL, - ENODEV}"
    and "inst_step UNIV (nmbm_init_structure (ni\<lparr>log_display_level := NMBM_LOG_INFO, lower := nld\<rparr>)) ni'"
proof -
  define n0 where "n0 = nmbm_init_structure (ni\<lparr>log_display_level := NMBM_LOG_INFO, lower := nld\<rparr>)"
  have wf: "inst_wf n0" "block_count n0 = nld_size nld div erasesize nld"
    using init_structure_wf [OF assms(1,2), of "ni\<lparr>log_display_level := NMBM_LOG_INFO\<rparr>"]
    by (simp_all add: n0_def)
  have low: "lower n0 = nld" by (simp add: n0_def init_structure_inst)
  define bc where "bc = u32 (nld_size nld div 2 ^ erasesize_shift n0)"
  have "2 ^ erasesize_shift n0 = erasesize nld" using wf(1) low by (simp add: inst_wf_def)
  then have bc: "bc = block_count n0" "16 \<le> bc" "bc < 2 ^ 32"
    using wf assms(3) by (simp_all add: bc_def inst_wf_def u32_id)
  have lim: "0 < signature_limit n0 bc"
    using bc check_lower_members_ratio [OF assms(1)] low by (intro signature_limit_pos) simp_all
  from find_signature_loop_returns [OF lim bc(3), of crc n0 "replicate 48 0" UNIV]
  obtain r n1 where fs: "nmbm_find_signature crc n0 = Some (r, n1)" and p1: "phys_step UNIV n0 n1"
    by (auto simp: nmbm_find_signature_def Let_def bc_def low)
  have i1: "inst_step UNIV n0 n1" using p1 by (rule inst_phys)
  show thesis
  proof (cases r)
    case None
    obtain s n2 where c: "nmbm_create_new crc n1 = (s, n2)" by fastforce
    have "inst_step UNIV n0 n2" using i1 create_new_ok [OF c, of UNIV] by (blast intro: inst_trans)
    moreover have "nmbm_attach crc nld0 ni = (if lower_flag nld NMBM_F_CREATE
        then Some (if s then 0 else - ENODEV, nld, n2) else Some (- ENODEV, nld, n1))"
      using assms(1) fs None c by (simp add: nmbm_attach_def n0_def)
    ultimately show thesis
      using that [of "- ENODEV" n1, folded n0_def] that [of "if s then 0 else - ENODEV" n2, folded n0_def] i1
      by (cases "lower_flag nld NMBM_F_CREATE"; cases s) simp_all
  next
    case (Some q)
    obtain sig ba where q: "q = (sig, ba)" by fastforce
    define n2 where "n2 = n1\<lparr>signature := sig, signature_ba := ba\<rparr>"
    have "inst_step UNIV n1 n2" by (rule inst_same) (simp_all add: n2_def)
    with i1 have i2: "inst_step UNIV n0 n2" by (rule inst_trans)
    obtain s n3 where c: "nmbm_load_existing crc n2 = (s, n3)" by fastforce
    have i3: "inst_step UNIV n0 n3" using i2 load_existing_inst [OF c] by (rule inst_trans)
    have "nmbm_attach crc nld0 ni = (if version (sig_header sig) \<noteq> NMBM_VER
          \<or> nand_size sig \<noteq> nld_size nld \<or> block_size sig \<noteq> erasesize nld
          \<or> page_size sig \<noteq> writesize nld \<or> spare_size sig \<noteq> oobsize nld
        then Some (- EINVAL, nld, n2) else Some (if s then 0 else - ENODEV, nld, n3))"
      using assms(1) fs Some q c by (simp add: nmbm_attach_def n0_def n2_def Let_def)
    with that [of "- EINVAL" n2, folded n0_def] that [of "if s then 0 else - ENODEV" n3, folded n0_def] i2 i3 show thesis
      by (cases s) (simp_all split: if_splits)
  qed
qed

text \<open>A chip that reports every block bad is searched below block zero and for ever.\<close>

lemma find_signature_loop_bad_chip:
  assumes "find_signature_loop crc ni ba limit sig = Some y"
  shows "limit = 0 \<and> is_bad_block (lower ni) = Some (\<lambda>d a. (1, d)) \<longrightarrow> False"
proof (rule find_signature_loop.raw_induct [OF _ assms,
      where P = "\<lambda>crc ni ba limit sig y. limit = 0 \<and> is_bad_block (lower ni) = Some (\<lambda>d a. (1, d)) \<longrightarrow> False"],
    intro impI, elim conjE)
  fix loop :: "crc_fn \<Rightarrow> 'a nmbm_instance \<Rightarrow> nat \<Rightarrow> nat \<Rightarrow> byte list
      \<Rightarrow> ((nmbm_signature \<times> nat) option \<times> 'a nmbm_instance) option" and crc ni ba limit sig y
  assume IH: "\<And>crc ni ba limit sig y. loop crc ni ba limit sig = Some y \<Longrightarrow>
      limit = 0 \<and> is_bad_block (lower ni) = Some (\<lambda>d a. (1, d)) \<longrightarrow> False"
    and l: "limit = 0" and bad: "is_bad_block (lower ni) = Some (\<lambda>d a. (1, d))"
    and run: "(if limit \<le> ba then
        case nmbm_check_bad_phys_block ni (sub32 ba 1) of (bad, ni1) \<Rightarrow>
          if bad then loop crc ni1 (sub32 ba 1) limit sig
          else case find_signature_pages crc (page_offs ni1) ni1 (ba2addr ni1 (sub32 ba 1)) sig of
              (found, sig1, ni2) \<Rightarrow>
                (case found of None \<Rightarrow> loop crc ni2 (sub32 ba 1) limit sig1
                 | Some s \<Rightarrow> Some (Some (s, sub32 ba 1), ni2))
      else Some (None, ni)) = Some y"
  from bad have "nmbm_check_bad_phys_block ni b = (True, ni)" for b
    by (simp add: nmbm_check_bad_phys_block_def Let_def set_arg_def)
  with run l have "loop crc ni (sub32 ba 1) 0 sig = Some y" by simp
  with IH bad show False by blast
qed

end
