(* ===== verification/Nmbm_Logic.thy ===== *)
theory Nmbm_Logic
  imports Nmbm_Attach
begin

text \<open>
  The operations on logic blocks that NMBM offers to its users: erase, read, write, bad-block query
  and marking (\<^verbatim>\<open>nmbm-core.c\<close>, lines 2400 to 2934). Erasing remaps a bad block and starts over; it
  ends because every remapping lowers the top of the spare blocks. Results are the C return values:
  zero, a positive number of bit flips, or a negated error number.
\<close>

unbundle bit_operations_syntax

section \<open>Erasing\<close>

text \<open>
  One pass of \<^verbatim>\<open>nmbm_erase_logic_block\<close> up to the label \<^verbatim>\<open>remap_logic_block\<close>: true when the
  physical block has been erased, false when it has to be replaced.
\<close>

definition erase_mapped_block :: "'d nmbm_instance \<Rightarrow> nat \<Rightarrow> bool \<times> 'd nmbm_instance" where
  "erase_mapped_block ni pb =
     (if nmbm_get_block_state ni pb = BLOCK_ST_BAD \<or> nmbm_get_block_state ni pb = BLOCK_ST_NEED_REMAP
      then (False, ni)
      else
        let (bad, ni) = nmbm_check_bad_phys_block ni pb in
        if bad then (False, snd (nmbm_set_block_state ni pb BLOCK_ST_BAD))
        else
          let (success, ni) = nmbm_erase_block_and_check ni pb in
          if success then (True, ni) else (False, skip_bad_block ni pb))"

text \<open>\<^verbatim>\<open>if (state != BLOCK_ST_NEED_REMAP) nmbm_set_block_state(ni, pb, BLOCK_ST_BAD)\<close>, then the update.\<close>

definition retire_block :: "crc_fn \<Rightarrow> 'd nmbm_instance \<Rightarrow> nat \<Rightarrow> 'd nmbm_instance" where
  "retire_block crc ni pb =
     (let ni = (if nmbm_get_block_state ni pb \<noteq> BLOCK_ST_NEED_REMAP
                then snd (nmbm_set_block_state ni pb BLOCK_ST_BAD) else ni)
      in snd (nmbm_update_info_table crc ni))"

lemma erase_mapped_block_degrade:
  assumes "erase_mapped_block ni pb = (r, ni')" and "blk_addrs ni pb \<subseteq> W"
  shows "degrade W ni ni'"
proof -
  obtain bad n1 where c: "nmbm_check_bad_phys_block ni pb = (bad, n1)" by fastforce
  obtain s n2 where e: "nmbm_erase_block_and_check n1 pb = (s, n2)" by fastforce
  have p1: "phys_step W ni n1" using c by (rule check_bad_phys_block_step)
  have p2: "phys_step W ni n2"
    using assms(2) p1 by (intro phys_step_trans [OF p1] erase_block_and_check_step [OF e]) simp
  have "degrade W ni (skip_bad_block n2 pb)"
    using assms(2) p2 by (intro degrade_trans [OF degrade_phys [OF p2]] skip_bad_block_degrade) simp
  moreover have "degrade W ni (snd (nmbm_set_block_state n1 pb BLOCK_ST_BAD))"
    by (rule degrade_trans [OF degrade_phys [OF p1] degrade_set_bad_snd])
  ultimately show ?thesis
    using assms(1) c e degrade_phys [OF p2] by (auto simp: erase_mapped_block_def split: if_splits)
qed

lemma retire_block_ok:
  assumes "confined W ni"
  shows "table_ok W ni (retire_block crc ni pb)"
proof -
  define n1 where "n1 = (if nmbm_get_block_state ni pb \<noteq> BLOCK_ST_NEED_REMAP
                then snd (nmbm_set_block_state ni pb BLOCK_ST_BAD) else ni)"
  have "degrade W ni n1" by (simp add: n1_def degrade_set_bad_snd)
  then have t1: "table_ok W ni n1" using assms by (rule table_ok_degrade)
  obtain u n2 where u: "nmbm_update_info_table crc n1 = (u, n2)" by fastforce
  have "table_ok W n1 n2" using update_info_table_ok [OF u table_okD(1) [OF t1]] by blast
  with t1 u show ?thesis by (auto simp: retire_block_def n1_def Let_def intro: table_ok_trans)
qed

function nmbm_erase_logic_block :: "crc_fn \<Rightarrow> 'd nmbm_instance \<Rightarrow> nat \<Rightarrow> int \<times> 'd nmbm_instance" where
  "nmbm_erase_logic_block crc ni block_addr =
     (if rd (-1) (block_mapping ni) block_addr < 0 then (- EIO, ni)
      else
        case erase_mapped_block ni (nat (rd (-1) (block_mapping ni) block_addr)) of
          (True, ni1) \<Rightarrow> (0, ni1)
        | (False, ni1) \<Rightarrow>
            (case nmbm_map_block crc ni1 block_addr of
               (False, ni2) \<Rightarrow>
                 (- EIO, retire_block crc (ni2\<lparr>block_mapping := (block_mapping ni2)[block_addr := -1]\<rparr>)
                           (nat (rd (-1) (block_mapping ni) block_addr)))
             | (True, ni2) \<Rightarrow>
                 nmbm_erase_logic_block crc
                   (retire_block crc ni2 (nat (rd (-1) (block_mapping ni) block_addr))) block_addr))"
  by pat_completeness auto
termination
proof (relation "measure (\<lambda>(crc, ni, block_addr). mapping_blocks_top_ba ni)")
  fix crc :: crc_fn and ni ni1 ni2 :: "'d nmbm_instance" and block_addr r1 r2
  let ?pb = "nat (rd (-1) (block_mapping ni) block_addr)"
  assume e: "(r1, ni1) = erase_mapped_block ni ?pb" and m: "(r2, ni2) = nmbm_map_block crc ni1 block_addr"
    and "r2 = True"
  have "mapping_blocks_top_ba ni1 = mapping_blocks_top_ba ni"
    using degrade_tables [OF erase_mapped_block_degrade [OF e [symmetric], of UNIV]] by simp
  moreover have "mapping_blocks_top_ba ni2 < mapping_blocks_top_ba ni1"
    using map_block_top_less m \<open>r2 = True\<close> by metis
  moreover have "mapping_blocks_top_ba (retire_block crc ni2 ?pb) = mapping_blocks_top_ba ni2"
    using table_step_keeps(2) [OF table_okD(2) [OF retire_block_ok [of UNIV]]] by simp
  ultimately show "((crc, retire_block crc ni2 ?pb, block_addr), crc, ni, block_addr)
      \<in> measure (\<lambda>(crc, ni, block_addr). mapping_blocks_top_ba ni)" by simp
qed simp

declare nmbm_erase_logic_block.simps [simp del]

fun erase_logic_blocks ::
    "crc_fn \<Rightarrow> nat list \<Rightarrow> 'd nmbm_instance \<Rightarrow> int \<times> nat option \<times> 'd nmbm_instance" where
  "erase_logic_blocks crc [] ni = (0, None, ni)"
| "erase_logic_blocks crc (ba # bas) ni =
     (let (ret, ni) = nmbm_erase_logic_block crc ni ba in
      if ret \<noteq> 0 then (ret, Some (ba2addr ni ba), ni) else erase_logic_blocks crc bas ni)"

text \<open>The checks that the range operations share, in the order of the code.\<close>

definition write_guard :: "'d nmbm_instance \<Rightarrow> nat \<Rightarrow> int option" where
  "write_guard ni addr =
     (if protected ni \<or> read_only ni then Some (- EROFS)
      else if addr \<ge> ba2addr ni (data_block_count ni) then Some (- EINVAL)
      else None)"

definition read_guard :: "'d nmbm_instance \<Rightarrow> nat \<Rightarrow> int option" where
  "read_guard ni addr =
     (if protected ni then Some (- EROFS)
      else if addr \<ge> ba2addr ni (data_block_count ni) then Some (- EINVAL)
      else None)"

text \<open>The second component is \<^verbatim>\<open>*failed_addr\<close> when it is written.\<close>

definition nmbm_erase_block_range ::
    "crc_fn \<Rightarrow> 'd nmbm_instance \<Rightarrow> nat \<Rightarrow> nat \<Rightarrow> int \<times> nat option \<times> 'd nmbm_instance" where
  "nmbm_erase_block_range crc ni addr sz =
     (case write_guard ni addr of
        Some err \<Rightarrow> (err, None, ni)
      | None \<Rightarrow>
          if u64 (addr + sz) > ba2addr ni (data_block_count ni) then (- EINVAL, None, ni)
          else if sz = 0 then (0, None, ni)
          else erase_logic_blocks crc
                 [addr2ba ni addr..<Suc (addr2ba ni (sub64 (u64 (addr + sz)) 1))] ni)"

section \<open>Reading\<close>

definition nmbm_read_logic_page ::
    "'d nmbm_instance \<Rightarrow> nat \<Rightarrow> buf \<Rightarrow> buf \<Rightarrow> nmbm_oob_mode \<Rightarrow> int \<times> buf \<times> buf \<times> 'd nmbm_instance" where
  "nmbm_read_logic_page ni addr data oob mode =
     (let lb = addr2ba ni addr;
          offset = addr AND erasesize_mask ni;
          pb = rd (-1) (block_mapping ni) lb
      in if pb < 0 then (- EIO, data, oob, ni)
         else if nmbm_get_block_state ni (nat pb) = BLOCK_ST_BAD then (- EIO, data, oob, ni)
         else nmbm_read_phys_page ni (u64 (ba2addr ni (nat pb) + offset)) data oob mode)"

definition nmbm_read_single_page ::
    "'d nmbm_instance \<Rightarrow> nat \<Rightarrow> buf \<Rightarrow> buf \<Rightarrow> nmbm_oob_mode \<Rightarrow> int \<times> buf \<times> buf \<times> 'd nmbm_instance" where
  "nmbm_read_single_page ni addr data oob mode =
     (case read_guard ni addr of
        Some err \<Rightarrow> (err, data, oob, ni)
      | None \<Rightarrow> nmbm_read_logic_page ni addr data oob mode)"

text \<open>
  The loop of \<^verbatim>\<open>nmbm_read_range\<close>. The result holds the last \<^verbatim>\<open>ret\<close>, the buffer, the remaining
  size, the flag for ECC errors and the largest number of bit flips. As in the other loops over
  pages, an empty chunk (page size zero) leaves the loop.
\<close>

function read_range_loop ::
    "'d nmbm_instance \<Rightarrow> nat \<Rightarrow> byte list \<Rightarrow> nat \<Rightarrow> nat \<Rightarrow> nmbm_oob_mode \<Rightarrow> int \<Rightarrow> bool \<Rightarrow> int
     \<Rightarrow> int \<times> byte list \<times> nat \<times> bool \<times> int \<times> 'd nmbm_instance" where
  "read_range_loop ni off data ptr sizeremain mode ret has_ecc_err max_bitflips =
     (if sizeremain = 0 then (ret, data, sizeremain, has_ecc_err, max_bitflips, ni)
      else
        let leading = off AND writesize_mask ni;
            chunksize = chunk_size ni off sizeremain in
        if chunksize = 0 then (- EFAULT, data, sizeremain, has_ecc_err, max_bitflips, ni)
        else if chunksize = writesize (lower ni) then
          let (ret, page, _, ni) = nmbm_read_logic_page ni (sub64 off leading)
                (Some (memget data ptr chunksize)) None mode;
              data = store_buf data ptr page
          in if ret < 0 \<and> ret \<noteq> - EBADMSG
             then (ret, data, sizeremain, has_ecc_err, max_bitflips, ni)
             else read_range_loop ni (u64 (off + chunksize)) data (ptr + chunksize)
                    (sizeremain - chunksize) mode ret (has_ecc_err \<or> ret = - EBADMSG)
                    (if ret > max_bitflips then ret else max_bitflips)
        else
          let (ret, page, _, ni) = nmbm_read_logic_page ni (sub64 off leading)
                (Some (take (writesize (lower ni)) (page_cache ni))) None mode;
              ni = ni\<lparr>page_cache := store_buf (page_cache ni) 0 page\<rparr>
          in if ret < 0 \<and> ret \<noteq> - EBADMSG
             then (ret, data, sizeremain, has_ecc_err, max_bitflips, ni)
             else read_range_loop ni (u64 (off + chunksize))
                    (memput data ptr (memget (page_cache ni) leading chunksize)) (ptr + chunksize)
                    (sizeremain - chunksize) mode ret (has_ecc_err \<or> ret = - EBADMSG)
                    (if ret > max_bitflips then ret else max_bitflips))"
  by pat_completeness auto
termination
  by (relation "measure (\<lambda>(ni, off, data, ptr, sizeremain, mode, ret, e, m). sizeremain)") auto

declare read_range_loop.simps [simp del]

text \<open>Return value, buffer, \<^verbatim>\<open>*retlen\<close> when it is written, and the instance.\<close>

definition nmbm_read_range ::
    "'d nmbm_instance \<Rightarrow> nat \<Rightarrow> nat \<Rightarrow> byte list \<Rightarrow> nmbm_oob_mode
     \<Rightarrow> int \<times> byte list \<times> nat option \<times> 'd nmbm_instance" where
  "nmbm_read_range ni addr sz data mode =
     (case read_guard ni addr of
        Some err \<Rightarrow> (err, data, None, ni)
      | None \<Rightarrow>
          if u64 (addr + sz) > ba2addr ni (data_block_count ni) then (- EINVAL, data, None, ni)
          else if sz = 0 then (0, data, None, ni)
          else
            let (ret, data, sizeremain, has_ecc_err, max_bitflips, ni) =
              read_range_loop ni addr data 0 sz mode 0 False 0
            in (if ret < 0 \<and> ret \<noteq> - EBADMSG then ret
                else if has_ecc_err then - EBADMSG else max_bitflips,
                data, Some (sz - sizeremain), ni))"

section \<open>Writing\<close>

definition nmbm_write_logic_page ::
    "crc_fn \<Rightarrow> 'd nmbm_instance \<Rightarrow> nat \<Rightarrow> buf \<Rightarrow> buf \<Rightarrow> nmbm_oob_mode \<Rightarrow> int \<times> 'd nmbm_instance" where
  "nmbm_write_logic_page crc ni addr data oob mode =
     (let lb = addr2ba ni addr;
          offset = addr AND erasesize_mask ni;
          pb = rd (-1) (block_mapping ni) lb
      in if pb < 0 then (- EIO, ni)
         else if nmbm_get_block_state ni (nat pb) = BLOCK_ST_BAD then (- EIO, ni)
         else
           let (success, ni) = nmbm_write_phys_page ni (u64 (ba2addr ni (nat pb) + offset)) data oob mode
           in if success then (0, ni)
              else
                let ni = snd (nmbm_set_block_state ni (nat pb) BLOCK_ST_NEED_REMAP)
                in (- EIO, snd (nmbm_update_info_table crc ni)))"

definition nmbm_write_single_page ::
    "crc_fn \<Rightarrow> 'd nmbm_instance \<Rightarrow> nat \<Rightarrow> buf \<Rightarrow> buf \<Rightarrow> nmbm_oob_mode \<Rightarrow> int \<times> 'd nmbm_instance" where
  "nmbm_write_single_page crc ni addr data oob mode =
     (case write_guard ni addr of
        Some err \<Rightarrow> (err, ni)
      | None \<Rightarrow> nmbm_write_logic_page crc ni addr data oob mode)"

text \<open>
  The loop of \<^verbatim>\<open>nmbm_write_range\<close>: \<^verbatim>\<open>ret\<close>, the remaining size and the instance. A part of a page is
  written through the page cache, of which only the bytes before it are set to \<^verbatim>\<open>0xff\<close>.
\<close>

function write_range_loop ::
    "crc_fn \<Rightarrow> 'd nmbm_instance \<Rightarrow> nat \<Rightarrow> byte list \<Rightarrow> nmbm_oob_mode \<Rightarrow> int \<Rightarrow> int \<times> nat \<times> 'd nmbm_instance" where
  "write_range_loop crc ni off ptr mode ret =
     (if ptr = [] then (ret, 0, ni)
      else
        let leading = off AND writesize_mask ni;
            chunksize = chunk_size ni off (length ptr) in
        if chunksize = 0 then (- EFAULT, length ptr, ni)
        else
          let (ret, ni) =
            (if chunksize = writesize (lower ni)
             then nmbm_write_logic_page crc ni (sub64 off leading) (Some (take chunksize ptr)) None mode
             else
               let ni = ni\<lparr>page_cache := memput (memput (page_cache ni) 0 (replicate leading 0xff))
                                           leading (take chunksize ptr)\<rparr>
               in nmbm_write_logic_page crc ni (sub64 off leading)
                    (Some (take (writesize (lower ni)) (page_cache ni))) None mode)
          in if ret \<noteq> 0 then (ret, length ptr, ni)
             else write_range_loop crc ni (u64 (off + chunksize)) (drop chunksize ptr) mode ret)"
  by pat_completeness auto
termination
  by (relation "measure (\<lambda>(crc, ni, off, ptr, mode, ret). length ptr)") auto

declare write_range_loop.simps [simp del]

definition nmbm_write_range ::
    "crc_fn \<Rightarrow> 'd nmbm_instance \<Rightarrow> nat \<Rightarrow> byte list \<Rightarrow> nmbm_oob_mode \<Rightarrow> int \<times> nat option \<times> 'd nmbm_instance" where
  "nmbm_write_range crc ni addr data mode =
     (case write_guard ni addr of
        Some err \<Rightarrow> (err, None, ni)
      | None \<Rightarrow>
          if u64 (addr + length data) > ba2addr ni (data_block_count ni) then (- EINVAL, None, ni)
          else if data = [] then (0, None, ni)
          else
            let (ret, sizeremain, ni) = write_range_loop crc ni addr data mode 0
            in (ret, Some (length data - sizeremain), ni))"

section \<open>Bad blocks and queries\<close>

definition nmbm_check_bad_block :: "'d nmbm_instance \<Rightarrow> nat \<Rightarrow> int" where
  "nmbm_check_bad_block ni addr =
     (if addr \<ge> ba2addr ni (data_block_count ni) then - EINVAL
      else
        let pb = rd (-1) (block_mapping ni) (addr2ba ni addr) in
        if pb < 0 then 1
        else if nmbm_get_block_state ni (nat pb) = BLOCK_ST_BAD then 1
        else 0)"

definition nmbm_mark_bad_block :: "crc_fn \<Rightarrow> 'd nmbm_instance \<Rightarrow> nat \<Rightarrow> int \<times> 'd nmbm_instance" where
  "nmbm_mark_bad_block crc ni addr =
     (case write_guard ni addr of
        Some err \<Rightarrow> (err, ni)
      | None \<Rightarrow>
          let lb = addr2ba ni addr;
              pb = rd (-1) (block_mapping ni) lb
          in if pb < 0 then (0, ni)
             else
               let ni = ni\<lparr>block_mapping := (block_mapping ni)[lb := -1]\<rparr>;
                   ni = skip_bad_block ni (nat pb)
               in (0, snd (nmbm_update_info_table crc ni)))"

definition nmbm_get_avail_size :: "'d nmbm_instance \<Rightarrow> nat" where
  "nmbm_get_avail_size ni = u64 (data_block_count ni * 2 ^ erasesize_shift ni)"

definition nmbm_get_lower_device :: "'d nmbm_instance \<Rightarrow> int \<times> 'd nmbm_lower_device" where
  "nmbm_get_lower_device ni = (0, lower ni)"

section \<open>What erasing does\<close>

lemma map_block_mapping:
  assumes "nmbm_map_block crc ni lb = (r, ni')"
  shows "block_mapping ni' = block_mapping ni \<and> \<not> r \<or> (\<exists>v. block_mapping ni' = (block_mapping ni)[lb := v] \<and> r)"
proof (cases r)
  case True
  then have "nmbm_map_block crc ni lb = (True, ni')" using assms by simp
  then show ?thesis using True by (rule_tac map_block_success) (assumption, simp, blast)
next
  case False
  obtain u n1 where u: "nmbm_update_info_table crc ni = (u, n1)" by fastforce
  have "block_mapping n1 = block_mapping ni"
    using table_step_keeps(4) [OF table_okD(2)] update_info_table_ok [OF u, of UNIV] by force
  with False assms u show ?thesis by (auto simp: nmbm_map_block_def split: if_splits option.splits)
qed

lemma retire_block_keeps:
  "block_mapping (retire_block crc ni pb) = block_mapping ni"
  "mapping_blocks_top_ba (retire_block crc ni pb) = mapping_blocks_top_ba ni"
  "mgmt_start_ba (retire_block crc ni pb) = mgmt_start_ba ni"
  using table_step_keeps [OF table_okD(2) [OF retire_block_ok [of UNIV ni crc pb]]] by simp_all

lemma erase_mapped_block_True:
  assumes "erase_mapped_block ni pb = (True, ni')"
  shows "phys_step UNIV ni ni'" "nmbm_get_block_state ni pb \<noteq> BLOCK_ST_BAD"
    "nmbm_get_block_state ni pb \<noteq> BLOCK_ST_NEED_REMAP"
proof -
  obtain bad n1 where c: "nmbm_check_bad_phys_block ni pb = (bad, n1)" by fastforce
  obtain s n2 where e: "nmbm_erase_block_and_check n1 pb = (s, n2)" by fastforce
  have "phys_step UNIV ni n2"
    using phys_step_trans [OF check_bad_phys_block_step [OF c] erase_block_and_check_step [OF e]] by simp
  then show "phys_step UNIV ni ni'" "nmbm_get_block_state ni pb \<noteq> BLOCK_ST_BAD"
    "nmbm_get_block_state ni pb \<noteq> BLOCK_ST_NEED_REMAP"
    using assms c e by (auto simp: erase_mapped_block_def split: if_splits)
qed

definition mapped_pb :: "'d nmbm_instance \<Rightarrow> nat \<Rightarrow> int" where
  "mapped_pb ni lb = rd (-1) (block_mapping ni) lb"

lemma mapped_pb_update:
  "lb < length (block_mapping ni) \<Longrightarrow> mapped_pb (ni\<lparr>block_mapping := (block_mapping ni)[lb := v]\<rparr>) l =
     (if l = lb then v else mapped_pb ni l)"
  by (auto simp: mapped_pb_def rd_def nth_list_update)

text \<open>The result of an erasure and the mapping it leaves.\<close>

definition erase_post :: "nat \<Rightarrow> 'd nmbm_instance \<Rightarrow> int \<Rightarrow> 'd nmbm_instance \<Rightarrow> bool" where
  "erase_post lb ni ret ni' \<longleftrightarrow>
     length (block_mapping ni') = length (block_mapping ni)
     \<and> (\<forall>l. l \<noteq> lb \<longrightarrow> mapped_pb ni' l = mapped_pb ni l)
     \<and> (ret = - EIO \<and> mapped_pb ni' lb < 0
        \<or> ret = 0 \<and> 0 \<le> mapped_pb ni' lb
            \<and> nmbm_get_block_state ni' (nat (mapped_pb ni' lb)) \<notin> {BLOCK_ST_BAD, BLOCK_ST_NEED_REMAP})"

lemma erase_logic_block_post:
  "nmbm_erase_logic_block crc ni lb = (ret, ni') \<Longrightarrow> lb < length (block_mapping ni) \<Longrightarrow> erase_post lb ni ret ni'"
proof (induction crc ni lb rule: nmbm_erase_logic_block.induct)
  case (1 crc ni lb)
  define pb where "pb = nat (mapped_pb ni lb)"
  obtain r1 n1 where e: "erase_mapped_block ni pb = (r1, n1)" by fastforce
  obtain r2 n2 where m: "nmbm_map_block crc n1 lb = (r2, n2)" by fastforce
  have d1: "degrade UNIV ni n1" by (rule erase_mapped_block_degrade [OF e]) simp
  have bm1: "block_mapping n1 = block_mapping ni" using d1 by (rule degrade_keeps)
  note eq = nmbm_erase_logic_block.simps [of crc ni lb, folded mapped_pb_def, folded pb_def]
  show ?case
  proof (cases "mapped_pb ni lb < 0")
    case True
    with "1.prems" show ?thesis by (simp add: eq erase_post_def)
  next
    case False
    consider "r1" | "\<not> r1" "r2" | "\<not> r1" "\<not> r2" by blast
    then show ?thesis
    proof cases
      case 1
      then have n1: "erase_mapped_block ni pb = (True, n1)" using e by simp
      have st: "nmbm_get_block_state n1 pb = nmbm_get_block_state ni pb"
        using erase_mapped_block_True(1) [OF n1] by (rule phys_step_state)
      have "mapped_pb n1 l = mapped_pb ni l" for l by (simp add: mapped_pb_def bm1)
      with 1 "1.prems" False e st erase_mapped_block_True(2,3) [OF n1] bm1 show ?thesis
        by (auto simp: eq erase_post_def pb_def)
    next
      case 2
      with m obtain v where v: "block_mapping n2 = (block_mapping ni)[lb := v]"
        using map_block_mapping [OF m] bm1 by auto
      define n3 where "n3 = retire_block crc n2 pb"
      have bm3: "block_mapping n3 = (block_mapping ni)[lb := v]" by (simp add: n3_def retire_block_keeps v)
      have rest: "nmbm_erase_logic_block crc n3 lb = (ret, ni')"
        using "1.prems"(1) False e m 2 by (simp add: eq n3_def)
      have "erase_post lb n3 ret ni'"
        using "1.IH" [OF _ e [symmetric, unfolded pb_def mapped_pb_def] _ m [symmetric]] 2 False rest "1.prems"(2) bm3
        by (simp add: n3_def pb_def mapped_pb_def)
      moreover have "mapped_pb n3 l = mapped_pb ni l" if "l \<noteq> lb" for l
        using that by (simp add: mapped_pb_def bm3 rd_def)
      ultimately show ?thesis by (auto simp: erase_post_def bm3)
    next
      case 3
      then have bm2: "block_mapping n2 = block_mapping ni" using map_block_mapping [OF m] bm1 by simp
      have "ret = - EIO" "ni' = retire_block crc (n2\<lparr>block_mapping := (block_mapping n2)[lb := -1]\<rparr>) pb"
        using "1.prems"(1) False e m 3 by (simp_all add: eq)
      then have "ret = - EIO" "block_mapping ni' = (block_mapping ni)[lb := -1]"
        by (simp_all add: retire_block_keeps bm2)
      with "1.prems"(2) show ?thesis by (auto simp: erase_post_def mapped_pb_def rd_def)
    qed
  qed
qed

section \<open>Which blocks are written\<close>

text \<open>The management area up to and including the next spare block.\<close>

definition spare_area :: "'d nmbm_instance \<Rightarrow> nat set" where
  "spare_area ni = (\<Union>b\<in>{mgmt_start_ba ni..mapping_blocks_top_ba ni}. blk_writes ni b)"

lemma mgmt_writes_spare: "mgmt_writes ni \<subseteq> spare_area ni"
  unfolding mgmt_writes_def spare_area_def by fastforce

lemma spare_area_bound: "spare_area ni \<subseteq> {..<2 ^ 64}"
  unfolding spare_area_def using blk_writes_bound by blast

text \<open>The state in which a logic operation may write the addresses \<open>W\<close> only.\<close>

definition guarded :: "nat set \<Rightarrow> 'd nmbm_instance \<Rightarrow> bool" where
  "guarded W ni \<longleftrightarrow> confined W ni \<and> (W = UNIV \<or> spare_area ni \<subseteq> W
     \<and> mapping_blocks_top_ba ni < block_count ni \<and> block_count ni < 2 ^ 31)"

lemma guarded_UNIV [simp]: "guarded UNIV ni"
  by (simp add: guarded_def)

lemma guardedI:
  "layout ni \<Longrightarrow> spare_area ni \<subseteq> W \<Longrightarrow> mapping_blocks_top_ba ni < block_count ni \<Longrightarrow>
   block_count ni < 2 ^ 31 \<Longrightarrow> guarded W ni"
  using mgmt_writes_spare unfolding guarded_def confined_def by blast

lemma guarded_shrink:
  assumes "guarded W ni" and "inst_step W ni ni'" and "confined W ni'"
    and "mgmt_start_ba ni' = mgmt_start_ba ni" and "mapping_blocks_top_ba ni' \<le> mapping_blocks_top_ba ni"
  shows "guarded W ni'"
proof -
  have "spare_area ni' \<subseteq> spare_area ni"
    using assms(4,5) inst_blk_writes [OF assms(2)] unfolding spare_area_def by fastforce
  moreover have "block_count ni' = block_count ni" using assms(2) by (elim inst_stepE)
  ultimately show ?thesis using assms(1,3,5) unfolding guarded_def by auto
qed

lemma guarded_degrade: "guarded W ni \<Longrightarrow> degrade W ni ni' \<Longrightarrow> guarded W ni'"
  by (rule guarded_shrink)
    (auto simp: guarded_def degrade_tables intro: inst_degrade table_okD(1) table_ok_degrade)

lemma guarded_table:
  assumes "guarded W ni" and "table_ok W ni ni'"
  shows "guarded W ni'"
  by (rule guarded_shrink [OF assms(1) inst_table [OF table_okD(2) [OF assms(2)]] table_okD(1) [OF assms(2)]])
    (simp_all add: table_step_keeps(1,2) [OF table_okD(2) [OF assms(2)]])

lemma guarded_mapping: "guarded W ni \<Longrightarrow> guarded W (ni\<lparr>block_mapping := bm\<rparr>)"
proof -
  assume g: "guarded W ni"
  have i: "inst_step W ni (ni\<lparr>block_mapping := bm\<rparr>)" by (rule inst_same) simp_all
  have "confined W (ni\<lparr>block_mapping := bm\<rparr>)"
    using g by (intro confined_shrink [OF _ i]) (auto simp: guarded_def layout_def dest: confined_layout)
  with g i show ?thesis by (intro guarded_shrink [OF g i]) simp_all
qed

lemma map_block_guarded:
  assumes "nmbm_map_block crc ni lb = (r, ni')" and "guarded W ni"
  shows "inst_step W ni ni'" "guarded W ni'"
proof -
  have ok: "inst_step W ni ni' \<and> confined W ni' \<and> mgmt_start_ba ni' = mgmt_start_ba ni
      \<and> (W \<noteq> UNIV \<longrightarrow> mapping_blocks_top_ba ni' \<le> mapping_blocks_top_ba ni)"
    using assms by (intro map_block_ok) (auto simp: guarded_def)
  show "inst_step W ni ni'" using ok by blast
  show "guarded W ni'"
  proof (cases "W = UNIV")
    case False
    then show ?thesis
      using ok by (intro guarded_shrink [OF assms(2), of ni']) simp_all
  qed simp
qed

lemma map_block_new_pb:
  assumes "nmbm_map_block crc ni lb = (True, ni')" and "guarded W ni" and "W \<noteq> UNIV"
    and "lb < length (block_mapping ni)"
  shows "blk_addrs ni (nat (mapped_pb ni' lb)) \<subseteq> W"
proof -
  obtain pb where w: "nmbm_block_walk ni False (mapping_blocks_top_ba ni) 0 (s32 (mapping_blocks_ba ni)) = Some pb"
    and "mapping_blocks_ba ni \<noteq> mapping_blocks_top_ba ni" "0 < mapping_blocks_top_ba ni"
    and n: "ni' = ni\<lparr>block_mapping := (block_mapping ni)[lb := s32 pb],
                 mapping_blocks_top_ba := mapping_blocks_top_ba ni - 1,
                 block_mapping_changed := u32 (block_mapping_changed ni + 1)\<rparr>"
    using assms(1) by (rule map_block_success)
  have l: "layout ni" and g: "spare_area ni \<subseteq> W" "mapping_blocks_top_ba ni < block_count ni" "block_count ni < 2 ^ 31"
    using assms(2,3) by (auto simp: guarded_def dest: confined_layout)
  then have lo: "mgmt_start_ba ni \<le> mapping_blocks_ba ni" "mapping_blocks_ba ni < block_count ni"
    "mapping_blocks_ba ni < 2 ^ 32"
    by (auto simp: layout_def)
  have pb: "mapping_blocks_ba ni < pb" "pb \<le> mapping_blocks_top_ba ni" using map_block_pick [OF w lo(2,3)] by blast+
  have "mapped_pb ni' lb = s32 pb" using assms(4) by (simp add: n mapped_pb_def)
  moreover have "nat (s32 pb) = pb" using pb(2) g by (simp add: s32_def u32_id)
  moreover have "blk_addrs ni pb \<subseteq> spare_area ni"
    using pb lo(1) unfolding spare_area_def blk_writes_def by fastforce
  ultimately show ?thesis using g(1) by simp
qed

lemma erase_logic_block_confined:
  "nmbm_erase_logic_block crc ni lb = (ret, ni') \<Longrightarrow> guarded W ni \<Longrightarrow> lb < length (block_mapping ni) \<Longrightarrow>
   W \<noteq> UNIV \<longrightarrow> 0 \<le> mapped_pb ni lb \<longrightarrow> blk_addrs ni (nat (mapped_pb ni lb)) \<subseteq> W \<Longrightarrow>
   inst_step W ni ni' \<and> guarded W ni'"
proof (induction crc ni lb rule: nmbm_erase_logic_block.induct)
  case (1 crc ni lb)
  define pb where "pb = nat (mapped_pb ni lb)"
  obtain r1 n1 where e: "erase_mapped_block ni pb = (r1, n1)" by fastforce
  obtain r2 n2 where m: "nmbm_map_block crc n1 lb = (r2, n2)" by fastforce
  note eq = nmbm_erase_logic_block.simps [of crc ni lb, folded mapped_pb_def, folded pb_def]
  show ?case
  proof (cases "mapped_pb ni lb < 0")
    case True
    with "1.prems" show ?thesis by (simp add: eq)
  next
    case False
    then have "blk_addrs ni pb \<subseteq> W" using "1.prems"(4) by (cases "W = UNIV") (auto simp: pb_def)
    then have d1: "degrade W ni n1" by (rule erase_mapped_block_degrade [OF e])
    have g1: "guarded W n1" using "1.prems"(2) d1 by (rule guarded_degrade)
    have i1: "inst_step W ni n1" using d1 by (rule inst_degrade)
    have bm1: "block_mapping n1 = block_mapping ni" using d1 by (rule degrade_keeps)
    note g2 = map_block_guarded [OF m g1]
    have i2: "inst_step W ni n2" using i1 g2(1) by (rule inst_trans)
    have ret: "inst_step W ni (retire_block crc n pb) \<and> guarded W (retire_block crc n pb)"
      if "guarded W n" "inst_step W ni n" for n
    proof -
      have t: "table_ok W n (retire_block crc n pb)" using that(1) by (intro retire_block_ok) (simp add: guarded_def)
      show ?thesis using that guarded_table [OF that(1) t] inst_table [OF table_okD(2) [OF t]]
        by (blast intro: inst_trans)
    qed
    consider "r1" | "\<not> r1" "r2" | "\<not> r1" "\<not> r2" by blast
    then show ?thesis
    proof cases
      case 1
      with "1.prems"(1) False e i1 g1 show ?thesis by (simp add: eq)
    next
      case 2
      define n3 where "n3 = retire_block crc n2 pb"
      have r3: "inst_step W ni n3" "guarded W n3" using ret [OF g2(2) i2] by (simp_all add: n3_def)
      have bm3: "block_mapping n3 = block_mapping n2" by (simp add: n3_def retire_block_keeps)
      have len: "lb < length (block_mapping n3)"
        using map_block_mapping [OF m] bm1 "1.prems"(3) bm3 by auto
      have "W \<noteq> UNIV \<Longrightarrow> blk_addrs n1 (nat (mapped_pb n2 lb)) \<subseteq> W"
        using map_block_new_pb [of crc n1 lb n2 W] m 2 g1 "1.prems"(3) bm1 by simp
      then have a: "W \<noteq> UNIV \<longrightarrow> 0 \<le> mapped_pb n3 lb \<longrightarrow> blk_addrs n3 (nat (mapped_pb n3 lb)) \<subseteq> W"
        using inst_blk_addrs [OF r3(1)] inst_blk_addrs [OF i1] by (simp add: mapped_pb_def bm3)
      have rest: "nmbm_erase_logic_block crc n3 lb = (ret, ni')"
        using "1.prems"(1) False e m 2 by (simp add: eq n3_def)
      have "inst_step W n3 ni' \<and> guarded W ni'"
        using "1.IH" [OF _ e [symmetric, unfolded pb_def mapped_pb_def] _ m [symmetric]] 2 False rest r3(2) len a
        by (simp add: n3_def pb_def mapped_pb_def)
      with r3(1) show ?thesis by (blast intro: inst_trans)
    next
      case 3
      define n3 where "n3 = n2\<lparr>block_mapping := (block_mapping n2)[lb := -1]\<rparr>"
      have "inst_step W n2 n3" by (rule inst_same) (simp_all add: n3_def)
      then have "inst_step W ni n3" "guarded W n3"
        using i2 g2(2) by (auto simp: n3_def intro: inst_trans guarded_mapping)
      with ret [of n3] "1.prems"(1) False e m 3 show ?thesis by (simp add: eq n3_def)
    qed
  qed
qed

text \<open>A failed write turns the block into one that is remapped at the next erasure.\<close>

lemma set_state_inst: "inst_step W ni (snd (nmbm_set_block_state ni ba st))"
  by (rule inst_set_state) simp

lemma set_state_guarded: "guarded W ni \<Longrightarrow> guarded W (snd (nmbm_set_block_state ni ba st))"
proof -
  assume g: "guarded W ni"
  let ?n = "snd (nmbm_set_block_state ni ba st)"
  have f: "mgmt_start_ba ?n = mgmt_start_ba ni" "mapping_blocks_top_ba ?n = mapping_blocks_top_ba ni"
    by (simp_all add: nmbm_set_block_state_def Let_def)
  have "layout ?n = layout ni" by (simp add: nmbm_set_block_state_def Let_def layout_def)
  then have "confined W ?n"
    using g f by (intro confined_shrink [OF _ set_state_inst]) (auto simp: guarded_def dest: confined_layout)
  with f show ?thesis by (intro guarded_shrink [OF g set_state_inst]) simp_all
qed

lemma update_guarded:
  assumes "guarded W ni"
  shows "inst_step W ni (snd (nmbm_update_info_table crc ni))" "guarded W (snd (nmbm_update_info_table crc ni))"
    "block_mapping (snd (nmbm_update_info_table crc ni)) = block_mapping ni"
    "states_degrade (block_state ni) (block_state (snd (nmbm_update_info_table crc ni)))"
proof -
  obtain u n where u: "nmbm_update_info_table crc ni = (u, n)" by fastforce
  have "confined W ni" using assms by (simp add: guarded_def)
  then have t: "table_ok W ni n" using update_info_table_ok [OF u] by blast
  have "states_degrade (block_state ni) (block_state n)" using table_okD(2) [OF t] by (elim table_stepE) simp
  with u t guarded_table [OF assms t] inst_table [OF table_okD(2) [OF t]] table_step_keeps(4) [OF table_okD(2) [OF t]]
  show "inst_step W ni (snd (nmbm_update_info_table crc ni))" "guarded W (snd (nmbm_update_info_table crc ni))"
    "block_mapping (snd (nmbm_update_info_table crc ni)) = block_mapping ni"
    "states_degrade (block_state ni) (block_state (snd (nmbm_update_info_table crc ni)))" by simp_all
qed

text \<open>The physical address of a page of a logic block.\<close>

definition page_addr :: "'d nmbm_instance \<Rightarrow> nat \<Rightarrow> nat" where
  "page_addr ni addr = u64 (ba2addr ni (nat (mapped_pb ni (addr2ba ni addr))) + (addr AND erasesize_mask ni))"

definition write_page_post :: "'d nmbm_instance \<Rightarrow> nat \<Rightarrow> int \<Rightarrow> 'd nmbm_instance \<Rightarrow> bool" where
  "write_page_post ni lb ret ni' \<longleftrightarrow> block_mapping ni' = block_mapping ni
     \<and> (ret = 0 \<and> 0 \<le> mapped_pb ni lb \<and> block_state ni' = block_state ni
        \<or> ret = - EIO \<and> (ni' = ni \<or> 0 \<le> mapped_pb ni lb \<and>
            (nat (mapped_pb ni lb) < table_cap (block_state ni) \<longrightarrow>
             nmbm_get_block_state ni' (nat (mapped_pb ni lb)) \<in> {BLOCK_ST_BAD, BLOCK_ST_NEED_REMAP})))"

lemma write_logic_page_ok:
  assumes "nmbm_write_logic_page crc ni addr data oob mode = (ret, ni')" and "guarded W ni"
    and "0 \<le> mapped_pb ni (addr2ba ni addr) \<Longrightarrow> page_addr ni addr \<in> W"
  shows "inst_step W ni ni' \<and> guarded W ni' \<and> write_page_post ni (addr2ba ni addr) ret ni'"
proof -
  define lb pb where "lb = addr2ba ni addr" and "pb = nat (mapped_pb ni (addr2ba ni addr))"
  obtain s n1 where w: "nmbm_write_phys_page ni (page_addr ni addr) data oob mode = (s, n1)" by fastforce
  define n2 where "n2 = snd (nmbm_set_block_state n1 pb BLOCK_ST_NEED_REMAP)"
  have eq: "(ret, ni') = (if mapped_pb ni lb < 0 then (- EIO, ni)
      else if nmbm_get_block_state ni pb = BLOCK_ST_BAD then (- EIO, ni)
      else if s then (0, n1) else (- EIO, snd (nmbm_update_info_table crc n2)))"
    using assms(1) w
    by (simp add: nmbm_write_logic_page_def Let_def lb_def pb_def n2_def page_addr_def mapped_pb_def split: if_splits)
  show ?thesis
  proof (cases "mapped_pb ni lb < 0 \<or> nmbm_get_block_state ni pb = BLOCK_ST_BAD")
    case True
    with eq assms(2) show ?thesis by (auto simp: write_page_post_def split: if_splits)
  next
    case False
    then have p1: "phys_step W ni n1" using assms(3) by (intro write_phys_page_step [OF w]) (simp add: lb_def)
    note k1 = phys_step_lower [OF p1]
    have g1: "guarded W n1" using assms(2) degrade_phys [OF p1] by (rule guarded_degrade)
    have i1: "inst_step W ni n1" using p1 by (rule inst_phys)
    have g2: "guarded W n2" unfolding n2_def using g1 by (rule set_state_guarded)
    have i2: "inst_step W ni n2" unfolding n2_def using i1 by (rule inst_set_state)
    note u = update_guarded [OF g2, of crc]
    have bm2: "block_mapping n2 = block_mapping ni" using k1 by (simp add: n2_def nmbm_set_block_state_def Let_def)
    have "pb < table_cap (block_state ni) \<Longrightarrow> nmbm_get_block_state n2 pb = BLOCK_ST_NEED_REMAP"
      using k1 by (simp add: n2_def get_set_block_state)
    then have "pb < table_cap (block_state ni) \<Longrightarrow>
        nmbm_get_block_state (snd (nmbm_update_info_table crc n2)) pb \<in> {BLOCK_ST_BAD, BLOCK_ST_NEED_REMAP}"
      using u(4) unfolding states_degrade_def nmbm_get_block_state_def by (metis insertCI)
    with eq False g1 i1 i2 u bm2 k1 show ?thesis
      by (auto simp: write_page_post_def lb_def pb_def intro: inst_trans split: if_splits)
  qed
qed

lemma mark_bad_block_ok:
  assumes "nmbm_mark_bad_block crc ni addr = (ret, ni')" and "write_guard ni addr = None"
    and "addr2ba ni addr < length (block_mapping ni)"
  shows "ret = 0" "mapped_pb ni' (addr2ba ni addr) < 0" "ba2addr ni' b = ba2addr ni b"
    "data_block_count ni' = data_block_count ni" "addr2ba ni' addr = addr2ba ni addr"
proof -
  define lb pb where "lb = addr2ba ni addr" and "pb = mapped_pb ni (addr2ba ni addr)"
  define n1 where "n1 = ni\<lparr>block_mapping := (block_mapping ni)[lb := -1]\<rparr>"
  define n2 where "n2 = skip_bad_block n1 (nat pb)"
  obtain u n3 where u: "nmbm_update_info_table crc n2 = (u, n3)" by fastforce
  have eq: "(ret, ni') = (if pb < 0 then (0, ni) else (0, n3))"
    using assms(1,2) u by (simp add: nmbm_mark_bad_block_def Let_def lb_def pb_def n1_def n2_def mapped_pb_def split: if_splits)
  have d: "degrade UNIV n1 n2" unfolding n2_def by (rule skip_bad_block_degrade) simp
  have t: "table_step UNIV n2 n3" using update_info_table_ok [OF u, of UNIV] by (simp add: table_okD(2))
  have k3: "block_mapping n3 = (block_mapping ni)[lb := -1]" "data_block_count n3 = data_block_count ni"
    "erasesize_shift n3 = erasesize_shift ni"
  proof -
    have "block_mapping n2 = (block_mapping ni)[lb := -1]" "data_block_count n2 = data_block_count ni"
      "erasesize_shift n2 = erasesize_shift ni"
      using d by (elim degradeE, simp add: n1_def)+
    then show "block_mapping n3 = (block_mapping ni)[lb := -1]" "data_block_count n3 = data_block_count ni"
      "erasesize_shift n3 = erasesize_shift ni"
      using t by (elim table_stepE, simp)+
  qed
  show "ret = 0" using eq by (simp split: if_splits)
  show "mapped_pb ni' (addr2ba ni addr) < 0"
    using eq k3(1) assms(3) by (auto simp: mapped_pb_def lb_def pb_def split: if_splits)
  show "ba2addr ni' b = ba2addr ni b" "data_block_count ni' = data_block_count ni" "addr2ba ni' addr = addr2ba ni addr"
    using eq k3 by (auto simp: ba2addr_def addr2ba_def split: if_splits)
qed

lemma read_logic_page_step:
  "nmbm_read_logic_page ni addr data oob mode = (ret, data', oob', ni') \<Longrightarrow> phys_step W ni ni'"
  by (auto simp: nmbm_read_logic_page_def Let_def split: if_splits intro: read_phys_page_step)

section \<open>Reading and writing a range\<close>

definition read_range_post ::
    "'d nmbm_instance \<Rightarrow> nat \<Rightarrow> int \<Rightarrow> int \<times> byte list \<times> nat \<times> bool \<times> int \<times> 'd nmbm_instance \<Rightarrow> bool" where
  "read_range_post ni sizeremain max_bitflips res \<longleftrightarrow>
     (case res of (ret, data, left, ecc, flips, ni') \<Rightarrow>
        phys_step {} ni ni' \<and> left \<le> sizeremain \<and> max_bitflips \<le> flips
        \<and> (0 \<le> ret \<or> ret = - EBADMSG \<longrightarrow> left = 0))"

lemma read_range_loop_post:
  "read_range_post ni n mb (read_range_loop ni off data ptr n mode ret ecc mb)"
proof (induction n arbitrary: ni off data ptr ret ecc mb rule: less_induct)
  case (less n)
  let ?lead = "off AND writesize_mask ni" and ?chunk = "chunk_size ni off n"
  obtain r1 pg oob n1 where p: "nmbm_read_logic_page ni (sub64 off ?lead)
      (Some (memget data ptr ?chunk)) None mode = (r1, pg, oob, n1)" by (metis prod.exhaust)
  obtain r2 pg2 oob2 n2 where q: "nmbm_read_logic_page ni (sub64 off ?lead)
      (Some (take (writesize (lower ni)) (page_cache ni))) None mode = (r2, pg2, oob2, n2)" by (metis prod.exhaust)
  define n3 where "n3 = n2\<lparr>page_cache := store_buf (page_cache n2) 0 pg2\<rparr>"
  have s1: "phys_step {} ni n1" using p by (rule read_logic_page_step)
  have s3: "phys_step {} ni n3" unfolding n3_def using read_logic_page_step [OF q] by (rule phys_step_cache)
  have rest: "read_range_post ni n mb (read_range_loop m o2 d2 p2 (n - ?chunk) mode r e f)"
    if "phys_step {} ni m" "0 < n" "?chunk \<noteq> 0" "mb \<le> f" for m o2 d2 p2 r e f
  proof -
    have "read_range_post m (n - ?chunk) f (read_range_loop m o2 d2 p2 (n - ?chunk) mode r e f)"
      using that by (intro less.IH) simp
    then show ?thesis
      using that by (auto simp: read_range_post_def split: prod.splits intro: phys_step_trans)
  qed
  have stop: "read_range_post ni n mb (r, d, n, e, mb, m)" if "phys_step {} ni m" "r < 0 \<and> r \<noteq> - EBADMSG" for r d e m
    using that by (simp add: read_range_post_def)
  note eq = read_range_loop.simps [of ni off data ptr n, unfolded Let_def]
  consider "n = 0" | "0 < n" "?chunk = 0" | "0 < n" "?chunk \<noteq> 0" "?chunk = writesize (lower ni)"
    | "0 < n" "?chunk \<noteq> 0" "?chunk \<noteq> writesize (lower ni)" by blast
  then show ?case
  proof cases
    case 1
    then show ?thesis by (simp add: read_range_loop.simps [of ni off data ptr 0] read_range_post_def)
  next
    case 2
    then show ?thesis by (simp add: eq stop)
  next
    case 3
    with p rest [OF s1] stop [OF s1] show ?thesis by (simp add: eq)
  next
    case 4
    with q rest [OF s3] stop [OF s3] show ?thesis by (simp add: eq n3_def)
  qed
qed

definition write_range_post :: "'d nmbm_instance \<Rightarrow> nat \<Rightarrow> int \<times> nat \<times> 'd nmbm_instance \<Rightarrow> bool" where
  "write_range_post ni len res \<longleftrightarrow>
     (case res of (ret, left, ni') \<Rightarrow>
        block_mapping ni' = block_mapping ni \<and> inst_step UNIV ni ni' \<and> left \<le> len
        \<and> (ret = 0 \<and> left = 0 \<or> ret < 0 \<and> 0 < left))"

lemma write_range_loop_post: "write_range_post ni (length ptr) (write_range_loop crc ni off ptr mode 0)"
proof (induction "length ptr" arbitrary: ni off ptr rule: less_induct)
  case less
  let ?lead = "off AND writesize_mask ni" and ?chunk = "chunk_size ni off (length ptr)"
  define n0 where "n0 = ni\<lparr>page_cache := memput (memput (page_cache ni) 0 (replicate ?lead 0xff)) ?lead (take ?chunk ptr)\<rparr>"
  define res where "res = (if ?chunk = writesize (lower ni)
             then nmbm_write_logic_page crc ni (sub64 off ?lead) (Some (take ?chunk ptr)) None mode
             else nmbm_write_logic_page crc n0 (sub64 off ?lead)
                    (Some (take (writesize (lower n0)) (page_cache n0))) None mode)"
  obtain r n1 where r: "res = (r, n1)" by fastforce
  have p: "inst_step UNIV n n' \<and> block_mapping n' = block_mapping n \<and> (q = 0 \<or> q < 0)"
    if "nmbm_write_logic_page crc n a d oob mode = (q, n')" for n n' :: "'a nmbm_instance" and a d oob q
    using write_logic_page_ok [OF that, of UNIV] by (auto simp: write_page_post_def)
  have i0: "inst_step UNIV ni n0" by (rule inst_same) (simp_all add: n0_def)
  have i1: "inst_step UNIV ni n1 \<and> block_mapping n1 = block_mapping ni \<and> (r = 0 \<or> r < 0)"
    using r p i0 unfolding res_def by (auto simp: n0_def split: if_splits intro: inst_trans)
  have eq: "write_range_loop crc ni off ptr mode 0 =
     (if ptr = [] then (0, 0, ni) else if ?chunk = 0 then (- EFAULT, length ptr, ni)
      else if r \<noteq> 0 then (r, length ptr, n1) else write_range_loop crc n1 (u64 (off + ?chunk)) (drop ?chunk ptr) mode 0)"
    using r [unfolded res_def n0_def]
    by (cases "?chunk = writesize (lower ni)") (simp_all add: write_range_loop.simps [of crc ni off ptr] Let_def)
  show ?case
  proof (cases "ptr = [] \<or> ?chunk = 0 \<or> r \<noteq> 0")
    case True
    with i1 show ?thesis by (auto simp: eq write_range_post_def)
  next
    case False
    then have "write_range_post n1 (length (drop ?chunk ptr)) (write_range_loop crc n1 (u64 (off + ?chunk)) (drop ?chunk ptr) mode 0)"
      by (intro less.hyps) simp
    with False i1 show ?thesis
      by (auto simp: eq write_range_post_def split: prod.splits intro: inst_trans)
  qed
qed


section \<open>Sharing of physical blocks\<close>

lemma mark_bad_block_shift:
  assumes "nmbm_mark_bad_block crc ni addr = (ret, ni')"
  shows "erasesize_shift ni' = erasesize_shift ni"
proof -
  have i: "inst_step UNIV n (snd (nmbm_update_info_table crc (skip_bad_block (n\<lparr>block_mapping := bm\<rparr>) pb)))"
    for n :: "'a nmbm_instance" and bm pb
  proof -
    have "inst_step UNIV n (n\<lparr>block_mapping := bm\<rparr>)" by (rule inst_same) simp_all
    also have "inst_step UNIV (n\<lparr>block_mapping := bm\<rparr>) (skip_bad_block (n\<lparr>block_mapping := bm\<rparr>) pb)"
      by (rule inst_degrade, rule skip_bad_block_degrade) simp
    also have "inst_step UNIV (skip_bad_block (n\<lparr>block_mapping := bm\<rparr>) pb)
        (snd (nmbm_update_info_table crc (skip_bad_block (n\<lparr>block_mapping := bm\<rparr>) pb)))"
      by (rule update_guarded) simp
    finally show ?thesis .
  qed
  show ?thesis
    using assms i by (auto simp: nmbm_mark_bad_block_def Let_def inst_step_def split: option.splits if_splits)
qed

text \<open>No two logic blocks share a physical block, and no spare block up to the top is mapped.\<close>

definition mapping_inj :: "'d nmbm_instance \<Rightarrow> bool" where
  "mapping_inj ni \<longleftrightarrow> distinct (filter (\<lambda>x. 0 \<le> x) (block_mapping ni))
     \<and> list_all (\<lambda>x. x < 0 \<or> x < int (mgmt_start_ba ni) \<or> int (mapping_blocks_top_ba ni) < x) (block_mapping ni)"

lemma distinct_filter_update:
  "distinct (filter P xs) \<Longrightarrow> v \<notin> set xs \<Longrightarrow> distinct (filter P (xs[i := v]))"
proof (cases "i < length xs")
  case True
  assume d: "distinct (filter P xs)" and v: "v \<notin> set xs"
  have "xs = take i xs @ xs ! i # drop (Suc i) xs" using True by (rule id_take_nth_drop)
  with d have "distinct (filter P (take i xs @ xs ! i # drop (Suc i) xs))" by simp
  then have "distinct (filter P (take i xs)) \<and> distinct (filter P (drop (Suc i) xs))
      \<and> set (filter P (take i xs)) \<inter> set (filter P (drop (Suc i) xs)) = {}"
    by (auto split: if_splits)
  with v True show ?thesis
    by (auto simp: upd_conv_take_nth_drop dest: in_set_takeD in_set_dropD)
qed (simp add: list_update_beyond)

lemma map_block_keeps_inj:
  assumes "mapping_inj ni" and "nmbm_map_block crc ni lb = (True, ni')" and "lb < length (block_mapping ni)"
    and "nmbm_get_block_state ni (mapping_blocks_top_ba ni) = BLOCK_ST_GOOD"
    and "layout ni" and "mapping_blocks_top_ba ni < block_count ni" and "block_count ni < 2 ^ 31"
  shows "mapping_inj ni' \<and> mapped_pb ni' lb = int (mapping_blocks_top_ba ni)"
proof -
  obtain pb where w: "nmbm_block_walk ni False (mapping_blocks_top_ba ni) 0 (s32 (mapping_blocks_ba ni)) = Some pb"
    and ne: "mapping_blocks_ba ni \<noteq> mapping_blocks_top_ba ni" "0 < mapping_blocks_top_ba ni"
    and n: "ni' = ni\<lparr>block_mapping := (block_mapping ni)[lb := s32 pb],
                 mapping_blocks_top_ba := mapping_blocks_top_ba ni - 1,
                 block_mapping_changed := u32 (block_mapping_changed ni + 1)\<rparr>"
    using assms(2) by (rule map_block_success)
  have lo: "mapping_blocks_ba ni < block_count ni" "mapping_blocks_ba ni < 2 ^ 32"
    "mgmt_start_ba ni \<le> mapping_blocks_top_ba ni"
    using assms(5-7) by (auto simp: layout_def)
  have "pb = mapping_blocks_top_ba ni"
    using map_block_pick(2,4) [OF w lo(1,2)] assms(4) by (metis le_neq_implies_less order_refl)
  then have v: "s32 pb = int (mapping_blocks_top_ba ni)" using assms(6,7) by (simp add: s32_def u32_id)
  have new: "int (mapping_blocks_top_ba ni) \<notin> set (block_mapping ni)"
    using assms(1) lo(3) by (force simp: mapping_inj_def list_all_iff)
  have "list_all (\<lambda>x. x < 0 \<or> x < int (mgmt_start_ba ni) \<or> int (mapping_blocks_top_ba ni - 1) < x)
      ((block_mapping ni)[lb := int (mapping_blocks_top_ba ni)])"
    using assms(1) ne(2) by (auto simp: mapping_inj_def list_all_iff dest!: set_update_subset_insert [THEN subsetD])
  moreover have "distinct (filter (\<lambda>x. 0 \<le> x) ((block_mapping ni)[lb := int (mapping_blocks_top_ba ni)]))"
    using assms(1) new by (intro distinct_filter_update) (simp_all add: mapping_inj_def)
  ultimately show ?thesis using assms(3) by (simp add: n v mapping_inj_def mapped_pb_def)
qed

end
