(* ===== verification/Demo_Chip.thy ===== *)
theory Demo_Chip
  imports Nmbm_Logic "HOL-Library.Code_Target_Nat"
begin

text \<open>
  A small chip on which the theorems are instantiated: 32 blocks of two pages of 64 bytes. Its
  pages are a list of byte lists, an erased page reads as ones, and a block may be marked bad.
  Nothing here models code; the theory only provides concrete inputs.
\<close>

unbundle bit_operations_syntax

declare find_signature_loop.simps [code]

record chip =
  pages :: "byte list list"
  bads :: "nat list"

definition demo_crc :: crc_fn where
  "demo_crc c xs = fold (\<lambda>b c. c XOR ucast b) xs c"

lemma demo_crc_chains: "crc_chains demo_crc"
  by (simp add: crc_chains_def demo_crc_def)

definition chip_read :: "chip read_page_fn" where
  "chip_read d a data oob m = (0, map_option (\<lambda>_. rd [] (pages d) (a div 64)) data, oob, d)"

definition chip_write :: "chip write_page_fn" where
  "chip_write d a data oob m =
     (case data of None \<Rightarrow> (0, d) | Some bs \<Rightarrow> (0, d\<lparr>pages := (pages d)[a div 64 := bs]\<rparr>))"

definition chip_erase :: "chip block_fn" where
  "chip_erase d a = (0, d\<lparr>pages := (pages d)[a div 64 := replicate 64 0xff, a div 64 + 1 := replicate 64 0xff]\<rparr>)"

definition chip_is_bad :: "chip block_fn" where
  "chip_is_bad d a = (if a div 128 \<in> set (bads d) then 1 else 0, d)"

definition chip_mark_bad :: "chip block_fn" where
  "chip_mark_bad d a = (0, d\<lparr>bads := a div 128 # bads d\<rparr>)"

definition demo_nld :: "nat list \<Rightarrow> 32 word \<Rightarrow> chip nmbm_lower_device" where
  "demo_nld bs fl =
     \<lparr>max_ratio = 8, max_reserved_blocks = 0, flags = fl, nld_size = 4096, erasesize = 128,
      writesize = 64, oobsize = 4, oobavail = 4,
      arg = \<lparr>pages = replicate 64 (replicate 64 0xff), bads = bs\<rparr>, reset_chip = None,
      read_page = Some chip_read, write_page = Some chip_write, erase_block = Some chip_erase,
      is_bad_block = Some chip_is_bad, mark_bad_block = Some chip_mark_bad\<rparr>"

definition zero_header :: nmbm_header where
  "zero_header = \<lparr>magic = 0, version = 0, hdr_size = 0, checksum = 0\<rparr>"

definition blank_instance :: "'d nmbm_lower_device \<Rightarrow> 'd nmbm_instance" where
  "blank_instance nld =
     \<lparr>lower = nld, rawpage_size = 0, rawblock_size = 0, rawchip_size = 0,
      writesize_mask = 0, erasesize_mask = 0, writesize_shift = 0, erasesize_shift = 0,
      signature = \<lparr>sig_header = zero_header, nand_size = 0, block_size = 0, page_size = 0,
                   spare_size = 0, mgmt_start_pb = 0, max_try_count = 0, sig_padding = replicate 7 0\<rparr>,
      info_table_cache = [], info_table_size = 0, info_table_spare_blocks = 0,
      info_table = \<lparr>ift_header = zero_header, write_count = 0, state_table_off = 0,
                    mapping_table_off = 0, ift_padding = 0\<rparr>,
      block_state = [], block_state_changed = 0, state_table_size = 0, block_mapping = [],
      block_mapping_changed = 0, mapping_table_size = 0, page_cache = [], protected = False,
      block_count = 0, data_block_count = 0, mgmt_start_ba = 0, main_table_ba = 0,
      backup_table_ba = 0, mapping_blocks_ba = 0, mapping_blocks_top_ba = 0, signature_ba = 0,
      log_display_level = NMBM_LOG_INFO\<rparr>"

definition zero_instance :: "chip nmbm_instance" where
  "zero_instance = blank_instance (demo_nld [] 0)"

definition demo_init :: "nat list \<Rightarrow> 32 word \<Rightarrow> chip nmbm_instance" where
  "demo_init bs fl = nmbm_init_structure (zero_instance\<lparr>lower := demo_nld bs fl\<rparr>)"

text \<open>An attached instance: 16 data blocks, the tables in blocks 16 to 21, the signature in block 31.\<close>

definition demo :: "nat list \<Rightarrow> chip nmbm_instance" where
  "demo bs = (demo_init bs 1)\<lparr>mgmt_start_ba := 16, main_table_ba := 16, backup_table_ba := 20,
      mapping_blocks_ba := 22, mapping_blocks_top_ba := 30, signature_ba := 31,
      data_block_count := 16, block_mapping := map int [0..<16] @ replicate 16 (-1)\<rparr>"

lemma demo_layout: "layout (demo [])"
  by code_simp

lemma demo_wf: "inst_wf (demo [])"
  by code_simp

lemma demo_fields [simp]:
  "block_state_changed (demo bs) = 0" "block_mapping_changed (demo bs) = 0" "protected (demo bs) = False"
  "mapping_blocks_top_ba (demo bs) = 30" "mapping_blocks_ba (demo bs) = 22" "mgmt_start_ba (demo bs) = 16"
  "block_mapping (demo bs) = map int [0..<16] @ replicate 16 (-1)" "data_block_count (demo bs) = 16"
  by (simp_all add: demo_def demo_init_def nmbm_init_structure_def Let_def zero_instance_def blank_instance_def)

lemma demo_block_count [simp]: "block_count (demo []) = 32"
  by code_simp

lemma demo_lower [simp]: "lower (demo bs) = demo_nld bs 1"
  by (simp add: demo_def demo_init_def init_structure_inst)

lemma demo_nld_check:
  "nmbm_check_lower_members (demo_nld bs fl) = (True, demo_nld bs fl)"
  by (simp add: nmbm_check_lower_members_def demo_nld_def is_power_of_2_u64_def)

lemma demo_nld_geometry: "geometry_ok (demo_nld bs fl)" "16 \<le> nld_size (demo_nld bs fl) div erasesize (demo_nld bs fl)"
  by (simp_all add: geometry_ok_def demo_nld_def)

lemma demo_first_mgmt [simp]: "first_mgmt_block (demo_init [] 1) = 16"
  by code_simp

lemma demo_init_count [simp]: "block_count (demo_init [] 1) = 32"
  by code_simp

lemma demo_init_table [simp]: "info_table_size (demo_init [] 1) = 256"
  by code_simp

end
