(* ===== verification/Nmbm_Props.thy ===== *)
theory Nmbm_Props
  imports Demo_Chip
begin

text \<open>
  The properties of NMBM as a whole, each with an instance on the chip of \<open>Demo_Chip\<close> where it has
  hypotheses. The first group is about the info tables and the layout of the management area, the
  second about attaching and creating, the third about the logic blocks, the last about the parts
  they are built from.
\<close>

unbundle bit_operations_syntax

section \<open>Info tables\<close>





text \<open>
  C3: The image of the info table that is built from an instance whose layout is well formed passes
  the header check, the checksum check and decodes to exactly the state table and the mapping table
  it was built from; the write count has advanced if there were unsaved changes.
\<close>
theorem info_table_round_trip:
  assumes "nmbm_generate_info_table_cache crc ni = (c, ni')" and "inst_wf ni" and "tables_fit ni"
    and "crc_chains crc"
  shows "nmbm_check_info_table_header ni' (info_table_cache ni')
    \<and> nmbm_check_header crc (info_table_cache ni') (info_table_size ni)
    \<and> table_states (info_table_cache ni') (state_table_off (info_table_of_bytes (info_table_cache ni')))
        (state_table_size ni) = block_state ni
    \<and> table_mapping (info_table_cache ni') (mapping_table_off (info_table_of_bytes (info_table_cache ni')))
        (mapping_table_size ni) = block_mapping ni
    \<and> write_count (info_table_of_bytes (info_table_cache ni')) =
        u32 (write_count (info_table ni) + (if c then 1 else 0))"
  using generate_round_trip [OF assms] generate_changed [OF assms(1)] by simp

theorem info_table_round_trip_witness:
  "\<exists>c ni'. nmbm_generate_info_table_cache demo_crc (demo []) = (c, ni')
     \<and> nmbm_check_info_table_header ni' (info_table_cache ni')"
proof -
  obtain c ni' where g: "nmbm_generate_info_table_cache demo_crc (demo []) = (c, ni')" by fastforce
  have "tables_fit (demo [])" by code_simp
  from info_table_round_trip [OF g demo_wf this demo_crc_chains] g show ?thesis by blast
qed

text \<open>
  C4: A successful write of a management range has found its start at a good block of the range, ends
  within the range, changes no block state outside of it, and touches no flash address outside the
  blocks of the range.
\<close>
theorem write_mgmt_range_result:
  assumes "nmbm_write_mgmt_range ni ba limit data = (Some (st, en), ni')" and "data \<noteq> []"
  shows "ba \<le> st \<and> st < en \<and> en \<le> limit \<and> nmbm_get_block_state ni' st = BLOCK_ST_GOOD
    \<and> (\<forall>b. b \<notin> {ba..<limit} \<longrightarrow> nmbm_get_block_state ni' b = nmbm_get_block_state ni b)
    \<and> inst_step (\<Union>b\<in>{ba..<limit}. blk_writes ni b) ni ni'"
proof -
  let ?W = "\<Union>b\<in>{ba..<limit}. blk_writes ni b"
  have post: "mgmt_range_post ?W ni ba limit data (length data) 0 (Some (st, en)) ni'"
    by (rule write_mgmt_range_post [OF assms(1)]) auto
  then have "inst_step ?W ni ni'" by (simp add: mgmt_range_post_def inst_degrade)
  moreover have "\<forall>b. b \<notin> {ba..<limit} \<longrightarrow> nmbm_get_block_state ni' b = nmbm_get_block_state ni b"
    using post by (auto simp: mgmt_range_post_def)
  ultimately show ?thesis using post assms(2) by (auto simp: mgmt_range_post_def)
qed

theorem write_mgmt_range_result_witness:
  "\<exists>ni'. nmbm_write_mgmt_range (demo []) 16 18 [1] = (Some (16, 17), ni')
     \<and> nmbm_get_block_state ni' 16 = BLOCK_ST_GOOD"
proof -
  have "fst (nmbm_write_mgmt_range (demo []) 16 18 [1]) = Some (16, 17)" by code_simp
  then obtain ni' where w: "nmbm_write_mgmt_range (demo []) 16 18 [1] = (Some (16, 17), ni')"
    by (metis prod.collapse)
  from write_mgmt_range_result [OF w] w show ?thesis by simp
qed

section \<open>Attaching and creating\<close>



text \<open>
  C6: With the read-only flag set, attaching only resets, reads and queries the device: no page is
  written, no block erased and none marked bad.
\<close>
theorem attach_read_only_safe:
  assumes "nmbm_check_lower_members nld0 = (True, nld)" and "geometry_ok nld"
    and "16 \<le> nld_size nld div erasesize nld" and "lower_flag nld NMBM_F_READ_ONLY"
  shows "\<exists>ret ni'. nmbm_attach crc nld0 ni = Some (ret, nld, ni') \<and> dev_reach {} nld (arg nld) (arg (lower ni'))"
proof -
  obtain ret ni' where a: "nmbm_attach crc nld0 ni = Some (ret, nld, ni')"
    "inst_step UNIV (nmbm_init_structure (ni\<lparr>log_display_level := NMBM_LOG_INFO, lower := nld\<rparr>)) ni'"
    using assms(1-3) by (rule attach_spec)
  from inst_step_read_only [OF a(2)] assms(4)
  have "inst_step {} (nmbm_init_structure (ni\<lparr>log_display_level := NMBM_LOG_INFO, lower := nld\<rparr>)) ni'"
    by (simp add: init_structure_inst)
  then have "dev_reach {} nld (arg nld) (arg (lower ni'))"
    by (elim inst_stepE) (simp add: init_structure_inst)
  with a show ?thesis by blast
qed

theorem attach_read_only_safe_witness:
  "\<exists>ret ni'. nmbm_attach demo_crc (demo_nld [] 5) zero_instance = Some (ret, demo_nld [] 5, ni')
     \<and> dev_reach {} (demo_nld [] 5) (arg (demo_nld [] 5)) (arg (lower ni'))"
proof -
  have "lower_flag (demo_nld [] 5) NMBM_F_READ_ONLY" by code_simp
  from attach_read_only_safe [OF demo_nld_check demo_nld_geometry this] show ?thesis .
qed

text \<open>
  C7: Creating NMBM on a chip touches nothing below the management area, so it keeps the data blocks;
  and when it succeeds on a writable device, the instance has the layout.
\<close>
theorem create_new_confined:
  assumes "nmbm_create_new crc ni = (r, ni')" and "0 < first_mgmt_block ni"
    and "first_mgmt_block ni < block_count ni" and "block_count ni < 2 ^ 32" and "0 < info_table_size ni"
  shows "inst_step (mgmt_area (ni\<lparr>mgmt_start_ba := first_mgmt_block ni\<rparr>)) ni ni'
    \<and> (r \<and> \<not> read_only ni \<longrightarrow> layout ni')"
  using create_new_ok [OF assms(1), of "mgmt_area (ni\<lparr>mgmt_start_ba := first_mgmt_block ni\<rparr>)"] assms(2-5)
    confined_layout [OF _ mgmt_area_not_all] by auto

theorem create_new_confined_witness:
  "\<exists>r ni'. nmbm_create_new demo_crc (demo_init [] 1) = (r, ni')
     \<and> inst_step (mgmt_area ((demo_init [] 1)\<lparr>mgmt_start_ba := first_mgmt_block (demo_init [] 1)\<rparr>)) (demo_init [] 1) ni'"
proof -
  obtain r ni' where c: "nmbm_create_new demo_crc (demo_init [] 1) = (r, ni')" by fastforce
  have "0 < first_mgmt_block (demo_init [] 1)" "first_mgmt_block (demo_init [] 1) < block_count (demo_init [] 1)"
    "block_count (demo_init [] 1) < 2 ^ 32" "0 < info_table_size (demo_init [] 1)"
    by simp_all
  from create_new_confined [OF c this] c show ?thesis by blast
qed

text \<open>
  C8: For a device that passes the check and whose sizes are in range, the instance is laid out so
  that the state table has room for every block, the mapping table has one entry per block, and
  header, state table and mapping table lie in this order, without overlap, inside the info table.
\<close>
theorem init_structure_well_formed:
  assumes "nmbm_check_lower_members nld0 = (True, nld)" and "geometry_ok nld"
  shows "inst_wf (nmbm_init_structure (ni\<lparr>lower := nld\<rparr>))
    \<and> block_count (nmbm_init_structure (ni\<lparr>lower := nld\<rparr>)) = nld_size nld div erasesize nld"
  using init_structure_wf [OF assms] by blast

theorem init_structure_well_formed_witness:
  "inst_wf (nmbm_init_structure (zero_instance\<lparr>lower := demo_nld [3] 1\<rparr>))"
  using init_structure_well_formed [OF demo_nld_check demo_nld_geometry(1)] by blast

text \<open>
  C9: The search for the signature returns whenever its lower limit is positive; what it finds was
  read from the chip, carries the magic number and passes the checksum, and lies at or above the
  block below the limit.
\<close>
theorem find_signature_checked:
  assumes "0 < signature_limit ni (u32 (nld_size (lower ni) div 2 ^ erasesize_shift ni))"
  shows "\<exists>r ni'. nmbm_find_signature crc ni = Some (r, ni') \<and> phys_step {} ni ni'
    \<and> (\<forall>s b. r = Some (s, b) \<longrightarrow>
         signature_limit ni (u32 (nld_size (lower ni) div 2 ^ erasesize_shift ni)) \<le> Suc b
         \<and> b < nld_size (lower ni) div 2 ^ erasesize_shift ni
         \<and> magic (sig_header s) = NMBM_MAGIC_SIGNATURE
         \<and> (\<exists>bs. s = signature_of_bytes bs \<and> nmbm_check_header crc bs sizeof_signature))"
proof -
  define n where "n = u32 (nld_size (lower ni) div 2 ^ erasesize_shift ni)"
  have le: "n \<le> nld_size (lower ni) div 2 ^ erasesize_shift ni" by (simp add: n_def u32_le)
  have "n < 2 ^ 32" by (simp add: n_def)
  from find_signature_loop_returns [OF assms [folded n_def] this, of crc ni "replicate 48 0" "{}"] le
  show ?thesis unfolding nmbm_find_signature_def Let_def n_def [symmetric]
    by (fastforce intro: less_le_trans)
qed

theorem find_signature_checked_witness:
  "\<exists>r ni'. nmbm_find_signature demo_crc (demo []) = Some (r, ni') \<and> phys_step {} (demo []) ni'"
proof -
  have "0 < signature_limit (demo []) (u32 (nld_size (lower (demo [])) div 2 ^ erasesize_shift (demo [])))"
    by code_simp
  from find_signature_checked [OF this, of demo_crc] show ?thesis by blast
qed

text \<open>
  C10: On a chip of fewer than 16 blocks the lower limit is zero, the loop condition cannot fail, and
  when every block is reported bad the search never returns.
\<close>
theorem find_signature_small_chip:
  assumes "nld_size (lower ni) div 2 ^ erasesize_shift ni < 16"
    and "max_reserved_blocks (lower ni) = 0" and "is_bad_block (lower ni) = Some (\<lambda>d a. (1, d))"
  shows "nmbm_find_signature crc ni = None"
proof (rule ccontr)
  assume "nmbm_find_signature crc ni \<noteq> None"
  then obtain y where y: "nmbm_find_signature crc ni = Some y" by blast
  define n where "n = u32 (nld_size (lower ni) div 2 ^ erasesize_shift ni)"
  have "n < 16" using assms(1) u32_le le_less_trans unfolding n_def by blast
  then have "signature_limit ni n = 0" using assms(2) by (simp add: signature_limit_def)
  with y find_signature_loop_bad_chip [of crc ni n "signature_limit ni n" "replicate 48 0" y] assms(3)
  show False by (simp add: nmbm_find_signature_def Let_def n_def)
qed

theorem find_signature_small_chip_witness:
  "nmbm_find_signature demo_crc (zero_instance\<lparr>lower := (demo_nld [] 1)\<lparr>nld_size := 8,
     is_bad_block := Some (\<lambda>d a. (1, d))\<rparr>\<rparr>) = None"
  by (rule find_signature_small_chip) (simp_all add: demo_nld_def zero_instance_def blank_instance_def)

end
