(* ===== verification/Nmbm_Logic_Props.thy ===== *)
theory Nmbm_Logic_Props
  imports Demo_Chip
begin

text \<open>
  The properties of the operations on logic blocks, of the mapping to spare blocks, and of the
  parts these are built from: the state table, the walks, the checksums and the initial mapping.
\<close>

unbundle bit_operations_syntax

section \<open>Logic blocks\<close>

text \<open>
  C11: Erasing a logic block always returns. It returns 0 with the block mapped to a physical block
  that is neither bad nor waiting to be remapped, or \<^verbatim>\<open>-EIO\<close> with the block unmapped; the mapping of
  every other logic block is unchanged.
\<close>
theorem erase_logic_block_result:
  assumes "nmbm_erase_logic_block crc ni lb = (ret, ni')" and "lb < length (block_mapping ni)"
  shows "(ret = - EIO \<and> mapped_pb ni' lb < 0
      \<or> ret = 0 \<and> 0 \<le> mapped_pb ni' lb
          \<and> nmbm_get_block_state ni' (nat (mapped_pb ni' lb)) \<notin> {BLOCK_ST_BAD, BLOCK_ST_NEED_REMAP})
    \<and> (\<forall>l. l \<noteq> lb \<longrightarrow> mapped_pb ni' l = mapped_pb ni l)"
  using erase_logic_block_post [OF assms] by (auto simp: erase_post_def)

theorem erase_logic_block_result_witness:
  "\<exists>ret ni'. nmbm_erase_logic_block demo_crc (demo []) 3 = (ret, ni')
     \<and> (ret = - EIO \<and> mapped_pb ni' 3 < 0 \<or> ret = 0 \<and> 0 \<le> mapped_pb ni' 3)"
proof -
  obtain ret ni' where e: "nmbm_erase_logic_block demo_crc (demo []) 3 = (ret, ni')" by fastforce
  have "3 < length (block_mapping (demo []))" by simp
  from erase_logic_block_result [OF e this] e show ?thesis by blast
qed

text \<open>
  C12: Erasing a mapped logic block, remapping included, writes nothing but the physical block it is
  mapped to and the management area up to the top of the spare blocks, and keeps the layout.
\<close>
theorem erase_logic_block_safe:
  assumes "nmbm_erase_logic_block crc ni lb = (ret, ni')" and "layout ni"
    and "mapping_blocks_top_ba ni < block_count ni" and "block_count ni < 2 ^ 31"
    and "lb < length (block_mapping ni)"
  shows "inst_step (spare_area ni \<union> blk_addrs ni (nat (mapped_pb ni lb))) ni ni' \<and> layout ni'"
proof -
  let ?W = "spare_area ni \<union> blk_addrs ni (nat (mapped_pb ni lb))"
  have g: "guarded ?W ni" using assms(2-4) by (intro guardedI) auto
  have "?W \<subseteq> {..<2 ^ 64}" using spare_area_bound blk_addrs_bound by (metis Un_least lessThan_iff subsetI)
  then have W: "?W \<noteq> UNIV" by (rule bounded_not_all)
  have "inst_step ?W ni ni' \<and> guarded ?W ni'"
    using erase_logic_block_confined [OF assms(1) g assms(5)] by blast
  with W show ?thesis by (auto simp: guarded_def dest: confined_layout)
qed

theorem erase_logic_block_safe_witness:
  "\<exists>ret ni'. nmbm_erase_logic_block demo_crc (demo []) 3 = (ret, ni') \<and> layout ni'"
proof -
  obtain ret ni' where e: "nmbm_erase_logic_block demo_crc (demo []) 3 = (ret, ni')" by fastforce
  have "mapping_blocks_top_ba (demo []) < block_count (demo [])" "block_count (demo []) < 2 ^ 31"
    "3 < length (block_mapping (demo []))" by simp_all
  from erase_logic_block_safe [OF e demo_layout this] e show ?thesis by blast
qed

text \<open>
  C13: Writing a page through a logic block either succeeds and leaves the block states alone, or
  fails with \<^verbatim>\<open>-EIO\<close>; a failed attempt to program a good block leaves it marked bad or to be remapped
  at its next erasure. The mapping never changes.
\<close>
theorem write_logic_page_result:
  assumes "nmbm_write_logic_page crc ni addr data oob mode = (ret, ni')"
  shows "block_mapping ni' = block_mapping ni
    \<and> (ret = 0 \<and> 0 \<le> mapped_pb ni (addr2ba ni addr) \<and> block_state ni' = block_state ni
       \<or> ret = - EIO \<and> (ni' = ni \<or>
           (nat (mapped_pb ni (addr2ba ni addr)) < table_cap (block_state ni) \<longrightarrow>
            nmbm_get_block_state ni' (nat (mapped_pb ni (addr2ba ni addr))) \<in> {BLOCK_ST_BAD, BLOCK_ST_NEED_REMAP})))"
  using write_logic_page_ok [OF assms, of UNIV] by (auto simp: write_page_post_def)

theorem write_logic_page_result_witness:
  "\<exists>ret ni'. nmbm_write_logic_page demo_crc (demo []) 64 (Some [1]) None NMBM_MODE_RAW = (ret, ni')
     \<and> block_mapping ni' = block_mapping (demo [])"
proof -
  obtain ret ni' where w: "nmbm_write_logic_page demo_crc (demo []) 64 (Some [1]) None NMBM_MODE_RAW = (ret, ni')"
    by fastforce
  from write_logic_page_result [OF w] w show ?thesis by blast
qed

text \<open>
  C14: A block that has been marked bad through \<^verbatim>\<open>nmbm_mark_bad_block\<close> is reported bad by
  \<^verbatim>\<open>nmbm_check_bad_block\<close> at every address of the block.
\<close>
theorem mark_bad_then_check:
  assumes "write_guard ni addr = None" and "addr2ba ni addr < length (block_mapping ni)"
    and "addr2ba ni addr' = addr2ba ni addr" and "addr' < ba2addr ni (data_block_count ni)"
  shows "fst (nmbm_mark_bad_block crc ni addr) = 0
    \<and> nmbm_check_bad_block (snd (nmbm_mark_bad_block crc ni addr)) addr' = 1"
proof -
  obtain ret ni' where m: "nmbm_mark_bad_block crc ni addr = (ret, ni')" by fastforce
  note ok = mark_bad_block_ok [OF m assms(1,2)]
  have "erasesize_shift ni' = erasesize_shift ni"
    using mark_bad_block_shift [OF m] .
  then have "addr2ba ni' addr' = addr2ba ni addr" using assms(3) by (simp add: addr2ba_def)
  with m ok assms(4) show ?thesis by (simp add: nmbm_check_bad_block_def mapped_pb_def Let_def)
qed

theorem mark_bad_then_check_witness:
  "nmbm_check_bad_block (snd (nmbm_mark_bad_block demo_crc (demo []) 256)) 300 = 1"
proof -
  have "write_guard (demo []) 256 = None" by code_simp
  moreover have "addr2ba (demo []) 256 = 2" "addr2ba (demo []) 300 = 2" by code_simp+
  moreover have "300 < ba2addr (demo []) (data_block_count (demo []))" by code_simp
  ultimately show ?thesis
    using mark_bad_then_check [of "demo []" 256 300 demo_crc] by simp
qed



text \<open>
  C16: Reading a range only reads the device. It returns the number of bytes it has read, which is
  the whole size unless a page could not be read for another reason than an ECC error; the result is
  then that error, \<^verbatim>\<open>-EBADMSG\<close> after an ECC error, and otherwise a number of bit flips.
\<close>
theorem read_range_result:
  assumes "nmbm_read_range ni addr sz data mode = (ret, data', Some len, ni')"
  shows "phys_step {} ni ni' \<and> len \<le> sz \<and> (0 \<le> ret \<or> ret = - EBADMSG \<longrightarrow> len = sz)"
proof -
  obtain r d left ecc flips n where l: "read_range_loop ni addr data 0 sz mode 0 False 0 = (r, d, left, ecc, flips, n)"
    by (metis prod.exhaust)
  have "read_range_post ni sz 0 (r, d, left, ecc, flips, n)"
    using read_range_loop_post [of ni sz 0 addr data 0 mode 0 False] by (simp add: l)
  then have post: "phys_step {} ni n" "left \<le> sz" "0 \<le> r \<or> r = - EBADMSG \<Longrightarrow> left = 0"
    by (auto simp: read_range_post_def)
  have "ret = (if r < 0 \<and> r \<noteq> - EBADMSG then r else if ecc then - EBADMSG else flips)" "len = sz - left" "ni' = n"
    using assms l by (simp_all add: nmbm_read_range_def split: option.splits if_split_asm) auto
  with post show ?thesis by (cases "r < 0 \<and> r \<noteq> - EBADMSG") auto
qed

theorem read_range_result_witness:
  "\<exists>ret data' ni'. nmbm_read_range (demo []) 60 8 (replicate 8 0) NMBM_MODE_PLACE_OOB = (ret, data', Some 8, ni')
     \<and> phys_step {} (demo []) ni'"
proof -
  have "fst (snd (snd (nmbm_read_range (demo []) 60 8 (replicate 8 0) NMBM_MODE_PLACE_OOB))) = Some 8"
    by code_simp
  moreover obtain ret data' len ni'
    where "nmbm_read_range (demo []) 60 8 (replicate 8 0) NMBM_MODE_PLACE_OOB = (ret, data', len, ni')"
    by (rule prod_cases4)
  ultimately have r: "nmbm_read_range (demo []) 60 8 (replicate 8 0) NMBM_MODE_PLACE_OOB = (ret, data', Some 8, ni')"
    by (simp only: fst_conv snd_conv)
  from read_range_result [OF r] r show ?thesis by blast
qed



text \<open>
  A part of a page is written together with what the page cache held before: only the bytes in
  front of the data are set to ones, the bytes behind it keep stale values and reach the flash.
\<close>
lemma write_range_stale_tail:
  "let ni' = snd (snd (nmbm_write_range demo_crc ((demo [])\<lparr>page_cache := replicate 68 0xAB\<rparr>) 0 [1]
                         NMBM_MODE_PLACE_OOB))
   in pages (arg (lower ni')) ! 0 = 1 # replicate 63 0xAB"
  by code_simp

section \<open>Mapping to spare blocks\<close>

text \<open>
  C18: A logic block is mapped to the highest good block between the tables and the top of the spare
  blocks; if there is one the mapping succeeds, changes one entry, lowers the top by one and counts
  the change.
\<close>
theorem map_block_highest_spare:
  assumes "mapping_blocks_ba ni < mapping_blocks_top_ba ni" and "mapping_blocks_top_ba ni < block_count ni"
    and "block_count ni < 2 ^ 31"
  shows "case nth_good ni 0 (rev [Suc (mapping_blocks_ba ni)..<Suc (mapping_blocks_top_ba ni)]) of
      None \<Rightarrow> fst (nmbm_map_block crc ni lb) = False
    | Some pb \<Rightarrow> nmbm_map_block crc ni lb =
        (True, ni\<lparr>block_mapping := (block_mapping ni)[lb := int pb],
                  mapping_blocks_top_ba := mapping_blocks_top_ba ni - 1,
                  block_mapping_changed := u32 (block_mapping_changed ni + 1)\<rparr>)"
proof -
  have lo: "mapping_blocks_ba ni < 2 ^ 32" "mapping_blocks_ba ni < block_count ni" using assms by simp_all
  have w: "nmbm_block_walk ni False (mapping_blocks_top_ba ni) 0 (s32 (mapping_blocks_ba ni))
      = nth_good ni 0 (rev [Suc (mapping_blocks_ba ni)..<Suc (mapping_blocks_top_ba ni)])"
    using lo walk_desc_nth_good [of ni "mapping_blocks_top_ba ni" 0 "mapping_blocks_ba ni"]
    by (simp add: nmbm_block_walk_def nmbm_block_walk_desc_def u32_of_int_s32 Let_def del: upt_Suc)
  have "pb \<le> mapping_blocks_top_ba ni"
    if "nth_good ni 0 (rev [Suc (mapping_blocks_ba ni)..<Suc (mapping_blocks_top_ba ni)]) = Some pb" for pb
    using nth_good_SomeD(1) [OF that] by auto
  then have "s32 pb = int pb"
    if "nth_good ni 0 (rev [Suc (mapping_blocks_ba ni)..<Suc (mapping_blocks_top_ba ni)]) = Some pb" for pb
    using that assms by (fastforce simp: s32_def u32_id)
  with w assms show ?thesis
    by (auto simp: nmbm_map_block_def sub32_def split: option.splits prod.splits simp del: upt_Suc)
qed

theorem map_block_highest_spare_witness:
  "fst (nmbm_map_block demo_crc (demo []) 4) = True"
proof -
  have "nth_good (demo []) 0 (rev [Suc (mapping_blocks_ba (demo []))..<Suc (mapping_blocks_top_ba (demo []))]) = Some 30"
    by code_simp
  with map_block_highest_spare [of "demo []" demo_crc 4] show ?thesis by (simp del: upt_Suc)
qed

text \<open>
  C19: As long as the block at the top of the spare blocks is good, mapping a logic block keeps two
  logic blocks from sharing a physical block, and keeps the spare blocks that are left unused.
\<close>
theorem map_block_injective:
  assumes "mapping_inj ni" and "nmbm_map_block crc ni lb = (True, ni')" and "lb < length (block_mapping ni)"
    and "nmbm_get_block_state ni (mapping_blocks_top_ba ni) = BLOCK_ST_GOOD"
    and "layout ni" and "mapping_blocks_top_ba ni < block_count ni" and "block_count ni < 2 ^ 31"
  shows "mapping_inj ni' \<and> mapped_pb ni' lb = int (mapping_blocks_top_ba ni)"
  using map_block_keeps_inj [OF assms] .

theorem map_block_injective_witness:
  "\<exists>ni'. nmbm_map_block demo_crc (demo []) 4 = (True, ni') \<and> mapping_inj ni'"
proof -
  have "fst (nmbm_map_block demo_crc (demo []) 4)" by code_simp
  then obtain ni' where m: "nmbm_map_block demo_crc (demo []) 4 = (True, ni')" by (metis prod.collapse)
  have i: "mapping_inj (demo [])" and g: "nmbm_get_block_state (demo []) 30 = BLOCK_ST_GOOD" by code_simp+
  have "mapping_inj ni' \<and> mapped_pb ni' 4 = int (mapping_blocks_top_ba (demo []))"
    by (rule map_block_injective [OF i m]) (simp_all add: g demo_layout)
  with m show ?thesis by blast
qed


section \<open>The parts\<close>

text \<open>
  C21: The packed state table behaves like an array of two-bit numbers: writing the state of a block
  that the table has room for changes that entry and no other, and the change counter advances exactly
  when the entry has changed.
\<close>
theorem block_state_array:
  assumes "ba < table_cap (block_state ni)"
  shows "nmbm_get_block_state (snd (nmbm_set_block_state ni ba st)) b =
      (if b = ba then st mod 4 else nmbm_get_block_state ni b)
    \<and> fst (nmbm_set_block_state ni ba st) = (nmbm_get_block_state ni ba \<noteq> st mod 4)
    \<and> block_state_changed (snd (nmbm_set_block_state ni ba st)) =
        (if nmbm_get_block_state ni ba \<noteq> st mod 4 then u32 (block_state_changed ni + 1)
         else block_state_changed ni)"
  using assms by (simp add: get_set_block_state set_block_state_changed)

theorem block_state_array_witness:
  "nmbm_get_block_state (snd (nmbm_set_block_state (demo []) 17 BLOCK_ST_NEED_REMAP)) 17 = 2"
proof -
  have "17 < table_cap (block_state (demo []))" by code_simp
  from block_state_array [OF this, of 2 17] show ?thesis by simp
qed



text \<open>
  The comment on \<^verbatim>\<open>nmbm_block_walk\<close> gives a negative limit the meaning of no limit. Walking
  downwards with a negative limit finds nothing, from whatever block of the chip it starts.
\<close>
lemma block_walk_down_negative_limit:
  assumes "k < 2 ^ 31" and "- (2 ^ 31) \<le> limit" and "limit < 0" and "ba < block_count ni"
    and "block_count ni \<le> 2 ^ 31"
  shows "nmbm_block_walk ni False ba (int k) limit = None"
  using assms by (simp add: nmbm_block_walk_def nmbm_block_walk_desc_def Let_def walk_count walk_limit
      walk_desc_nth_good sub32_def nth_good_def del: upt_Suc)

text \<open>
  A structure whose checksum has just been updated passes the check of its header, for every
  checksum function that can be computed piece by piece.
\<close>
lemma checksum_round_trip:
  assumes "crc_chains crc" and "n = hdr_size (header_of_bytes data)" and "16 \<le> n" and "n \<le> length data"
    and "n \<le> sz"
  shows "nmbm_check_header crc (nmbm_update_checksum crc data) sz"
  using check_header_update_checksum [OF assms] .

lemma checksum_round_trip_witness:
  "nmbm_check_header demo_crc (nmbm_update_checksum demo_crc (replicate 8 0 @ le32 20 @ replicate 8 7)) 20"
proof -
  let ?data = "replicate 8 0 @ le32 20 @ replicate 8 7 :: byte list"
  have "hdr_size (header_of_bytes ?data) = get32 (le32 20)"
    by (simp add: header_of_bytes_def memget_append)
  then have "20 = hdr_size (header_of_bytes ?data)" by (simp add: get32_le32)
  then show ?thesis by (rule checksum_round_trip [OF demo_crc_chains]) simp_all
qed

text \<open>
  C23: The mapping table of a fresh chip lists the usable blocks below the management area in ascending
  order, followed by unmapped entries; so it maps no two logic blocks to one physical block.
\<close>
theorem build_mapping_table_usable:
  assumes "length (block_mapping ni) = block_count ni" and "mgmt_start_ba ni \<le> block_count ni"
    and "block_count ni \<le> 2 ^ 31"
  shows "block_mapping (nmbm_build_mapping_table ni) =
      map int (usable_blocks ni) @ replicate (block_count ni - length (usable_blocks ni)) (-1)
    \<and> data_block_count (nmbm_build_mapping_table ni) = length (usable_blocks ni)
    \<and> distinct (map int (usable_blocks ni))"
proof -
  have "s32 pb = int pb" if "pb \<in> set (usable_blocks ni)" for pb
    using that assms(2,3) by (auto simp: usable_blocks_def s32_def u32_id)
  then have "map s32 (usable_blocks ni) = map int (usable_blocks ni)" by simp
  moreover have "distinct (map int (usable_blocks ni))"
    by (simp add: distinct_map usable_blocks_def inj_on_def)
  ultimately show ?thesis by (simp add: build_mapping_table_eq [OF assms(1,2)])
qed

theorem build_mapping_table_usable_witness:
  "data_block_count (nmbm_build_mapping_table (demo [])) = length (usable_blocks (demo []))"
  using build_mapping_table_usable [of "demo []"] by simp

text \<open>
  \<^verbatim>\<open>nmbn_read_data\<close> never returns a positive value, although its comment promises the number of
  corrected bit flips.
\<close>
lemma read_data_never_positive:
  "fst (nmbn_read_data ni addr data sz) \<le> 0"
  using read_data_loop_nonpos [of ni addr data 0 sz] by (cases "nmbn_read_data ni addr data sz")
    (auto simp: nmbn_read_data_def)

end
