(* ===== verification/Nmbm_Lock.thy ===== *)
theory Nmbm_Lock
  imports C_Prelude
begin

text \<open>
  The device lock of \<^verbatim>\<open>nmbm-mtd.c\<close>: \<^verbatim>\<open>nmbm_get_device\<close> and \<^verbatim>\<open>nmbm_release_device\<close> keep the state of
  the device under a spin lock, and tasks that do not get the device sleep on a wait queue. The
  theory has the two functions and the steps of any number of tasks that call them, and shows that
  the device is never held twice, that no wake-up is lost and that a suspended device stays so.
\<close>

section \<open>The lock\<close>

text \<open>The states of \<^verbatim>\<open>flstate_t\<close> that the driver uses.\<close>

datatype flstate = FL_READY | FL_READING | FL_WRITING | FL_ERASING | FL_PM_SUSPENDED

text \<open>
  One pass of \<^verbatim>\<open>nmbm_get_device\<close> under the spin lock: the new state, or \<open>None\<close> when the task has to
  wait on the queue and try again.
\<close>

definition nmbm_get_device :: "flstate \<Rightarrow> flstate \<Rightarrow> flstate option" where
  "nmbm_get_device st new_state =
     (if st = FL_READY then Some new_state
      else if new_state = FL_PM_SUSPENDED \<and> st = FL_PM_SUSPENDED then Some st
      else None)"

text \<open>
  A task is outside of the driver, at the label \<^verbatim>\<open>retry\<close>, asleep on the queue, or has got the device.
  Entering the queue and waking it happen under the spin lock, so they are part of the step that tests
  or sets the state; \<^verbatim>\<open>wake_up\<close> wakes every task of the queue, since none has entered it exclusively.
  A device that was got for suspension (\<^verbatim>\<open>nmbm_mtd_shutdown\<close>) is never released.
\<close>

datatype task_state = IDLE | GETTING flstate | WAITING flstate | HOLDING flstate

record 't lock_system =
  dev_state :: flstate
  tasks :: "'t \<Rightarrow> task_state"

fun wake :: "task_state \<Rightarrow> task_state" where
  "wake (WAITING st) = GETTING st"
| "wake x = x"

inductive lock_step :: "'t lock_system \<Rightarrow> 't lock_system \<Rightarrow> bool" where
  call: "tasks s t = IDLE \<Longrightarrow> st \<noteq> FL_READY \<Longrightarrow> lock_step s (s\<lparr>tasks := (tasks s)(t := GETTING st)\<rparr>)"
| get: "tasks s t = GETTING st \<Longrightarrow> nmbm_get_device (dev_state s) st = Some d \<Longrightarrow>
    lock_step s \<lparr>dev_state = d, tasks = (tasks s)(t := HOLDING st)\<rparr>"
| wait: "tasks s t = GETTING st \<Longrightarrow> nmbm_get_device (dev_state s) st = None \<Longrightarrow>
    lock_step s (s\<lparr>tasks := (tasks s)(t := WAITING st)\<rparr>)"
| release: "tasks s t = HOLDING st \<Longrightarrow> st \<noteq> FL_PM_SUSPENDED \<Longrightarrow>
    lock_step s \<lparr>dev_state = FL_READY, tasks = wake \<circ> (tasks s)(t := IDLE)\<rparr>"

inductive_cases lock_stepE: "lock_step s s'"

definition lock_init :: "'t lock_system" where
  "lock_init = \<lparr>dev_state = FL_READY, tasks = (\<lambda>_. IDLE)\<rparr>"

definition lock_inv :: "'t lock_system \<Rightarrow> bool" where
  "lock_inv s \<longleftrightarrow>
     (\<forall>t st. tasks s t = HOLDING st \<longrightarrow> dev_state s = st)
     \<and> (\<forall>t st. tasks s t \<in> {GETTING st, WAITING st, HOLDING st} \<longrightarrow> st \<noteq> FL_READY)
     \<and> (\<forall>t u st. tasks s t = HOLDING st \<and> tasks s u = HOLDING st \<and> t \<noteq> u \<longrightarrow> st = FL_PM_SUSPENDED)
     \<and> (dev_state s \<noteq> FL_READY \<longrightarrow> (\<exists>t. tasks s t = HOLDING (dev_state s)))
     \<and> (\<forall>t st. tasks s t = WAITING st \<longrightarrow> dev_state s \<noteq> FL_READY)"

lemma wake_simps [simp]:
  "wake x = HOLDING st \<longleftrightarrow> x = HOLDING st" "wake x \<noteq> WAITING st" "wake x = IDLE \<longleftrightarrow> x = IDLE"
  "wake x = GETTING st \<longleftrightarrow> x = GETTING st \<or> x = WAITING st"
  by (cases x; simp)+

lemma lock_invI:
  assumes "\<And>t st. tasks s t = HOLDING st \<Longrightarrow> dev_state s = st"
    and "\<And>t st. tasks s t \<in> {GETTING st, WAITING st, HOLDING st} \<Longrightarrow> st \<noteq> FL_READY"
    and "\<And>t u st. tasks s t = HOLDING st \<Longrightarrow> tasks s u = HOLDING st \<Longrightarrow> t \<noteq> u \<Longrightarrow> st = FL_PM_SUSPENDED"
    and "dev_state s \<noteq> FL_READY \<Longrightarrow> \<exists>t. tasks s t = HOLDING (dev_state s)"
    and "\<And>t st. tasks s t = WAITING st \<Longrightarrow> dev_state s \<noteq> FL_READY"
  shows "lock_inv s"
  unfolding lock_inv_def using assms by blast

lemma lock_invD:
  assumes "lock_inv s"
  shows "tasks s t = HOLDING st \<Longrightarrow> dev_state s = st"
    and "tasks s t \<in> {GETTING st, WAITING st, HOLDING st} \<Longrightarrow> st \<noteq> FL_READY"
    and "tasks s t = HOLDING st \<Longrightarrow> tasks s u = HOLDING st \<Longrightarrow> t \<noteq> u \<Longrightarrow> st = FL_PM_SUSPENDED"
    and "dev_state s \<noteq> FL_READY \<Longrightarrow> \<exists>t. tasks s t = HOLDING (dev_state s)"
    and "tasks s t = WAITING st \<Longrightarrow> dev_state s \<noteq> FL_READY"
  using assms unfolding lock_inv_def by blast+

lemma lock_inv_init: "lock_inv lock_init"
  by (simp add: lock_inv_def lock_init_def)

lemma lock_inv_get:
  assumes "lock_inv s" and "tasks s t = GETTING st" and "nmbm_get_device (dev_state s) st = Some d"
  shows "lock_inv \<lparr>dev_state = d, tasks = (tasks s)(t := HOLDING st)\<rparr>"
proof -
  note inv = lock_invD [OF assms(1)]
  have d: "d = st" "dev_state s = FL_READY \<or> st = FL_PM_SUSPENDED \<and> dev_state s = FL_PM_SUSPENDED"
    using assms(3) by (auto simp: nmbm_get_device_def split: if_splits)
  have st: "st \<noteq> FL_READY" using inv(2) [of t st] assms(2) by simp
  have hold: "st = FL_PM_SUSPENDED \<and> st' = FL_PM_SUSPENDED" if "tasks s u = HOLDING st'" for u st'
    using inv(1,2) [of u st'] that d(2) by auto
  have busy: "st' \<noteq> FL_READY" if "tasks s u = GETTING st' \<or> tasks s u = WAITING st' \<or> tasks s u = HOLDING st'" for u st'
    using inv(2) [of u st'] that by blast
  show ?thesis using d(1) st hold busy by (intro lock_invI) (auto split: if_splits)
qed

lemma lock_inv_release:
  assumes "lock_inv s" and "tasks s t = HOLDING st" and "st \<noteq> FL_PM_SUSPENDED"
  shows "lock_inv \<lparr>dev_state = FL_READY, tasks = wake \<circ> (tasks s)(t := IDLE)\<rparr>"
proof -
  note inv = lock_invD [OF assms(1)]
  have hold: "u = t" if "tasks s u = HOLDING st'" for u st'
    using inv(1) [OF that] inv(1) [OF assms(2)] inv(3) [OF assms(2), of u] that assms(3) by metis
  have busy: "st' \<noteq> FL_READY" if "tasks s u = GETTING st' \<or> tasks s u = WAITING st' \<or> tasks s u = HOLDING st'" for u st'
    using inv(2) [of u st'] that by blast
  show ?thesis using busy by (intro lock_invI) (auto split: if_splits dest: hold)
qed

lemma lock_inv_queue:
  assumes "lock_inv s" and "\<And>st. tasks s t \<noteq> HOLDING st" and "st \<noteq> FL_READY"
    and "new = GETTING st \<or> new = WAITING st \<and> dev_state s \<noteq> FL_READY"
  shows "lock_inv (s\<lparr>tasks := (tasks s)(t := new)\<rparr>)"
proof -
  note inv = lock_invD [OF assms(1)]
  have "\<exists>u. u \<noteq> t \<and> tasks s u = HOLDING (dev_state s)" if "dev_state s \<noteq> FL_READY"
    using inv(4) [OF that] assms(2) by metis
  then show ?thesis using inv(1-3,5) assms(2,3,4) by (intro lock_invI) (auto split: if_splits)
qed

lemma lock_inv_step: "lock_step s s' \<Longrightarrow> lock_inv s \<Longrightarrow> lock_inv s'"
proof (induction rule: lock_step.induct)
  case (call s t st)
  then show ?case by (intro lock_inv_queue [where st = st]) auto
next
  case (get s t st d)
  then show ?case by (blast intro: lock_inv_get)
next
  case (wait s t st)
  have "st \<noteq> FL_READY" "dev_state s \<noteq> FL_READY"
    using lock_invD(2) [OF wait(3), of t st] wait(1,2) by (auto simp: nmbm_get_device_def)
  then show ?case using wait by (intro lock_inv_queue [where st = st]) auto
next
  case (release s t st)
  then show ?case by (blast intro: lock_inv_release)
qed

lemma lock_inv_reachable: "lock_step\<^sup>*\<^sup>* lock_init s \<Longrightarrow> lock_inv s"
  by (induction rule: rtranclp_induct) (auto simp: lock_inv_init intro: lock_inv_step)

lemma suspended_step: "lock_step s s' \<Longrightarrow> lock_inv s \<Longrightarrow> dev_state s = FL_PM_SUSPENDED \<Longrightarrow> dev_state s' = FL_PM_SUSPENDED"
  by (induction rule: lock_step.induct) (auto simp: nmbm_get_device_def split: if_splits dest: lock_invD(1))

lemma suspended_stays:
  assumes "lock_step\<^sup>*\<^sup>* s s'" and "lock_inv s" and "dev_state s = FL_PM_SUSPENDED"
  shows "dev_state s' = FL_PM_SUSPENDED"
proof -
  from assms have "lock_inv s' \<and> dev_state s' = FL_PM_SUSPENDED"
    by (induction rule: rtranclp_induct) (auto intro: lock_inv_step suspended_step)
  then show ?thesis ..
qed

text \<open>A waiting task is not forgotten: the holder's release lets it get the device.\<close>

lemma waiting_progress:
  assumes "lock_inv s" and "tasks s t = WAITING st" and "dev_state s \<noteq> FL_PM_SUSPENDED"
  shows "\<exists>s1 s2. lock_step s s1 \<and> lock_step s1 s2 \<and> tasks s2 t = HOLDING st"
proof -
  have "dev_state s \<noteq> FL_READY" by (rule lock_invD(5) [OF assms(1,2)])
  then obtain u where u: "tasks s u = HOLDING (dev_state s)" using lock_invD(4) [OF assms(1)] by blast
  let ?s1 = "\<lparr>dev_state = FL_READY, tasks = wake \<circ> (tasks s)(u := IDLE)\<rparr>"
  have "lock_step s ?s1" using u assms(3) by (rule lock_step.release)
  moreover have "tasks ?s1 t = GETTING st" using assms(2) u by auto
  then have "lock_step ?s1 \<lparr>dev_state = st, tasks = (tasks ?s1)(t := HOLDING st)\<rparr>"
    by (rule lock_step.get) (simp add: nmbm_get_device_def)
  ultimately show ?thesis by (metis fun_upd_same lock_system.select_convs(2))
qed

end
