(* ===== verification/Nmbm_Mtd.thy ===== *)
theory Nmbm_Mtd
  imports Nmbm_Logic Nmbm_Lock
begin

text \<open>
  \<^verbatim>\<open>nmbm-mtd.c\<close>: the driver that puts an NMBM instance between a lower MTD device and the upper MTD
  device it registers.

  The lower device and the functions of the MTD layer that the driver calls are parameters: the record
  \<open>mtd_kernel\<close> has \<^verbatim>\<open>mtd_oobavail\<close>, \<^verbatim>\<open>mtd_read_oob\<close>, \<^verbatim>\<open>mtd_write_oob\<close>, \<^verbatim>\<open>mtd_erase\<close>,
  \<^verbatim>\<open>mtd_block_isbad\<close> and \<^verbatim>\<open>mtd_block_markbad\<close> as functions on a device state \<open>'m\<close>, together with the ECC
  statistics of that state. What stands behind the \<^verbatim>\<open>void *arg\<close> of the core is \<open>nmbm_lower_arg\<close>: the
  members of \<^verbatim>\<open>struct nmbm_mtd\<close> the callbacks use. \<open>nmbm_mtd\<close> has the others; its instance contains
  the argument, as \<^verbatim>\<open>nm->ni\<close> and \<^verbatim>\<open>nld.arg\<close> refer to each other.

  \<^verbatim>\<open>size_t\<close> is a 64-bit number. As \<^verbatim>\<open>mtd_read_oob\<close> and \<^verbatim>\<open>mtd_write_oob\<close> of the MTD layer clear the
  length that belongs to a missing buffer, a length without a buffer moves nothing in the model.
\<close>

unbundle bit_operations_syntax

section \<open>Data\<close>

abbreviation (input) ENOTSUPP :: int where "ENOTSUPP \<equiv> 524"
abbreviation (input) EUCLEAN :: int where "EUCLEAN \<equiv> 117"
abbreviation (input) ENOMEM :: int where "ENOMEM \<equiv> 12"
abbreviation (input) EPROBE_DEFER :: int where "EPROBE_DEFER \<equiv> 517"
abbreviation (input) NMBM_MAX_RATIO_DEFAULT :: nat where "NMBM_MAX_RATIO_DEFAULT \<equiv> 1"
abbreviation (input) NMBM_MAX_BLOCKS_DEFAULT :: nat where "NMBM_MAX_BLOCKS_DEFAULT \<equiv> 256"

text \<open>The modes of \<^verbatim>\<open>struct mtd_oob_ops\<close>; the member is an unsigned number that may have other values.\<close>

datatype mtd_ops_mode = MTD_OPS_PLACE_OOB | MTD_OPS_AUTO_OOB | MTD_OPS_RAW | MTD_OPS_OTHER nat

record mtd_oob_ops =
  ops_mode :: mtd_ops_mode
  ops_len :: nat
  ops_retlen :: nat
  ops_ooblen :: nat
  ops_oobretlen :: nat
  ops_ooboffs :: nat
  ops_datbuf :: buf
  ops_oobbuf :: buf

text \<open>The members of \<^verbatim>\<open>struct mtd_info\<close> that are copied from the lower to the upper device.\<close>

record mtd_geometry =
  mtd_type :: nat
  mtd_flags :: nat
  mtd_size :: nat
  mtd_erasesize :: nat
  mtd_writesize :: nat
  mtd_writebufsize :: nat
  mtd_oobsize :: nat
  mtd_oobavail_bytes :: nat
  mtd_erasesize_shift :: nat
  mtd_writesize_shift :: nat
  mtd_erasesize_mask :: nat
  mtd_writesize_mask :: nat
  mtd_bitflip_threshold :: nat
  mtd_ecc_step_size :: nat
  mtd_ecc_strength :: nat
  mtd_numeraseregions :: nat

record 'm mtd_kernel =
  mtd_oobavail :: "mtd_geometry \<Rightarrow> mtd_ops_mode \<Rightarrow> nat"
  mtd_read_oob :: "'m \<Rightarrow> nat \<Rightarrow> mtd_oob_ops \<Rightarrow> int \<times> mtd_oob_ops \<times> 'm"
  mtd_write_oob :: "'m \<Rightarrow> nat \<Rightarrow> mtd_oob_ops \<Rightarrow> int \<times> 'm"
  mtd_erase :: "'m \<Rightarrow> nat \<Rightarrow> nat \<Rightarrow> int \<times> 'm"
  mtd_block_isbad :: "'m \<Rightarrow> nat \<Rightarrow> int \<times> 'm"
  mtd_block_markbad :: "'m \<Rightarrow> nat \<Rightarrow> int \<times> 'm"
  ecc_corrected :: "'m \<Rightarrow> nat"
  ecc_failed :: "'m \<Rightarrow> nat"

record 'm nmbm_lower_arg =
  kern :: "'m mtd_kernel"
  lower_geo :: mtd_geometry
  lower_dev :: 'm
  upper_corrected :: nat
  upper_failed :: nat

record 'm nmbm_mtd =
  upper :: mtd_geometry
  nm_ni :: "'m nmbm_lower_arg nmbm_instance"
  nm_page_cache :: "byte list"
  nm_state :: flstate

abbreviation nm_arg :: "'m nmbm_mtd \<Rightarrow> 'm nmbm_lower_arg" where
  "nm_arg nm \<equiv> arg (lower (nm_ni nm))"

section \<open>The callbacks of the core\<close>

text \<open>The \<^verbatim>\<open>switch (mode)\<close> of both page callbacks.\<close>

fun lower_mode :: "nmbm_oob_mode \<Rightarrow> mtd_ops_mode option" where
  "lower_mode NMBM_MODE_PLACE_OOB = Some MTD_OPS_PLACE_OOB"
| "lower_mode NMBM_MODE_AUTO_OOB = Some MTD_OPS_AUTO_OOB"
| "lower_mode NMBM_MODE_RAW = Some MTD_OPS_RAW"
| "lower_mode NMBM_MODE_MAX = None"

text \<open>The cleared \<^verbatim>\<open>ops\<close> with the buffers that are given.\<close>

definition lower_ops :: "'m nmbm_lower_arg \<Rightarrow> mtd_ops_mode \<Rightarrow> buf \<Rightarrow> buf \<Rightarrow> mtd_oob_ops" where
  "lower_ops nm m data oob =
     \<lparr>ops_mode = m,
      ops_len = (case data of None \<Rightarrow> 0 | Some _ \<Rightarrow> mtd_writesize (lower_geo nm)),
      ops_retlen = 0,
      ops_ooblen = (case oob of None \<Rightarrow> 0 | Some _ \<Rightarrow> mtd_oobavail (kern nm) (lower_geo nm) m),
      ops_oobretlen = 0, ops_ooboffs = 0, ops_datbuf = data, ops_oobbuf = oob\<rparr>"

definition nmbm_lower_read_page :: "'m nmbm_lower_arg read_page_fn" where
  "nmbm_lower_read_page nm addr data oob mode =
     (case lower_mode mode of
        None \<Rightarrow> (- ENOTSUPP, data, oob, nm)
      | Some m \<Rightarrow>
          let (ret, ops, d) = mtd_read_oob (kern nm) (lower_dev nm) addr (lower_ops nm m data oob);
              nm = nm\<lparr>lower_dev := d, upper_corrected := ecc_corrected (kern nm) d,
                      upper_failed := ecc_failed (kern nm) d\<rparr>
          in (if ret < 0 \<and> ret \<noteq> - EUCLEAN then ret
              else if ret = - EUCLEAN
              then s32 (min (u32 (mtd_bitflip_threshold (lower_geo nm) + 1)) (mtd_ecc_strength (lower_geo nm)))
              else 0,
              ops_datbuf ops, ops_oobbuf ops, nm))"

definition nmbm_lower_write_page :: "'m nmbm_lower_arg write_page_fn" where
  "nmbm_lower_write_page nm addr data oob mode =
     (case lower_mode mode of
        None \<Rightarrow> (- ENOTSUPP, nm)
      | Some m \<Rightarrow>
          let (ret, d) = mtd_write_oob (kern nm) (lower_dev nm) addr (lower_ops nm m data oob)
          in (ret, nm\<lparr>lower_dev := d\<rparr>))"

definition nmbm_lower_erase_block :: "'m nmbm_lower_arg block_fn" where
  "nmbm_lower_erase_block nm addr =
     (let (ret, d) = mtd_erase (kern nm) (lower_dev nm) addr (mtd_erasesize (lower_geo nm))
      in (ret, nm\<lparr>lower_dev := d\<rparr>))"

definition nmbm_lower_is_bad_block :: "'m nmbm_lower_arg block_fn" where
  "nmbm_lower_is_bad_block nm addr =
     (let (ret, d) = mtd_block_isbad (kern nm) (lower_dev nm) addr in (ret, nm\<lparr>lower_dev := d\<rparr>))"

definition nmbm_lower_mark_bad_block :: "'m nmbm_lower_arg block_fn" where
  "nmbm_lower_mark_bad_block nm addr =
     (let (ret, d) = mtd_block_markbad (kern nm) (lower_dev nm) addr in (ret, nm\<lparr>lower_dev := d\<rparr>))"

section \<open>Holding the device\<close>

definition nmbm_release_device :: "'m nmbm_mtd \<Rightarrow> 'm nmbm_mtd" where
  "nmbm_release_device nm = nm\<lparr>nm_state := FL_READY\<rparr>"

text \<open>
  An operation between \<^verbatim>\<open>nmbm_get_device\<close> and \<^verbatim>\<open>nmbm_release_device\<close>. \<open>None\<close> stands for a call that is
  waiting for the device, or whose operation does not return.
\<close>

definition with_device ::
    "'m nmbm_mtd \<Rightarrow> flstate \<Rightarrow> ('m nmbm_mtd \<Rightarrow> ('r \<times> 'm nmbm_mtd) option) \<Rightarrow> ('r \<times> 'm nmbm_mtd) option" where
  "with_device nm new_state f =
     (case nmbm_get_device (nm_state nm) new_state of
        None \<Rightarrow> None
      | Some st \<Rightarrow> map_option (\<lambda>(r, nm). (r, nmbm_release_device nm)) (f (nm\<lparr>nm_state := st\<rparr>)))"

section \<open>The operations of the upper device\<close>

text \<open>\<^verbatim>\<open>nmbm_mtd_erase\<close>: the result and \<^verbatim>\<open>fail_addr\<close> when it is set.\<close>

definition nmbm_mtd_erase ::
    "crc_fn \<Rightarrow> 'm nmbm_mtd \<Rightarrow> nat \<Rightarrow> nat \<Rightarrow> ((int \<times> nat option) \<times> 'm nmbm_mtd) option" where
  "nmbm_mtd_erase crc nm addr len =
     with_device nm FL_ERASING (\<lambda>nm.
       let (ret, fail_addr, ni) = nmbm_erase_block_range crc (nm_ni nm) addr len
       in Some ((if ret = 0 then 0 else - EIO, fail_addr), nm\<lparr>nm_ni := ni\<rparr>))"

text \<open>The \<^verbatim>\<open>switch (ops->mode)\<close> of \<^verbatim>\<open>nmbm_mtd_read_oob\<close> and \<^verbatim>\<open>nmbm_mtd_write_oob\<close>.\<close>

fun upper_mode :: "mtd_ops_mode \<Rightarrow> nmbm_oob_mode option" where
  "upper_mode MTD_OPS_PLACE_OOB = Some NMBM_MODE_PLACE_OOB"
| "upper_mode MTD_OPS_AUTO_OOB = Some NMBM_MODE_AUTO_OOB"
| "upper_mode MTD_OPS_RAW = Some NMBM_MODE_RAW"
| "upper_mode (MTD_OPS_OTHER _) = None"

text \<open>
  The part of a page and of its spare area that one turn of the loops moves: \<^verbatim>\<open>chklen\<close> for the data
  and for the spare bytes.
\<close>

definition data_chunk :: "nat \<Rightarrow> nat \<Rightarrow> nat \<Rightarrow> nat" where
  "data_chunk ws col len = (if sub32 ws col > len then len else sub32 ws col)"

definition oob_chunk :: "nat \<Rightarrow> nat \<Rightarrow> nat \<Rightarrow> nat" where
  "oob_chunk maxooblen ooboffs ooblen =
     (if sub64 maxooblen ooboffs > ooblen then ooblen else sub64 maxooblen ooboffs)"

text \<open>
  Both loops keep what is left to move in a record. The member \<^verbatim>\<open>writesize_mask\<close> is a 32-bit number, so
  \<^verbatim>\<open>~writesize_mask\<close> is one too, and masking the 64-bit address with it clears the upper half.
\<close>

record oob_cursor =
  c_addr :: nat
  c_col :: nat
  c_len :: nat
  c_ooboffs :: nat
  c_ooblen :: nat

definition start_cursor :: "mtd_geometry \<Rightarrow> nat \<Rightarrow> mtd_oob_ops \<Rightarrow> oob_cursor" where
  "start_cursor geo addr ops =
     \<lparr>c_addr = addr AND (2 ^ 32 - 1 - mtd_writesize_mask geo), c_col = addr AND mtd_writesize_mask geo,
      c_len = ops_len ops, c_ooboffs = ops_ooboffs ops, c_ooblen = ops_ooblen ops\<rparr>"

definition next_cursor :: "nat \<Rightarrow> nat \<Rightarrow> oob_cursor \<Rightarrow> oob_cursor" where
  "next_cursor ws maxooblen c =
     \<lparr>c_addr = u64 (c_addr c + ws),
      c_col = (if c_len c \<noteq> 0 then 0 else c_col c),
      c_len = c_len c - data_chunk ws (c_col c) (c_len c),
      c_ooboffs = (if c_ooblen c \<noteq> 0 then 0 else c_ooboffs c),
      c_ooblen = c_ooblen c - oob_chunk maxooblen (c_ooboffs c) (c_ooblen c)\<rparr>"

text \<open>What a turn of the read loop moves from the page cache to the buffers of the caller.\<close>

definition move_out :: "nat \<Rightarrow> nat \<Rightarrow> oob_cursor \<Rightarrow> byte list \<Rightarrow> mtd_oob_ops \<Rightarrow> mtd_oob_ops" where
  "move_out ws maxooblen c cache ops =
     (let n = data_chunk ws (c_col c) (c_len c);
          ops = (if c_len c \<noteq> 0 then
                   ops\<lparr>ops_datbuf := map_option (\<lambda>b. memput b (ops_retlen ops) (memget cache (c_col c) n)) (ops_datbuf ops),
                       ops_retlen := ops_retlen ops + n\<rparr>
                 else ops);
          m = oob_chunk maxooblen (c_ooboffs c) (c_ooblen c)
      in if c_ooblen c \<noteq> 0 then
           ops\<lparr>ops_oobbuf := map_option (\<lambda>b. memput b (ops_oobretlen ops) (memget cache (ws + c_ooboffs c) m)) (ops_oobbuf ops),
               ops_oobretlen := ops_oobretlen ops + m\<rparr>
         else ops)"

text \<open>
  The loop of \<^verbatim>\<open>nmbm_mtd_read_data\<close>. Whether \<^verbatim>\<open>datcache\<close> and \<^verbatim>\<open>oobcache\<close> are \<^verbatim>\<open>NULL\<close> is decided before it.
\<close>

partial_function (option) read_data_pages ::
    "nat \<Rightarrow> nat \<Rightarrow> nmbm_oob_mode \<Rightarrow> bool \<Rightarrow> bool \<Rightarrow> oob_cursor \<Rightarrow> bool \<Rightarrow> int \<Rightarrow> mtd_oob_ops
     \<Rightarrow> 'm nmbm_mtd \<Rightarrow> ((int \<times> mtd_oob_ops) \<times> 'm nmbm_mtd) option" where
  "read_data_pages ws maxooblen mode dat oob c has_ecc_err max_bitflips ops nm =
     (if c_len c = 0 \<and> c_ooblen c = 0
      then Some ((if has_ecc_err then - EBADMSG else max_bitflips, ops), nm)
      else
        let (ret, data, spare, ni) = nmbm_read_single_page (nm_ni nm) (c_addr c)
              (if dat then Some (take ws (nm_page_cache nm)) else None)
              (if oob then Some (drop ws (nm_page_cache nm)) else None) mode;
            nm = nm\<lparr>nm_ni := ni, nm_page_cache := store_buf (store_buf (nm_page_cache nm) 0 data) ws spare\<rparr>
        in if ret < 0 \<and> ret \<noteq> - EBADMSG then Some ((ret, ops), nm)
           else
             read_data_pages ws maxooblen mode dat oob (next_cursor ws maxooblen c)
               (has_ecc_err \<or> ret = - EBADMSG) (if ret > max_bitflips then ret else max_bitflips)
               (move_out ws maxooblen c (nm_page_cache nm) ops) nm)"

declare read_data_pages.simps [code]

definition nmbm_mtd_read_data ::
    "'m nmbm_mtd \<Rightarrow> nat \<Rightarrow> mtd_oob_ops \<Rightarrow> nmbm_oob_mode \<Rightarrow> ((int \<times> mtd_oob_ops) \<times> 'm nmbm_mtd) option" where
  "nmbm_mtd_read_data nm addr ops mode =
     (let geo = lower_geo (nm_arg nm) in
      read_data_pages (mtd_writesize geo) (mtd_oobavail (kern (nm_arg nm)) geo (ops_mode ops)) mode
        (ops_len ops \<noteq> 0) (ops_ooblen ops \<noteq> 0) (start_cursor geo addr ops) False 0
        (ops\<lparr>ops_oobretlen := 0, ops_retlen := 0\<rparr>) nm)"

text \<open>The checks of the spare range in \<^verbatim>\<open>nmbm_mtd_read_oob\<close> and \<^verbatim>\<open>nmbm_mtd_write_oob\<close>.\<close>

definition oob_range_bad :: "mtd_geometry \<Rightarrow> nat \<Rightarrow> nat \<Rightarrow> mtd_oob_ops \<Rightarrow> bool" where
  "oob_range_bad mtd maxooblen from ops =
     (ops_ooboffs ops \<ge> maxooblen \<or> from \<ge> mtd_size mtd
      \<or> u64 (ops_ooboffs ops + ops_ooblen ops)
        > u64 ((mtd_size mtd div 2 ^ mtd_writesize_shift mtd - from div 2 ^ mtd_writesize_shift mtd) * maxooblen))"

definition nmbm_mtd_read_oob ::
    "'m nmbm_mtd \<Rightarrow> nat \<Rightarrow> mtd_oob_ops \<Rightarrow> ((int \<times> mtd_oob_ops) \<times> 'm nmbm_mtd) option" where
  "nmbm_mtd_read_oob nm from ops =
     (if ops_oobbuf ops = None \<and> ops_datbuf ops = None
      then Some ((if ops_ooblen ops \<noteq> 0 \<or> ops_len ops \<noteq> 0 then - EINVAL else 0, ops), nm)
      else
        case upper_mode (ops_mode ops) of
          None \<Rightarrow> Some ((- ENOTSUPP, ops), nm)
        | Some mode \<Rightarrow>
            let maxooblen = mtd_oobavail (kern (nm_arg nm)) (upper nm) (ops_mode ops) in
            if ops_datbuf ops \<noteq> None \<and> u64 (from + ops_len ops) > mtd_size (upper nm)
            then Some ((- EINVAL, ops), nm)
            else
              case ops_oobbuf ops of
                None \<Rightarrow>
                  with_device nm FL_READING (\<lambda>nm.
                    let (ret, data, retlen, ni) =
                      nmbm_read_range (nm_ni nm) from (ops_len ops) (the (ops_datbuf ops)) mode
                    in Some ((ret, ops\<lparr>ops_datbuf := Some data,
                                       ops_retlen := (case retlen of None \<Rightarrow> ops_retlen ops | Some n \<Rightarrow> n)\<rparr>),
                             nm\<lparr>nm_ni := ni\<rparr>))
              | Some _ \<Rightarrow>
                  if oob_range_bad (upper nm) maxooblen from ops then Some ((- EINVAL, ops), nm)
                  else with_device nm FL_READING (\<lambda>nm. nmbm_mtd_read_data nm from ops mode))"

text \<open>What a turn of the write loop puts into the page cache, and the lengths it reports.\<close>

definition fill_data :: "nat \<Rightarrow> oob_cursor \<Rightarrow> mtd_oob_ops \<Rightarrow> byte list \<Rightarrow> byte list" where
  "fill_data ws c ops cache =
     (let n = data_chunk ws (c_col c) (c_len c) in
      if c_len c \<noteq> 0 then
        memput cache 0 (replicate (c_col c) 0xff
          @ memget (case ops_datbuf ops of None \<Rightarrow> [] | Some b \<Rightarrow> b) (ops_retlen ops) n
          @ replicate (sub64 (sub32 ws (c_col c)) n) 0xff)
      else cache)"

definition fill_oob :: "nat \<Rightarrow> nat \<Rightarrow> nat \<Rightarrow> oob_cursor \<Rightarrow> mtd_oob_ops \<Rightarrow> byte list \<Rightarrow> byte list" where
  "fill_oob ws oobsz maxooblen c ops cache =
     (let m = oob_chunk maxooblen (c_ooboffs c) (c_ooblen c) in
      if c_ooblen c \<noteq> 0 then
        memput cache ws (replicate (c_ooboffs c) 0xff
          @ memget (case ops_oobbuf ops of None \<Rightarrow> [] | Some b \<Rightarrow> b) (ops_oobretlen ops) m
          @ replicate (sub64 (sub32 oobsz (c_ooboffs c)) m) 0xff)
      else cache)"

definition count_moved :: "nat \<Rightarrow> nat \<Rightarrow> oob_cursor \<Rightarrow> mtd_oob_ops \<Rightarrow> mtd_oob_ops" where
  "count_moved ws maxooblen c ops =
     ops\<lparr>ops_retlen := ops_retlen ops + data_chunk ws (c_col c) (c_len c),
         ops_oobretlen := ops_oobretlen ops + oob_chunk maxooblen (c_ooboffs c) (c_ooblen c)\<rparr>"

text \<open>The loop of \<^verbatim>\<open>nmbm_mtd_write_data\<close>.\<close>

partial_function (option) write_data_pages ::
    "crc_fn \<Rightarrow> mtd_geometry \<Rightarrow> nat \<Rightarrow> nmbm_oob_mode \<Rightarrow> bool \<Rightarrow> bool \<Rightarrow> oob_cursor \<Rightarrow> mtd_oob_ops
     \<Rightarrow> 'm nmbm_mtd \<Rightarrow> ((int \<times> mtd_oob_ops) \<times> 'm nmbm_mtd) option" where
  "write_data_pages crc geo maxooblen mode dat oob c ops nm =
     (if c_len c = 0 \<and> c_ooblen c = 0 then Some ((0, ops), nm)
      else
        let ws = mtd_writesize geo;
            cache = fill_oob ws (mtd_oobsize geo) maxooblen c ops (fill_data ws c ops (nm_page_cache nm));
            ops = count_moved ws maxooblen c ops;
            (ret, ni) = nmbm_write_single_page crc (nm_ni nm) (c_addr c)
              (if dat then Some (take ws cache) else None) (if oob then Some (drop ws cache) else None) mode;
            nm = nm\<lparr>nm_ni := ni, nm_page_cache := cache\<rparr>
        in if ret \<noteq> 0 then Some ((ret, ops), nm)
           else write_data_pages crc geo maxooblen mode dat oob (next_cursor ws maxooblen c) ops nm)"

declare write_data_pages.simps [code]

definition nmbm_mtd_write_data ::
    "crc_fn \<Rightarrow> 'm nmbm_mtd \<Rightarrow> nat \<Rightarrow> mtd_oob_ops \<Rightarrow> nmbm_oob_mode \<Rightarrow> ((int \<times> mtd_oob_ops) \<times> 'm nmbm_mtd) option" where
  "nmbm_mtd_write_data crc nm addr ops mode =
     (let geo = lower_geo (nm_arg nm) in
      write_data_pages crc geo (mtd_oobavail (kern (nm_arg nm)) geo (ops_mode ops)) mode
        (ops_len ops \<noteq> 0) (ops_ooblen ops \<noteq> 0) (start_cursor geo addr ops)
        (ops\<lparr>ops_oobretlen := 0, ops_retlen := 0\<rparr>) nm)"

definition nmbm_mtd_write_oob ::
    "crc_fn \<Rightarrow> 'm nmbm_mtd \<Rightarrow> nat \<Rightarrow> mtd_oob_ops \<Rightarrow> ((int \<times> mtd_oob_ops) \<times> 'm nmbm_mtd) option" where
  "nmbm_mtd_write_oob crc nm to ops =
     (if ops_oobbuf ops = None \<and> ops_datbuf ops = None
      then Some ((if ops_ooblen ops \<noteq> 0 \<or> ops_len ops \<noteq> 0 then - EINVAL else 0, ops), nm)
      else
        case upper_mode (ops_mode ops) of
          None \<Rightarrow> Some ((- ENOTSUPP, ops), nm)
        | Some mode \<Rightarrow>
            let maxooblen = mtd_oobavail (kern (nm_arg nm)) (upper nm) (ops_mode ops) in
            if ops_datbuf ops \<noteq> None \<and> u64 (to + ops_len ops) > mtd_size (upper nm)
            then Some ((- EINVAL, ops), nm)
            else
              case ops_oobbuf ops of
                None \<Rightarrow>
                  with_device nm FL_WRITING (\<lambda>nm.
                    let (ret, retlen, ni) =
                      nmbm_write_range crc (nm_ni nm) to (take (ops_len ops) (the (ops_datbuf ops))) mode
                    in Some ((ret, ops\<lparr>ops_retlen := (case retlen of None \<Rightarrow> ops_retlen ops | Some n \<Rightarrow> n)\<rparr>),
                             nm\<lparr>nm_ni := ni\<rparr>))
              | Some _ \<Rightarrow>
                  if oob_range_bad (upper nm) maxooblen to ops then Some ((- EINVAL, ops), nm)
                  else with_device nm FL_WRITING (\<lambda>nm. nmbm_mtd_write_data crc nm to ops mode))"

definition nmbm_mtd_block_isbad :: "'m nmbm_mtd \<Rightarrow> nat \<Rightarrow> (int \<times> 'm nmbm_mtd) option" where
  "nmbm_mtd_block_isbad nm offs =
     with_device nm FL_READING (\<lambda>nm. Some (nmbm_check_bad_block (nm_ni nm) offs, nm))"

definition nmbm_mtd_block_markbad :: "crc_fn \<Rightarrow> 'm nmbm_mtd \<Rightarrow> nat \<Rightarrow> (int \<times> 'm nmbm_mtd) option" where
  "nmbm_mtd_block_markbad crc nm offs =
     with_device nm FL_WRITING (\<lambda>nm.
       let (ret, ni) = nmbm_mark_bad_block crc (nm_ni nm) offs in Some (ret, nm\<lparr>nm_ni := ni\<rparr>))"

definition nmbm_mtd_shutdown :: "'m nmbm_mtd \<Rightarrow> 'm nmbm_mtd option" where
  "nmbm_mtd_shutdown nm =
     map_option (\<lambda>st. nm\<lparr>nm_state := st\<rparr>) (nmbm_get_device (nm_state nm) FL_PM_SUSPENDED)"

section \<open>Probing and removing\<close>

text \<open>
  What the device tree says. A lower device is looked up by phandle or by name; \<open>None\<close> stands for a
  missing property and \<open>Some None\<close> for a lookup that fails.
\<close>

record 'm device_node =
  lower_mtd_device :: "'m nmbm_lower_arg option option"
  lower_mtd_name :: "'m nmbm_lower_arg option option"
  dt_max_ratio :: "nat option"
  dt_max_reserved_blocks :: "nat option"
  dt_forced_create :: bool
  dt_empty_page_ecc_protected :: bool

datatype 'a lookup = FOUND 'a | DEFER | UNINITIALISED

definition find_lower :: "'m device_node \<Rightarrow> 'm nmbm_lower_arg lookup" where
  "find_lower np =
     (case lower_mtd_device np of
        Some (Some l) \<Rightarrow> FOUND l
      | Some None \<Rightarrow> DEFER
      | None \<Rightarrow>
          case lower_mtd_name np of
            Some (Some l) \<Rightarrow> FOUND l
          | Some None \<Rightarrow> DEFER
          | None \<Rightarrow> UNINITIALISED)"

definition probe_lower_device :: "'m device_node \<Rightarrow> 'm nmbm_lower_arg \<Rightarrow> 'm nmbm_lower_arg nmbm_lower_device" where
  "probe_lower_device np l =
     \<lparr>max_ratio = (case dt_max_ratio np of None \<Rightarrow> NMBM_MAX_RATIO_DEFAULT | Some n \<Rightarrow> n),
      max_reserved_blocks = (case dt_max_reserved_blocks np of None \<Rightarrow> NMBM_MAX_BLOCKS_DEFAULT | Some n \<Rightarrow> n),
      flags = (if dt_forced_create np then NMBM_F_CREATE else 0)
        OR (if dt_empty_page_ecc_protected np then NMBM_F_EMPTY_PAGE_ECC_OK else 0),
      nld_size = mtd_size (lower_geo l), erasesize = mtd_erasesize (lower_geo l),
      writesize = mtd_writesize (lower_geo l), oobsize = mtd_oobsize (lower_geo l),
      oobavail = mtd_oobavail_bytes (lower_geo l), arg = l, reset_chip = None,
      read_page = Some nmbm_lower_read_page, write_page = Some nmbm_lower_write_page,
      erase_block = Some nmbm_lower_erase_block, is_bad_block = Some nmbm_lower_is_bad_block,
      mark_bad_block = Some nmbm_lower_mark_bad_block\<rparr>"

definition upper_geometry :: "mtd_geometry \<Rightarrow> nat \<Rightarrow> mtd_geometry" where
  "upper_geometry geo blocks =
     geo\<lparr>mtd_size := u64 (blocks * mtd_erasesize geo), mtd_writebufsize := mtd_writesize geo\<rparr>"

text \<open>
  The allocation and the registration of the upper device are parameters: whether \<^verbatim>\<open>devm_kzalloc\<close>
  succeeds for a number of bytes and what \<^verbatim>\<open>mtd_device_register\<close> returns. \<open>ni0\<close> is the cleared
  instance in the allocated memory, \<open>sizeof_nm\<close> and \<open>sizeof_instance\<close> the sizes of the two structures;
  \<open>node\<close> names the new device on the list \<^verbatim>\<open>nmbm_devs\<close>.
  The result is the device and the list, an error and the lower device as it has been left, or
  \<open>PROBE_UNDEFINED\<close> when the pointer to the lower device is used without a value; \<open>None\<close> means that
  attaching does not return. The error paths release \<^verbatim>\<open>nm\<close> and the lower device.
\<close>

datatype ('m, 'n) probe_result =
    PROBED "'m nmbm_mtd" "'n list"
  | PROBE_ERROR int "'m nmbm_lower_arg option"
  | PROBE_UNDEFINED

definition nmbm_probe ::
    "crc_fn \<Rightarrow> nat \<Rightarrow> nat \<Rightarrow> (nat \<Rightarrow> bool) \<Rightarrow> (mtd_geometry \<Rightarrow> int) \<Rightarrow> 'm nmbm_lower_arg nmbm_instance
     \<Rightarrow> 'm device_node \<Rightarrow> 'n list \<Rightarrow> 'n \<Rightarrow> ('m, 'n) probe_result option" where
  "nmbm_probe crc sizeof_nm sizeof_instance devm_kzalloc mtd_device_register ni0 np nmbm_devs node =
     (case find_lower np of
        DEFER \<Rightarrow> Some (PROBE_ERROR (- EPROBE_DEFER) None)
      | UNINITIALISED \<Rightarrow> Some PROBE_UNDEFINED
      | FOUND l \<Rightarrow>
          let nld = probe_lower_device np l;
              geo = lower_geo l;
              alloc_size = u32 (nmbm_calc_structure_size sizeof_instance nld) in
          if \<not> devm_kzalloc (sizeof_nm + alloc_size + mtd_writesize geo + mtd_oobsize geo)
          then Some (PROBE_ERROR (- ENOMEM) (Some l))
          else
            case nmbm_attach crc nld ni0 of
              None \<Rightarrow> None
            | Some (ret, _, ni) \<Rightarrow>
                if ret \<noteq> 0 then Some (PROBE_ERROR ret (Some (arg (lower ni))))
                else
                  let mtd = upper_geometry geo (data_block_count ni);
                      ret = mtd_device_register mtd in
                  if ret \<noteq> 0 then Some (PROBE_ERROR ret (Some (arg (lower (snd (nmbm_detach crc ni))))))
                  else Some (PROBED
                    \<lparr>upper = mtd, nm_ni = ni,
                     nm_page_cache = replicate (mtd_writesize geo + mtd_oobsize geo) 0, nm_state = FL_READY\<rparr>
                    (nmbm_devs @ [node])))"

text \<open>
  \<^verbatim>\<open>nmbm_remove\<close>: the result, the lower device with what detaching has written, and the list of
  devices, to which the device is appended a second time.
\<close>

definition nmbm_remove ::
    "crc_fn \<Rightarrow> int \<Rightarrow> 'm nmbm_mtd \<Rightarrow> 'n list \<Rightarrow> 'n \<Rightarrow> int \<times> 'm nmbm_lower_arg \<times> 'n list" where
  "nmbm_remove crc unregistered nm nmbm_devs node =
     (if unregistered \<noteq> 0 then (unregistered, nm_arg nm, nmbm_devs)
      else (0, arg (lower (snd (nmbm_detach crc (nm_ni nm)))), nmbm_devs @ [node]))"

section \<open>Reading pages and spare areas\<close>

text \<open>
  The bytes that a sequence of areas of a fixed size holds: the reference for the loops over pages.
\<close>

definition areas :: "(nat \<Rightarrow> byte list) \<Rightarrow> nat \<Rightarrow> nat \<Rightarrow> nat \<Rightarrow> nat \<Rightarrow> byte list" where
  "areas f sz ws a k = concat (map (\<lambda>i. take sz (f (a + i * ws))) [0..<k])"

lemma areas_0 [simp]: "areas f sz ws a 0 = []"
  by (simp add: areas_def)

lemma areas_Suc: "areas f sz ws a (Suc k) = take sz (f a) @ areas f sz ws (a + ws) k"
proof -
  have "[0..<Suc k] = 0 # map Suc [0..<k]" by (simp add: upt_conv_Cons map_Suc_upt del: upt_Suc)
  then show ?thesis by (simp add: areas_def comp_def add.assoc del: upt_Suc)
qed

lemma memget_chunk:
  assumes "length xs = sz" and "off \<le> sz"
  shows "memget (xs @ ys) off n = memget xs off (min (sz - off) n) @ memget ys 0 (n - min (sz - off) n)"
  using assms by (auto simp: memget_def min_def)

lemma memput_memput: "r \<le> length b \<Longrightarrow> memput (memput b r xs) (r + length xs) ys = memput b r (xs @ ys)"
  by (simp add: memput_def ac_simps)

lemma memget_0 [simp]: "memget b r 0 = []"
  by (simp add: memget_def)

lemma memput_Nil [simp]: "memput b r [] = b"
  by (simp add: memput_def)

lemma cache_after_read:
  fixes cache :: "byte list" and dat oob :: bool
  assumes "ws \<le> length cache" and "length p = ws" and "length q = length cache - ws"
  defines "cache' \<equiv> store_buf (store_buf cache 0 (if dat then Some p else None)) ws (if oob then Some q else None)"
  shows "length cache' = length cache" and "dat \<Longrightarrow> take ws cache' = p" and "oob \<Longrightarrow> drop ws cache' = q"
  using assms by (auto simp: store_buf_def memput_def min_def)

lemma memget_front: "off + n \<le> ws \<Longrightarrow> memget cache off n = memget (take ws cache) off n"
  by (simp add: memget_def drop_take min_def)

lemma memget_back: "memget cache (ws + off) n = memget (drop ws cache) off n"
  by (simp add: memget_def add.commute)

text \<open>
  The pages at a set of addresses can be read: from every instance of a set that reading does not
  leave, a read succeeds without bit flips and gives the contents of the page and of its spare area.
\<close>

definition reads_as ::
    "('d nmbm_instance \<Rightarrow> bool) \<Rightarrow> nmbm_oob_mode \<Rightarrow> (nat \<Rightarrow> byte list) \<Rightarrow> (nat \<Rightarrow> byte list) \<Rightarrow> nat set \<Rightarrow> bool" where
  "reads_as P mode pg sp A \<longleftrightarrow>
     (\<forall>ni a d s. P ni \<and> a \<in> A \<longrightarrow>
        (\<exists>ni'. nmbm_read_single_page ni a d s mode = (0, map_option (\<lambda>_. pg a) d, map_option (\<lambda>_. sp a) s, ni') \<and> P ni'))"

text \<open>What a turn of the read loop has to find at the cursor, and what the loop does from there.\<close>

definition cursor_ok :: "nat \<Rightarrow> nat \<Rightarrow> nat \<Rightarrow> oob_cursor \<Rightarrow> bool" where
  "cursor_ok ws maxooblen k c \<longleftrightarrow>
     c_col c < ws \<and> c_ooboffs c < maxooblen \<and> ws < 2 ^ 32 \<and> maxooblen < 2 ^ 32
     \<and> (c_len c \<noteq> 0 \<longrightarrow> c_col c + c_len c \<le> k * ws)
     \<and> (c_ooblen c \<noteq> 0 \<longrightarrow> c_ooboffs c + c_ooblen c \<le> k * maxooblen) \<and> c_addr c + k * ws < 2 ^ 64"

definition data_rest :: "nat \<Rightarrow> (nat \<Rightarrow> byte list) \<Rightarrow> nat \<Rightarrow> oob_cursor \<Rightarrow> byte list" where
  "data_rest ws pg k c = memget (areas pg ws ws (c_addr c) k) (c_col c) (c_len c)"

definition oob_rest :: "nat \<Rightarrow> nat \<Rightarrow> (nat \<Rightarrow> byte list) \<Rightarrow> nat \<Rightarrow> oob_cursor \<Rightarrow> byte list" where
  "oob_rest ws maxooblen sp k c = memget (areas sp maxooblen ws (c_addr c) k) (c_ooboffs c) (c_ooblen c)"

lemma chunk_min:
  assumes "cursor_ok ws maxooblen k c"
  shows "data_chunk ws (c_col c) (c_len c) = min (ws - c_col c) (c_len c)"
    and "oob_chunk maxooblen (c_ooboffs c) (c_ooblen c) = min (maxooblen - c_ooboffs c) (c_ooblen c)"
  using assms by (auto simp: cursor_ok_def data_chunk_def oob_chunk_def sub32_def sub64_def)

lemma next_cursor_ok:
  assumes "cursor_ok ws maxooblen (Suc k) c"
  shows "cursor_ok ws maxooblen k (next_cursor ws maxooblen c)" and "c_addr (next_cursor ws maxooblen c) = c_addr c + ws"
proof -
  show a: "c_addr (next_cursor ws maxooblen c) = c_addr c + ws"
    using assms by (simp add: cursor_ok_def next_cursor_def u64_id)
  show "cursor_ok ws maxooblen k (next_cursor ws maxooblen c)"
    using assms chunk_min [OF assms] a by (auto simp: cursor_ok_def next_cursor_def min_def)
qed

lemma rest_step:
  assumes "cursor_ok ws maxooblen (Suc k) c"
  shows "length (pg (c_addr c)) = ws \<Longrightarrow> data_rest ws pg (Suc k) c =
      memget (pg (c_addr c)) (c_col c) (data_chunk ws (c_col c) (c_len c)) @ data_rest ws pg k (next_cursor ws maxooblen c)"
    and "maxooblen \<le> length (sp (c_addr c)) \<Longrightarrow> oob_rest ws maxooblen sp (Suc k) c =
      memget (sp (c_addr c)) (c_ooboffs c) (oob_chunk maxooblen (c_ooboffs c) (c_ooblen c))
      @ oob_rest ws maxooblen sp k (next_cursor ws maxooblen c)"
proof -
  note n = chunk_min [OF assms] and a = next_cursor_ok(2) [OF assms]
  have c: "c_col c \<le> ws" "c_ooboffs c \<le> maxooblen" using assms by (simp_all add: cursor_ok_def)
  have d: "memget xs (c_col (next_cursor ws maxooblen c)) (c_len (next_cursor ws maxooblen c))
      = memget xs 0 (c_len c - min (ws - c_col c) (c_len c))" for xs :: "byte list"
    by (simp add: next_cursor_def n memget_def)
  have o': "memget xs (c_ooboffs (next_cursor ws maxooblen c)) (c_ooblen (next_cursor ws maxooblen c))
      = memget xs 0 (c_ooblen c - min (maxooblen - c_ooboffs c) (c_ooblen c))" for xs :: "byte list"
    by (simp add: next_cursor_def n memget_def)
  show "data_rest ws pg (Suc k) c =
      memget (pg (c_addr c)) (c_col c) (data_chunk ws (c_col c) (c_len c)) @ data_rest ws pg k (next_cursor ws maxooblen c)"
    if "length (pg (c_addr c)) = ws"
    using memget_chunk [OF that c(1)] that by (simp add: data_rest_def areas_Suc d a n)
  show "oob_rest ws maxooblen sp (Suc k) c =
      memget (sp (c_addr c)) (c_ooboffs c) (oob_chunk maxooblen (c_ooboffs c) (c_ooblen c))
      @ oob_rest ws maxooblen sp k (next_cursor ws maxooblen c)"
    if "maxooblen \<le> length (sp (c_addr c))"
  proof -
    have "memget (take maxooblen (sp (c_addr c))) (c_ooboffs c) (min (maxooblen - c_ooboffs c) (c_ooblen c))
        = memget (sp (c_addr c)) (c_ooboffs c) (min (maxooblen - c_ooboffs c) (c_ooblen c))"
      by (rule memget_front [symmetric]) (use c in auto)
    then show ?thesis
      using memget_chunk [OF _ c(2), of "take maxooblen (sp (c_addr c))"] that
      by (simp add: oob_rest_def areas_Suc o' a n)
  qed
qed

text \<open>The buffers behind the loop: the rest of the data and of the spare bytes is in place.\<close>

definition delivered :: "byte list \<Rightarrow> byte list \<Rightarrow> mtd_oob_ops \<Rightarrow> mtd_oob_ops" where
  "delivered dat oob ops =
     ops\<lparr>ops_datbuf := map_option (\<lambda>b. memput b (ops_retlen ops) dat) (ops_datbuf ops),
         ops_retlen := ops_retlen ops + length dat,
         ops_oobbuf := map_option (\<lambda>b. memput b (ops_oobretlen ops) oob) (ops_oobbuf ops),
         ops_oobretlen := ops_oobretlen ops + length oob\<rparr>"

lemma delivered_Nil [simp]: "delivered [] [] ops = ops"
  by (cases ops) (simp add: delivered_def option.map_ident)

definition room :: "nat \<Rightarrow> nat \<Rightarrow> mtd_oob_ops \<Rightarrow> bool" where
  "room n m ops \<longleftrightarrow>
     (\<forall>b. ops_datbuf ops = Some b \<longrightarrow> ops_retlen ops + n \<le> length b)
     \<and> (\<forall>b. ops_oobbuf ops = Some b \<longrightarrow> ops_oobretlen ops + m \<le> length b)"

lemma delivered_delivered:
  assumes "room (length d1) (length o1) ops"
  shows "delivered d2 o2 (delivered d1 o1 ops) = delivered (d1 @ d2) (o1 @ o2) ops"
proof -
  have "memput (memput b (ops_retlen ops) d1) (ops_retlen ops + length d1) d2 = memput b (ops_retlen ops) (d1 @ d2)"
    if "ops_datbuf ops = Some b" for b
    using assms that by (intro memput_memput) (simp add: room_def)
  moreover have "memput (memput b (ops_oobretlen ops) o1) (ops_oobretlen ops + length o1) o2
      = memput b (ops_oobretlen ops) (o1 @ o2)"
    if "ops_oobbuf ops = Some b" for b
    using assms that by (intro memput_memput) (simp add: room_def)
  ultimately show ?thesis
    by (cases "ops_datbuf ops"; cases "ops_oobbuf ops") (simp_all add: delivered_def add.assoc)
qed

lemma room_delivered: "room (length d + n) (length s + m) ops \<Longrightarrow> room n m (delivered d s ops)"
  by (auto simp: room_def delivered_def)

lemma move_out_delivered:
  assumes "cursor_ok ws maxooblen k c" and "ws + maxooblen \<le> length cache"
    and "c_len c \<noteq> 0 \<Longrightarrow> take ws cache = p" and "c_ooblen c \<noteq> 0 \<Longrightarrow> drop ws cache = q"
  shows "move_out ws maxooblen c cache ops =
    delivered (memget p (c_col c) (data_chunk ws (c_col c) (c_len c)))
      (memget q (c_ooboffs c) (oob_chunk maxooblen (c_ooboffs c) (c_ooblen c))) ops"
proof -
  note n = chunk_min [OF assms(1)]
  define x where "x = data_chunk ws (c_col c) (c_len c)"
  define y where "y = oob_chunk maxooblen (c_ooboffs c) (c_ooblen c)"
  have c: "c_col c + x \<le> ws" "c_ooboffs c + y \<le> maxooblen" "c_len c = 0 \<Longrightarrow> x = 0" "c_ooblen c = 0 \<Longrightarrow> y = 0"
    using assms(1) n by (auto simp: cursor_ok_def x_def y_def)
  have dat: "memget cache (c_col c) x = memget p (c_col c) x" "length (memget p (c_col c) x) = x" if "c_len c \<noteq> 0"
    using memget_front [OF c(1), of cache] assms(2,3) that c(1) by (auto simp: memget_def)
  have oob: "memget cache (ws + c_ooboffs c) y = memget q (c_ooboffs c) y" "length (memget q (c_ooboffs c) y) = y"
    if "c_ooblen c \<noteq> 0"
    using memget_back [of cache ws "c_ooboffs c" y] assms(2,4) that c(2) by (auto simp: memget_def)
  have nil: "c_len c = 0 \<Longrightarrow> memget p (c_col c) x = []" "c_ooblen c = 0 \<Longrightarrow> memget q (c_ooboffs c) y = []"
    using c(3,4) by (simp_all add: memget_def)
  show ?thesis
    unfolding x_def [symmetric] y_def [symmetric]
    by (cases ops; cases "c_len c = 0"; cases "c_ooblen c = 0")
      (simp_all add: move_out_def delivered_def Let_def x_def [symmetric] y_def [symmetric] nil dat oob c(3,4)
        option.map_ident)
qed

lemma rest_empty: "c_len c = 0 \<Longrightarrow> data_rest ws pg k c = []" "c_ooblen c = 0 \<Longrightarrow> oob_rest ws maxooblen sp k c = []"
  by (simp_all add: data_rest_def oob_rest_def)

lemma chunk_lengths:
  assumes "cursor_ok ws maxooblen k c" and "length p = ws" and "maxooblen \<le> length q"
  shows "length (memget p (c_col c) (data_chunk ws (c_col c) (c_len c))) = data_chunk ws (c_col c) (c_len c)"
    and "length (memget q (c_ooboffs c) (oob_chunk maxooblen (c_ooboffs c) (c_ooblen c)))
      = oob_chunk maxooblen (c_ooboffs c) (c_ooblen c)"
  using assms chunk_min [OF assms(1)] by (auto simp: cursor_ok_def memget_def)

lemma read_data_pages_ok:
  assumes reads: "reads_as P mode pg sp A" and size: "\<And>a. a \<in> A \<Longrightarrow> length (pg a) = ws \<and> length (sp a) = oobsz"
    and "maxooblen \<le> oobsz" and "cursor_ok ws maxooblen k c" and "\<forall>i<k. c_addr c + i * ws \<in> A"
    and "P (nm_ni nm)" and "length (nm_page_cache nm) = ws + oobsz"
    and "c_len c \<noteq> 0 \<longrightarrow> dat" and "c_ooblen c \<noteq> 0 \<longrightarrow> oob" and "room (c_len c) (c_ooblen c) ops"
  shows "\<exists>nm'. read_data_pages ws maxooblen mode dat oob c False 0 ops nm =
      Some ((0, delivered (data_rest ws pg k c) (oob_rest ws maxooblen sp k c) ops), nm')
    \<and> P (nm_ni nm') \<and> nm_state nm' = nm_state nm \<and> upper nm' = upper nm"
  using assms(4-)
proof (induction k arbitrary: c ops nm)
  case 0
  then have "c_len c = 0" "c_ooblen c = 0" by (auto simp: cursor_ok_def)
  then show ?case using 0 by (simp add: read_data_pages.simps [of ws] rest_empty)
next
  case (Suc k)
  show ?case
  proof (cases "c_len c = 0 \<and> c_ooblen c = 0")
    case True
    then show ?thesis using Suc.prems by (simp add: read_data_pages.simps [of ws] rest_empty)
  next
    case False
    let ?a = "c_addr c" and ?c = "next_cursor ws maxooblen c"
    have a: "?a \<in> A" using Suc.prems(2) by (metis add.right_neutral mult_0 zero_less_Suc)
    note len = size [OF a]
    let ?D = "if dat then Some (take ws (nm_page_cache nm)) else None"
    let ?S = "if oob then Some (drop ws (nm_page_cache nm)) else None"
    obtain ni' where "nmbm_read_single_page (nm_ni nm) ?a ?D ?S mode
        = (0, map_option (\<lambda>_. pg ?a) ?D, map_option (\<lambda>_. sp ?a) ?S, ni')" and P: "P ni'"
      using reads Suc.prems(3) a unfolding reads_as_def by blast
    then have r: "nmbm_read_single_page (nm_ni nm) ?a ?D ?S mode
        = (0, if dat then Some (pg ?a) else None, if oob then Some (sp ?a) else None, ni')" by simp
    define cache where "cache = store_buf (store_buf (nm_page_cache nm) 0 (if dat then Some (pg ?a) else None)) ws
      (if oob then Some (sp ?a) else None)"
    have fits: "ws \<le> length (nm_page_cache nm)" "length (pg ?a) = ws" "length (sp ?a) = length (nm_page_cache nm) - ws"
      using Suc.prems(4) len by simp_all
    note cache = cache_after_read [OF fits, where dat = dat and oob = oob, folded cache_def, unfolded Suc.prems(4)]
    let ?d = "memget (pg ?a) (c_col c) (data_chunk ws (c_col c) (c_len c))"
    let ?s = "memget (sp ?a) (c_ooboffs c) (oob_chunk maxooblen (c_ooboffs c) (c_ooblen c))"
    let ?nm = "nm\<lparr>nm_ni := ni', nm_page_cache := cache\<rparr>"
    have moved: "move_out ws maxooblen c cache ops = delivered ?d ?s ops"
      using Suc.prems(5,6) cache assms(3) by (intro move_out_delivered [OF Suc.prems(1)]) auto
    have step: "read_data_pages ws maxooblen mode dat oob c False 0 ops nm
        = read_data_pages ws maxooblen mode dat oob ?c False 0 (delivered ?d ?s ops) ?nm"
      using False by (subst read_data_pages.simps) (auto simp: r cache_def [symmetric] moved Let_def)
    note lens = chunk_lengths [OF Suc.prems(1), of "pg ?a" "sp ?a"]
    have l: "length ?d + c_len ?c = c_len c" "length ?s + c_ooblen ?c = c_ooblen c"
      using lens len assms(3) chunk_min [OF Suc.prems(1)] by (simp_all add: next_cursor_def)
    then have room: "room (length ?d) (length ?s) ops" "room (c_len ?c) (c_ooblen ?c) (delivered ?d ?s ops)"
      using Suc.prems(7) by (auto simp: room_def delivered_def)
    have next_in: "\<forall>i<k. c_addr ?c + i * ws \<in> A"
    proof (intro allI impI)
      fix i assume "i < k"
      then have "c_addr c + Suc i * ws \<in> A" using Suc.prems(2) by blast
      then show "c_addr ?c + i * ws \<in> A" by (simp add: next_cursor_ok(2) [OF Suc.prems(1)] add.assoc)
    qed
    have flags: "c_len ?c \<noteq> 0 \<longrightarrow> dat" "c_ooblen ?c \<noteq> 0 \<longrightarrow> oob" using Suc.prems(5,6) by (auto simp: next_cursor_def)
    from Suc.IH [OF next_cursor_ok(1) [OF Suc.prems(1)] next_in _ _ flags room(2), of ?nm] P cache(1)
    obtain nm' where "read_data_pages ws maxooblen mode dat oob ?c False 0 (delivered ?d ?s ops) ?nm =
        Some ((0, delivered (data_rest ws pg k ?c) (oob_rest ws maxooblen sp k ?c) (delivered ?d ?s ops)), nm')"
        "P (nm_ni nm')" "nm_state nm' = nm_state nm" "upper nm' = upper nm" by auto
    then show ?thesis
      using step rest_step [OF Suc.prems(1)] len assms(3) by (simp add: delivered_delivered [OF room(1)])
  qed
qed

lemma length_areas: "(\<And>i. i < k \<Longrightarrow> sz \<le> length (f (a + i * ws))) \<Longrightarrow> length (areas f sz ws a k) = k * sz"
  by (induction k) (simp_all add: areas_def min_absorb2)

text \<open>The pages of a device from the one that contains an address to the end.\<close>

definition page_geometry :: "mtd_geometry \<Rightarrow> nat \<Rightarrow> bool" where
  "page_geometry geo n \<longleftrightarrow> n < 32 \<and> mtd_writesize geo = 2 ^ n \<and> mtd_writesize_mask geo = 2 ^ n - 1
     \<and> mtd_writesize_shift geo = n"

definition page_start :: "mtd_geometry \<Rightarrow> nat \<Rightarrow> nat" where
  "page_start geo addr = addr div mtd_writesize geo * mtd_writesize geo"

definition pages_left :: "mtd_geometry \<Rightarrow> nat \<Rightarrow> nat" where
  "pages_left mtd addr = mtd_size mtd div mtd_writesize mtd - addr div mtd_writesize mtd"

lemma and_not_low_bits:
  assumes "a < 2 ^ 32" and "n < 32"
  shows "a AND (2 ^ 32 - 1 - (2 ^ n - 1)) = a div 2 ^ n * (2 ^ n :: nat)"
proof (rule bit_eqI)
  fix i
  have "(2 :: nat) ^ n * 2 ^ (32 - n) = 2 ^ 32" using assms(2) by (simp flip: power_add)
  then have "(2 :: nat) ^ 32 - 1 - (2 ^ n - 1) = (2 ^ (32 - n) - 1) * 2 ^ n" by (simp add: algebra_simps)
  then have "(2 :: nat) ^ 32 - 1 - (2 ^ n - 1) = push_bit n (mask (32 - n))"
    by (simp add: push_bit_eq_mult mask_eq_exp_minus_1)
  moreover have "a div 2 ^ n * 2 ^ n = push_bit n (drop_bit n a)" by (simp add: push_bit_eq_mult drop_bit_eq_div)
  moreover have "bit a i \<Longrightarrow> i < 32" using assms(1) by (metis bit_take_bit_iff take_bit_nat_eq_self)
  ultimately show "bit (a AND (2 ^ 32 - 1 - (2 ^ n - 1))) i = bit (a div 2 ^ n * 2 ^ n) i"
    by (auto simp: bit_simps)
qed

lemma start_cursor_eq:
  assumes "page_geometry geo n" and "addr < 2 ^ 32"
  shows "start_cursor geo addr ops =
    \<lparr>c_addr = page_start geo addr, c_col = addr mod mtd_writesize geo, c_len = ops_len ops,
     c_ooboffs = ops_ooboffs ops, c_ooblen = ops_ooblen ops\<rparr>"
proof -
  have "addr AND (2 ^ n - 1) = addr mod 2 ^ n" by (metis mask_eq_exp_minus_1 take_bit_eq_mask take_bit_eq_mod)
  then show ?thesis using assms and_not_low_bits [OF assms(2), of n]
    by (simp add: start_cursor_def page_geometry_def page_start_def)
qed

text \<open>
  The device as \<^verbatim>\<open>nmbm_probe\<close> leaves it: the upper device has the geometry of the lower one, and the
  page cache has room for a page and its spare area. The size of the usable spare area is the same
  for both and within the spare area (\<^verbatim>\<open>mtd_oobavail\<close> gives \<^verbatim>\<open>oobavail\<close> or \<^verbatim>\<open>oobsize\<close> of the device).
\<close>

definition nm_wf :: "'m nmbm_mtd \<Rightarrow> nat \<Rightarrow> bool" where
  "nm_wf nm n \<longleftrightarrow>
     (let geo = lower_geo (nm_arg nm) in
      (\<exists>blocks. upper nm = upper_geometry geo blocks) \<and> page_geometry geo n \<and> 2 ^ n dvd mtd_size (upper nm)
      \<and> length (nm_page_cache nm) = mtd_writesize geo + mtd_oobsize geo \<and> mtd_oobsize geo < 2 ^ 32
      \<and> (\<forall>m. mtd_oobavail (kern (nm_arg nm)) (upper nm) m = mtd_oobavail (kern (nm_arg nm)) geo m
             \<and> mtd_oobavail (kern (nm_arg nm)) geo m \<le> mtd_oobsize geo))"

lemma pages_left_bounds:
  assumes "page_geometry mtd n" and "2 ^ n dvd mtd_size mtd" and "addr < mtd_size mtd"
  shows "page_start mtd addr + pages_left mtd addr * mtd_writesize mtd = mtd_size mtd"
    and "addr + len \<le> mtd_size mtd \<Longrightarrow> addr mod mtd_writesize mtd + len \<le> pages_left mtd addr * mtd_writesize mtd"
proof -
  obtain q where q: "mtd_size mtd = q * 2 ^ n" using assms(2) by (auto simp: dvd_def)
  have ws: "mtd_writesize mtd = 2 ^ n" using assms(1) by (simp add: page_geometry_def)
  have "addr div 2 ^ n * 2 ^ n \<le> q * 2 ^ n" using assms(3) q by (metis div_times_less_eq_dividend le_trans less_imp_le)
  then show a: "page_start mtd addr + pages_left mtd addr * mtd_writesize mtd = mtd_size mtd"
    by (simp add: page_start_def pages_left_def ws q diff_mult_distrib)
  show "addr mod mtd_writesize mtd + len \<le> pages_left mtd addr * mtd_writesize mtd" if "addr + len \<le> mtd_size mtd"
    using a that div_mult_mod_eq [of addr "mtd_writesize mtd"] unfolding page_start_def by linarith
qed

lemma delivered_fresh:
  assumes "ops_datbuf ops = Some db" and "ops_oobbuf ops = Some ob" and "length d = n" and "length s = m"
  shows "delivered d s (ops\<lparr>ops_oobretlen := 0, ops_retlen := 0\<rparr>) =
    ops\<lparr>ops_datbuf := Some (memput db 0 d), ops_retlen := n, ops_oobbuf := Some (memput ob 0 s), ops_oobretlen := m\<rparr>"
  using assms by (cases ops) (simp add: delivered_def)

lemma mtd_read_oob_ok:
  assumes names: "geo = lower_geo (nm_arg nm)" "ws = mtd_writesize geo"
      "maxooblen = mtd_oobavail (kern (nm_arg nm)) geo (ops_mode ops)"
      "k = pages_left (upper nm) from" "page = page_start geo from"
    and wf: "nm_wf nm n" and ready: "nm_state nm = FL_READY" and mode: "upper_mode (ops_mode ops) = Some mode"
    and reads: "reads_as P mode pg sp {page + i * ws |i. i < k}" "P (nm_ni nm)"
      "\<And>a. length (pg a) = ws \<and> length (sp a) = mtd_oobsize geo"
    and buffers: "ops_datbuf ops = Some db" "ops_len ops \<le> length db" "ops_oobbuf ops = Some ob" "ops_ooblen ops \<le> length ob"
    and range: "from < 2 ^ 32" "from + ops_len ops \<le> mtd_size (upper nm)" "\<not> oob_range_bad (upper nm) maxooblen from ops"
      "ops_ooboffs ops + ops_ooblen ops < 2 ^ 64" "k * maxooblen < 2 ^ 64"
  shows "\<exists>nm'. nmbm_mtd_read_oob nm from ops =
      Some ((0, ops\<lparr>ops_datbuf := Some (memput db 0 (memget (areas pg ws ws page k) (from mod ws) (ops_len ops))),
                    ops_retlen := ops_len ops,
                    ops_oobbuf := Some (memput ob 0 (memget (areas sp maxooblen ws page k) (ops_ooboffs ops) (ops_ooblen ops))),
                    ops_oobretlen := ops_ooblen ops\<rparr>), nm')
    \<and> nm_state nm' = FL_READY \<and> P (nm_ni nm')"
proof -
  obtain blocks where up: "upper nm = upper_geometry geo blocks" and pg: "page_geometry geo n" "2 ^ n dvd mtd_size (upper nm)"
    and cache: "length (nm_page_cache nm) = ws + mtd_oobsize geo" "mtd_oobsize geo < 2 ^ 32"
    and avail: "mtd_oobavail (kern (nm_arg nm)) (upper nm) (ops_mode ops) = maxooblen" "maxooblen \<le> mtd_oobsize geo"
    using wf unfolding nm_wf_def Let_def names by blast
  have upg: "page_geometry (upper nm) n" "mtd_writesize (upper nm) = ws" "mtd_size (upper nm) < 2 ^ 64" "page_start (upper nm) from = page"
    using pg(1) by (simp_all add: up upper_geometry_def page_geometry_def page_start_def names(2,5) u64_def)
  have ws: "0 < ws" "ws < 2 ^ 32" using pg(1) power_strict_increasing [of n 32 "2 :: nat"] by (simp_all add: page_geometry_def names(2))
  have ok: "from < mtd_size (upper nm)" "ops_ooboffs ops < maxooblen" "ops_ooboffs ops + ops_ooblen ops \<le> k * maxooblen"
    using range(3-5) upg(1,2) by (simp_all add: oob_range_bad_def u64_id page_geometry_def names(4) pages_left_def)
  note left = pages_left_bounds [OF upg(1) pg(2) ok(1), unfolded upg(2,4) names(4) [symmetric]]
  note start = start_cursor_eq [OF pg(1) range(1), of ops, folded names(2,5)]
  let ?c = "start_cursor geo from ops" and ?ops = "ops\<lparr>ops_oobretlen := 0, ops_retlen := 0\<rparr>"
    and ?nm = "nm\<lparr>nm_state := FL_READING\<rparr>"
  have c: "cursor_ok ws maxooblen k ?c"
    using ws ok avail(2) cache(2) left(1) left(2) [OF range(2)] upg(3) by (simp add: cursor_ok_def start)
  have room: "room (c_len ?c) (c_ooblen ?c) ?ops" using buffers by (simp add: room_def start)
  have lens: "length (data_rest ws pg k ?c) = ops_len ops" "length (oob_rest ws maxooblen sp k ?c) = ops_ooblen ops"
    using length_areas [of k ws pg page ws] length_areas [of k maxooblen sp page ws] reads(3) avail(2) ok(3) left(2) [OF range(2)]
    by (simp_all add: data_rest_def oob_rest_def start memget_def)
  obtain nm' where r: "read_data_pages ws maxooblen mode (ops_len ops \<noteq> 0) (ops_ooblen ops \<noteq> 0) ?c False 0 ?ops ?nm =
      Some ((0, delivered (data_rest ws pg k ?c) (oob_rest ws maxooblen sp k ?c) ?ops), nm')" "P (nm_ni nm')"
    using read_data_pages_ok [OF reads(1) reads(3) avail(2) c, of ?nm "ops_len ops \<noteq> 0" "ops_ooblen ops \<noteq> 0" ?ops]
      reads(2) cache(1) room by (auto simp: start)
  have "u64 (from + ops_len ops) \<le> mtd_size (upper nm)" using range(2) upg(3) by (simp add: u64_id)
  then have "nmbm_mtd_read_oob nm from ops = map_option (\<lambda>(r, nm). (r, nmbm_release_device nm)) (nmbm_mtd_read_data ?nm from ops mode)"
    using mode buffers(1,3) range(3) ready
    by (simp add: nmbm_mtd_read_oob_def avail(1) with_device_def nmbm_get_device_def)
  moreover have "nmbm_mtd_read_data ?nm from ops mode = Some ((0, delivered (data_rest ws pg k ?c) (oob_rest ws maxooblen sp k ?c) ?ops), nm')"
    using r(1) by (simp add: nmbm_mtd_read_data_def Let_def names(1,2,3))
  ultimately have "nmbm_mtd_read_oob nm from ops =
      Some ((0, delivered (data_rest ws pg k ?c) (oob_rest ws maxooblen sp k ?c) ?ops), nmbm_release_device nm')" by simp
  moreover have "delivered (data_rest ws pg k ?c) (oob_rest ws maxooblen sp k ?c) ?ops =
      ops\<lparr>ops_datbuf := Some (memput db 0 (memget (areas pg ws ws page k) (from mod ws) (ops_len ops))),
          ops_retlen := ops_len ops,
          ops_oobbuf := Some (memput ob 0 (memget (areas sp maxooblen ws page k) (ops_ooboffs ops) (ops_ooblen ops))),
          ops_oobretlen := ops_ooblen ops\<rparr>"
    using delivered_fresh [OF buffers(1,3) lens] by (simp add: data_rest_def oob_rest_def start)
  ultimately show ?thesis using r(2) by (simp add: nmbm_release_device_def)
qed

section \<open>Writing a page and its spare area\<close>

text \<open>A page or a spare area of \<open>sz\<close> bytes with some bytes set at an offset and ones elsewhere.\<close>

definition padded :: "nat \<Rightarrow> nat \<Rightarrow> byte list \<Rightarrow> byte list" where
  "padded sz off xs = replicate off 0xff @ xs @ replicate (sz - off - length xs) 0xff"

lemma length_padded: "off + length xs \<le> sz \<Longrightarrow> length (padded sz off xs) = sz"
  by (simp add: padded_def)

lemma filled_cache:
  assumes "length cache = ws + oobsz" and "length p = ws" and "length q = oobsz"
  shows "memput (memput cache 0 p) ws q = p @ q"
  using assms by (simp add: memput_def)

lemma mtd_write_data_page:
  assumes names: "geo = lower_geo (nm_arg nm)" "ws = mtd_writesize geo"
      "maxooblen = mtd_oobavail (kern (nm_arg nm)) geo (ops_mode ops)"
    and wf: "nm_wf nm n" and "addr < 2 ^ 32"
    and dat: "ops_datbuf ops = Some db" "ops_len ops = length db" "db \<noteq> []" "addr mod ws + length db \<le> ws"
    and oob: "ops_oobbuf ops = Some ob" "ops_ooblen ops = length ob" "ob \<noteq> []" "ops_ooboffs ops + length ob \<le> maxooblen"
  shows "nmbm_mtd_write_data crc nm addr ops mode =
    (let page = padded ws (addr mod ws) db; spare = padded (mtd_oobsize geo) (ops_ooboffs ops) ob;
         (ret, ni) = nmbm_write_single_page crc (nm_ni nm) (page_start geo addr) (Some page) (Some spare) mode
     in Some ((ret, ops\<lparr>ops_retlen := length db, ops_oobretlen := length ob\<rparr>),
              nm\<lparr>nm_ni := ni, nm_page_cache := page @ spare\<rparr>))"
proof -
  have pg: "page_geometry geo n" and cache: "length (nm_page_cache nm) = ws + mtd_oobsize geo" "mtd_oobsize geo < 2 ^ 32"
    and avail: "maxooblen \<le> mtd_oobsize geo"
    using wf by (auto simp: nm_wf_def Let_def names)
  have ws: "0 < ws" "ws < 2 ^ 32" using pg power_strict_increasing [of n 32 "2 :: nat"] by (simp_all add: page_geometry_def names(2))
  note start = start_cursor_eq [OF pg assms(5), of ops, folded names(2)]
  let ?c = "start_cursor geo addr ops"
  have c: "c_len ?c = length db" "c_ooblen ?c = length ob" "c_col ?c = addr mod ws" "c_ooboffs ?c = ops_ooboffs ops"
    "c_addr ?c = page_start geo addr" by (simp_all add: start dat(2) oob(2))
  have off: "addr mod ws < ws" "ops_ooboffs ops < maxooblen" using ws oob(3,4) by (simp_all add: length_greater_0_conv [symmetric] del: length_greater_0_conv)
  have chunks: "data_chunk ws (addr mod ws) (length db) = length db" "oob_chunk maxooblen (ops_ooboffs ops) (length ob) = length ob"
    using dat(4) oob(4) off by (auto simp: data_chunk_def oob_chunk_def sub32_def sub64_def)
  let ?p = "padded ws (addr mod ws) db" and ?q = "padded (mtd_oobsize geo) (ops_ooboffs ops) ob"
  have pads: "sub64 (sub32 ws (addr mod ws)) (length db) = ws - addr mod ws - length db"
    "sub64 (sub32 (mtd_oobsize geo) (ops_ooboffs ops)) (length ob) = mtd_oobsize geo - ops_ooboffs ops - length ob"
    using dat(4) oob(4) off avail by (simp_all add: sub32_def sub64_def)
  have filled: "fill_oob ws (mtd_oobsize geo) maxooblen ?c (ops\<lparr>ops_oobretlen := 0, ops_retlen := 0\<rparr>)
      (fill_data ws ?c (ops\<lparr>ops_oobretlen := 0, ops_retlen := 0\<rparr>) (nm_page_cache nm)) = ?p @ ?q"
    using filled_cache [OF cache(1), of ?p ?q] length_padded [OF dat(4)] length_padded [of "ops_ooboffs ops" ob "mtd_oobsize geo"]
      dat oob avail by (simp add: fill_oob_def fill_data_def Let_def c chunks pads padded_def memget_def)
  have done': "c_len (next_cursor ws maxooblen ?c) = 0" "c_ooblen (next_cursor ws maxooblen ?c) = 0"
    by (simp_all add: next_cursor_def c chunks)
  have ops: "count_moved ws maxooblen ?c (ops\<lparr>ops_oobretlen := 0, ops_retlen := 0\<rparr>)
      = ops\<lparr>ops_retlen := length db, ops_oobretlen := length ob\<rparr>"
    by (simp add: count_moved_def c chunks)
  have finish: "write_data_pages crc geo maxooblen mode d s (next_cursor ws maxooblen ?c) o' nm' = Some ((0, o'), nm')" for d s o' nm'
    by (simp add: write_data_pages.simps done')
  have "nmbm_mtd_write_data crc nm addr ops mode =
      write_data_pages crc geo maxooblen mode True True ?c (ops\<lparr>ops_oobretlen := 0, ops_retlen := 0\<rparr>) nm"
    using dat(2,3) oob(2,3) by (simp add: nmbm_mtd_write_data_def Let_def names)
  also have "\<dots> = (let (ret, ni) = nmbm_write_single_page crc (nm_ni nm) (page_start geo addr) (Some ?p) (Some ?q) mode
     in Some ((ret, ops\<lparr>ops_retlen := length db, ops_oobretlen := length ob\<rparr>),
              nm\<lparr>nm_ni := ni, nm_page_cache := ?p @ ?q\<rparr>))"
    using dat(3) oob(3)
    by (subst write_data_pages.simps)
      (simp add: Let_def names(2) [symmetric] filled length_padded [OF dat(4)] ops c finish split: prod.splits)
  finally show ?thesis by (simp add: Let_def)
qed

lemma mtd_write_oob_page:
  assumes names: "geo = lower_geo (nm_arg nm)" "ws = mtd_writesize geo"
      "maxooblen = mtd_oobavail (kern (nm_arg nm)) geo (ops_mode ops)"
    and wf: "nm_wf nm n" and ready: "nm_state nm = FL_READY" and mode: "upper_mode (ops_mode ops) = Some mode"
    and dat: "ops_datbuf ops = Some db" "ops_len ops = length db" "db \<noteq> []" "to mod ws + length db \<le> ws"
    and oob: "ops_oobbuf ops = Some ob" "ops_ooblen ops = length ob" "ob \<noteq> []" "ops_ooboffs ops + length ob \<le> maxooblen"
    and range: "to < 2 ^ 32" "to + length db \<le> mtd_size (upper nm)"
      "u64 (pages_left (upper nm) to * maxooblen) = pages_left (upper nm) to * maxooblen"
  shows "nmbm_mtd_write_oob crc nm to ops =
    (let page = padded ws (to mod ws) db; spare = padded (mtd_oobsize geo) (ops_ooboffs ops) ob;
         (ret, ni) = nmbm_write_single_page crc (nm_ni nm) (page_start geo to) (Some page) (Some spare) mode
     in Some ((ret, ops\<lparr>ops_retlen := length db, ops_oobretlen := length ob\<rparr>),
              nm\<lparr>nm_ni := ni, nm_page_cache := page @ spare, nm_state := FL_READY\<rparr>))"
proof -
  obtain blocks where up: "upper nm = upper_geometry geo blocks" and pg: "page_geometry geo n" "2 ^ n dvd mtd_size (upper nm)"
    and avail: "mtd_oobavail (kern (nm_arg nm)) (upper nm) (ops_mode ops) = maxooblen" "maxooblen \<le> mtd_oobsize geo"
    and osz: "mtd_oobsize geo < 2 ^ 32"
    using wf unfolding nm_wf_def Let_def names by blast
  have upg: "page_geometry (upper nm) n" "mtd_writesize (upper nm) = ws" "mtd_size (upper nm) < 2 ^ 64"
    using pg(1) by (simp_all add: up upper_geometry_def page_geometry_def names(2) u64_def)
  have to: "to < mtd_size (upper nm)" "u64 (to + length db) \<le> mtd_size (upper nm)"
    using range(2) dat(3) upg(3) by (simp_all add: u64_id length_greater_0_conv [symmetric] del: length_greater_0_conv)
  have "0 < pages_left (upper nm) to"
    using pages_left_bounds(1) [OF upg(1) pg(2) to(1)] to(1) div_mult_mod_eq [of to ws] mod_less_divisor [of ws to] pg(1)
    by (cases "pages_left (upper nm) to") (auto simp: page_start_def upg(2) names(2) page_geometry_def)
  then have "maxooblen \<le> pages_left (upper nm) to * maxooblen" by simp
  then have "ops_ooboffs ops + length ob \<le> pages_left (upper nm) to * maxooblen" using oob(4) by linarith
  then have "u64 (ops_ooboffs ops + length ob) \<le> u64 (pages_left (upper nm) to * maxooblen)"
    unfolding range(3) using u64_le le_trans by blast
  moreover have "mtd_size (upper nm) div 2 ^ mtd_writesize_shift (upper nm) - to div 2 ^ mtd_writesize_shift (upper nm)
      = pages_left (upper nm) to" using upg(1) by (simp add: page_geometry_def pages_left_def)
  moreover have "0 < length ob" using oob(3) by simp
  ultimately have "\<not> oob_range_bad (upper nm) maxooblen to ops"
    using to(1) oob(2,4) by (simp only: oob_range_bad_def) linarith
  then have "nmbm_mtd_write_oob crc nm to ops = map_option (\<lambda>(r, nm). (r, nmbm_release_device nm))
      (nmbm_mtd_write_data crc (nm\<lparr>nm_state := FL_WRITING\<rparr>) to ops mode)"
    using mode dat(1,2) oob(1) ready to(2)
    by (simp add: nmbm_mtd_write_oob_def avail(1) with_device_def nmbm_get_device_def)
  moreover have "nm_wf (nm\<lparr>nm_state := FL_WRITING\<rparr>) n" using wf by (simp add: nm_wf_def)
  ultimately show ?thesis
    using mtd_write_data_page [where nm = "nm\<lparr>nm_state := FL_WRITING\<rparr>", OF _ names(2) _ \<open>nm_wf (nm\<lparr>nm_state := FL_WRITING\<rparr>) n\<close> range(1) dat oob]
      names ready by (cases nm) (simp add: nmbm_release_device_def Let_def split: prod.splits)
qed

section \<open>The device that probing leaves\<close>

text \<open>The callbacks of the driver keep the kernel functions and the geometry of the lower device.\<close>

lemma lower_callbacks_keep:
  "nmbm_lower_read_page e a b oob m = (r, b', oob', e') \<Longrightarrow> kern e' = kern e \<and> lower_geo e' = lower_geo e"
  "nmbm_lower_write_page e a b oob m = (r, e') \<Longrightarrow> kern e' = kern e \<and> lower_geo e' = lower_geo e"
  "nmbm_lower_erase_block e a = (r, e') \<Longrightarrow> kern e' = kern e \<and> lower_geo e' = lower_geo e"
  "nmbm_lower_is_bad_block e a = (r, e') \<Longrightarrow> kern e' = kern e \<and> lower_geo e' = lower_geo e"
  "nmbm_lower_mark_bad_block e a = (r, e') \<Longrightarrow> kern e' = kern e \<and> lower_geo e' = lower_geo e"
  by (auto simp: nmbm_lower_read_page_def nmbm_lower_write_page_def nmbm_lower_erase_block_def nmbm_lower_is_bad_block_def
      nmbm_lower_mark_bad_block_def Let_def split: option.splits prod.splits)

lemma probe_lower_device_fields:
  "arg (probe_lower_device np l) = l" "reset_chip (probe_lower_device np l) = None"
  "read_page (probe_lower_device np l) = Some nmbm_lower_read_page"
  "write_page (probe_lower_device np l) = Some nmbm_lower_write_page"
  "erase_block (probe_lower_device np l) = Some nmbm_lower_erase_block"
  "is_bad_block (probe_lower_device np l) = Some nmbm_lower_is_bad_block"
  "mark_bad_block (probe_lower_device np l) = Some nmbm_lower_mark_bad_block"
  by (simp_all add: probe_lower_device_def)

lemma check_lower_members_callbacks:
  assumes "nmbm_check_lower_members nld0 = (True, nld)"
  shows "arg nld = arg nld0 \<and> reset_chip nld = reset_chip nld0 \<and> read_page nld = read_page nld0 \<and>
    write_page nld = write_page nld0 \<and> erase_block nld = erase_block nld0 \<and> is_bad_block nld = is_bad_block nld0 \<and>
    mark_bad_block nld = mark_bad_block nld0"
  using assms unfolding nmbm_check_lower_members_def Let_def by (auto split: if_splits)

lemma probe_reach_keeps:
  assumes "dev_reach W nld d e" and "nmbm_check_lower_members (probe_lower_device np l) = (True, nld)"
  shows "kern e = kern d \<and> lower_geo e = lower_geo d"
  using assms(1)
  by induction (use check_lower_members_callbacks [OF assms(2)] in \<open>auto simp: probe_lower_device_fields dest!: lower_callbacks_keep\<close>)

lemma dvd_upper_size:
  assumes "n < 32" and "2 ^ n dvd mtd_erasesize geo"
  shows "2 ^ n dvd mtd_size (upper_geometry geo blocks)"
proof -
  have "(2::nat) ^ n dvd 2 ^ 64" using assms(1) by (intro le_imp_power_dvd) simp
  then show ?thesis using assms(2) by (simp add: upper_geometry_def u64_def dvd_mod_iff dvd_mod)
qed

end
