(* ===== verification/Nmbm_Mtd_Props.thy ===== *)
theory Nmbm_Mtd_Props
  imports Nmbm_Mtd Demo_Chip
begin

text \<open>
  The properties of the MTD driver on top of NMBM, each with an instance on a small device where it
  has hypotheses.
\<close>

unbundle bit_operations_syntax

section \<open>A small MTD device\<close>

text \<open>
  32 blocks of two pages of 64 bytes with 4 spare bytes. Page \<open>i\<close> and its spare area hold the byte \<open>i\<close>;
  the state of the device is the list of the write operations it has seen.
\<close>

type_synonym demo_log = "(nat \<times> buf \<times> buf) list"

definition demo_geo :: mtd_geometry where
  "demo_geo = \<lparr>mtd_type = 4, mtd_flags = 0, mtd_size = 4096, mtd_erasesize = 128, mtd_writesize = 64,
     mtd_writebufsize = 64, mtd_oobsize = 4, mtd_oobavail_bytes = 4, mtd_erasesize_shift = 7,
     mtd_writesize_shift = 6, mtd_erasesize_mask = 127, mtd_writesize_mask = 63, mtd_bitflip_threshold = 1,
     mtd_ecc_step_size = 64, mtd_ecc_strength = 1, mtd_numeraseregions = 0\<rparr>"

definition demo_page :: "nat \<Rightarrow> nat \<Rightarrow> byte list" where
  "demo_page n a = replicate n (word_of_nat (a div 64))"

definition demo_read_oob :: "demo_log \<Rightarrow> nat \<Rightarrow> mtd_oob_ops \<Rightarrow> int \<times> mtd_oob_ops \<times> demo_log" where
  "demo_read_oob d a ops =
     (0, ops\<lparr>ops_datbuf := map_option (\<lambda>_. demo_page 64 a) (ops_datbuf ops),
             ops_oobbuf := map_option (\<lambda>_. demo_page 4 a) (ops_oobbuf ops)\<rparr>, d)"

definition demo_write_oob :: "demo_log \<Rightarrow> nat \<Rightarrow> mtd_oob_ops \<Rightarrow> int \<times> demo_log" where
  "demo_write_oob d a ops = (0, d @ [(a, ops_datbuf ops, ops_oobbuf ops)])"

definition demo_mtd_kernel :: "demo_log mtd_kernel" where
  "demo_mtd_kernel = \<lparr>mtd_oobavail = (\<lambda>g m. if m = MTD_OPS_AUTO_OOB then mtd_oobavail_bytes g else mtd_oobsize g),
     mtd_read_oob = demo_read_oob, mtd_write_oob = demo_write_oob, mtd_erase = (\<lambda>d a n. (0, d)),
     mtd_block_isbad = (\<lambda>d a. (0, d)), mtd_block_markbad = (\<lambda>d a. (0, d)),
     ecc_corrected = (\<lambda>d. 0), ecc_failed = (\<lambda>d. 0)\<rparr>"

definition demo_arg :: "demo_log nmbm_lower_arg" where
  "demo_arg = \<lparr>kern = demo_mtd_kernel, lower_geo = demo_geo, lower_dev = [], upper_corrected = 0, upper_failed = 0\<rparr>"

definition demo_node :: "demo_log device_node" where
  "demo_node = \<lparr>lower_mtd_device = Some (Some demo_arg), lower_mtd_name = None, dt_max_ratio = Some 8,
     dt_max_reserved_blocks = None, dt_forced_create = True, dt_empty_page_ecc_protected = False\<rparr>"

text \<open>An attached device: 16 data blocks, each mapped to itself.\<close>

definition demo_mtd_ni :: "demo_log nmbm_lower_arg nmbm_instance" where
  "demo_mtd_ni = (nmbm_init_structure (blank_instance (probe_lower_device demo_node demo_arg)))
     \<lparr>mgmt_start_ba := 16, main_table_ba := 16, backup_table_ba := 20, mapping_blocks_ba := 22,
      mapping_blocks_top_ba := 30, signature_ba := 31, data_block_count := 16,
      block_mapping := map int [0..<16] @ replicate 16 (-1)\<rparr>"

definition demo_mtd :: "demo_log nmbm_mtd" where
  "demo_mtd = \<lparr>upper = upper_geometry demo_geo 16, nm_ni = demo_mtd_ni, nm_page_cache = replicate 68 0, nm_state = FL_READY\<rparr>"

definition demo_ops :: "byte list \<Rightarrow> nat \<Rightarrow> byte list \<Rightarrow> mtd_oob_ops" where
  "demo_ops db off ob = \<lparr>ops_mode = MTD_OPS_PLACE_OOB, ops_len = length db, ops_retlen = 0, ops_ooblen = length ob,
     ops_oobretlen = 0, ops_ooboffs = off, ops_datbuf = Some db, ops_oobbuf = Some ob\<rparr>"

lemma demo_mtd_fields [simp]:
  "nm_ni demo_mtd = demo_mtd_ni" "nm_state demo_mtd = FL_READY" "upper demo_mtd = upper_geometry demo_geo 16"
  "lower demo_mtd_ni = probe_lower_device demo_node demo_arg" "arg (probe_lower_device np l) = l"
  "kern demo_arg = demo_mtd_kernel" "lower_geo demo_arg = demo_geo" "protected demo_mtd_ni = False"
  "block_mapping demo_mtd_ni = map int [0..<16] @ replicate 16 (-1)" "data_block_count demo_mtd_ni = 16"
  by (simp_all add: demo_mtd_def demo_mtd_ni_def init_structure_inst blank_instance_def probe_lower_device_def
      demo_arg_def nmbm_init_structure_def Let_def)

lemma demo_mtd_shift: "erasesize_shift demo_mtd_ni = 7" "erasesize_mask demo_mtd_ni = 127" "writesize_shift demo_mtd_ni = 6"
  by code_simp+

lemma demo_mtd_good: "list_all (\<lambda>b. nmbm_get_block_state demo_mtd_ni b = BLOCK_ST_GOOD) [0..<16]"
  by code_simp

lemma demo_mtd_wf: "nm_wf demo_mtd 6"
proof -
  have "\<exists>blocks. upper demo_mtd = upper_geometry demo_geo blocks" by auto
  moreover have "mtd_size (upper demo_mtd) = 2048" "length (nm_page_cache demo_mtd) = 68"
    by (simp_all add: upper_geometry_def demo_geo_def demo_mtd_def u64_def)
  ultimately show ?thesis
    by (simp add: nm_wf_def) (simp add: page_geometry_def upper_geometry_def demo_geo_def demo_mtd_kernel_def)
qed

lemma demo_node_check:
  "nmbm_check_lower_members (probe_lower_device demo_node demo_arg) = (True, probe_lower_device demo_node demo_arg)"
  by (simp add: nmbm_check_lower_members_def is_power_of_2_u64_def probe_lower_device_def demo_node_def demo_arg_def demo_geo_def)

lemma demo_set_arg: "set_arg demo_arg demo_mtd_ni = demo_mtd_ni"
  by (cases demo_mtd_ni) (use demo_mtd_fields(4,5) in \<open>simp add: set_arg_def probe_lower_device_def\<close>)

lemma demo_phys_read:
  "nmbm_read_phys_page demo_mtd_ni a d s NMBM_MODE_PLACE_OOB
    = (0, map_option (\<lambda>_. demo_page 64 a) d, map_option (\<lambda>_. demo_page 4 a) s, demo_mtd_ni)"
proof -
  have "nmbm_lower_read_page demo_arg a d s NMBM_MODE_PLACE_OOB
      = (0, map_option (\<lambda>_. demo_page 64 a) d, map_option (\<lambda>_. demo_page 4 a) s, demo_arg)"
    by (simp add: nmbm_lower_read_page_def demo_arg_def demo_mtd_kernel_def demo_read_oob_def lower_ops_def)
  then have "lower_read_page demo_mtd_ni a d s NMBM_MODE_PLACE_OOB
      = (0, map_option (\<lambda>_. demo_page 64 a) d, map_option (\<lambda>_. demo_page 4 a) s, demo_mtd_ni)"
    by (simp add: lower_read_page_def) (simp add: probe_lower_device_def demo_set_arg)
  then show ?thesis by (simp add: nmbm_read_phys_page_def numeral_3_eq_3)
qed

lemma demo_reads: "reads_as (\<lambda>ni. ni = demo_mtd_ni) NMBM_MODE_PLACE_OOB (demo_page 64) (demo_page 4) {a. a < 2048}"
proof -
  have "nmbm_read_single_page demo_mtd_ni a d s NMBM_MODE_PLACE_OOB
      = (0, map_option (\<lambda>_. demo_page 64 a) d, map_option (\<lambda>_. demo_page 4 a) s, demo_mtd_ni)" if "a < 2048" for a d s
  proof -
    have b: "a div 128 < 16" using that by simp
    have good: "nmbm_get_block_state demo_mtd_ni (a div 128) = BLOCK_ST_GOOD"
      using demo_mtd_good b by (simp add: list_all_iff)
    have "a AND 127 = a mod 128" using take_bit_eq_mask [of 7 a] by (simp add: mask_eq_exp_minus_1 take_bit_eq_mod)
    moreover have "rd (-1) (block_mapping demo_mtd_ni) (a div 128) = int (a div 128)"
      using b by (simp add: rd_def nth_append)
    ultimately have "nmbm_read_logic_page demo_mtd_ni a d s NMBM_MODE_PLACE_OOB = nmbm_read_phys_page demo_mtd_ni a d s NMBM_MODE_PLACE_OOB"
      using good that by (simp add: nmbm_read_logic_page_def ba2addr_def addr2ba_def demo_mtd_shift u32_id u64_id del: demo_mtd_fields(9))
    moreover have "read_guard demo_mtd_ni a = None"
      using that by (simp add: read_guard_def ba2addr_def demo_mtd_shift u64_def)
    ultimately show ?thesis by (simp add: nmbm_read_single_page_def demo_phys_read)
  qed
  then show ?thesis by (auto simp: reads_as_def)
qed

section \<open>The device lock\<close>

text \<open>
  C38: Any number of tasks that call \<^verbatim>\<open>nmbm_get_device\<close> and \<^verbatim>\<open>nmbm_release_device\<close> keep the device to one
  of them: two tasks hold it at the same time only when both have suspended it, and the state is the
  one the holder asked for. No wake-up is lost: unless the device is suspended, a task that sleeps can
  get the device after the holder's release. A suspended device stays suspended.
\<close>
theorem device_lock_correct:
  assumes "lock_step\<^sup>*\<^sup>* lock_init s"
  shows "(\<forall>t u a b. tasks s t = HOLDING a \<and> tasks s u = HOLDING b \<and> t \<noteq> u \<longrightarrow> a = FL_PM_SUSPENDED \<and> b = FL_PM_SUSPENDED)
    \<and> (\<forall>t st. tasks s t = HOLDING st \<longrightarrow> dev_state s = st)
    \<and> (\<forall>t st. tasks s t = WAITING st \<and> dev_state s \<noteq> FL_PM_SUSPENDED
         \<longrightarrow> (\<exists>s1 s2. lock_step s s1 \<and> lock_step s1 s2 \<and> tasks s2 t = HOLDING st))
    \<and> (\<forall>s'. lock_step\<^sup>*\<^sup>* s s' \<and> dev_state s = FL_PM_SUSPENDED \<longrightarrow> dev_state s' = FL_PM_SUSPENDED)"
proof -
  note inv = lock_inv_reachable [OF assms]
  have "a = FL_PM_SUSPENDED \<and> b = FL_PM_SUSPENDED" if "tasks s t = HOLDING a" "tasks s u = HOLDING b" "t \<noteq> u" for t u a b
    using lock_invD(1) [OF inv that(1)] lock_invD(1) [OF inv that(2)] lock_invD(3) [OF inv, of t a u] that by metis
  then show ?thesis
    using lock_invD(1) [OF inv] waiting_progress [OF inv] suspended_stays [OF _ inv] by blast
qed

theorem device_lock_correct_witness:
  "\<exists>s :: nat lock_system. lock_step\<^sup>*\<^sup>* lock_init s \<and> tasks s 0 = HOLDING FL_READING \<and> tasks s 1 = WAITING FL_WRITING
    \<and> dev_state s = FL_READING
    \<and> (\<exists>s1 s2. lock_step s s1 \<and> lock_step s1 s2 \<and> tasks s2 1 = HOLDING FL_WRITING)"
proof -
  define s1 :: "nat lock_system" where "s1 = lock_init\<lparr>tasks := (tasks lock_init)(0 := GETTING FL_READING)\<rparr>"
  define s2 where "s2 = \<lparr>dev_state = FL_READING, tasks = (tasks s1)(0 := HOLDING FL_READING)\<rparr>"
  define s3 where "s3 = s2\<lparr>tasks := (tasks s2)(1 := GETTING FL_WRITING)\<rparr>"
  define s4 where "s4 = s3\<lparr>tasks := (tasks s3)(1 := WAITING FL_WRITING)\<rparr>"
  have "lock_step lock_init s1" unfolding s1_def by (rule lock_step.call) (simp_all add: lock_init_def)
  moreover have "lock_step s1 s2" unfolding s2_def
    by (rule lock_step.get) (simp_all add: s1_def lock_init_def nmbm_get_device_def)
  moreover have "lock_step s2 s3" unfolding s3_def by (rule lock_step.call) (simp_all add: s2_def s1_def lock_init_def)
  moreover have "lock_step s3 s4" unfolding s4_def
    by (rule lock_step.wait) (simp_all add: s3_def s2_def nmbm_get_device_def)
  ultimately have r: "lock_step\<^sup>*\<^sup>* lock_init s4" by (meson converse_rtranclp_into_rtranclp rtranclp.rtrancl_refl)
  have t: "tasks s4 0 = HOLDING FL_READING" "tasks s4 1 = WAITING FL_WRITING" "dev_state s4 = FL_READING"
    by (simp_all add: s4_def s3_def s2_def)
  have "\<exists>q1 q2. lock_step s4 q1 \<and> lock_step q1 q2 \<and> tasks q2 1 = HOLDING FL_WRITING"
    using device_lock_correct [OF r] t(2,3) by simp
  then show ?thesis using r t by blast
qed

section \<open>Reading and writing with spare areas\<close>

text \<open>
  C39: A read with spare bytes returns exactly the requested slice of the consecutive pages and of
  the usable parts of their spare areas, reports both lengths, and releases the device. The
  address is below 4 GiB: the driver masks it with a 32-bit number.
\<close>
theorem mtd_read_oob_pages:
  assumes "geo = lower_geo (nm_arg nm)" and "ws = mtd_writesize geo"
    and "maxooblen = mtd_oobavail (kern (nm_arg nm)) geo (ops_mode ops)"
    and "k = pages_left (upper nm) from" and "page = page_start geo from"
    and "nm_wf nm n" and "nm_state nm = FL_READY" and "upper_mode (ops_mode ops) = Some mode"
    and "reads_as P mode pg sp {page + i * ws |i. i < k}" and "P (nm_ni nm)"
    and "\<And>a. length (pg a) = ws \<and> length (sp a) = mtd_oobsize geo"
    and "ops_datbuf ops = Some db" and "ops_len ops \<le> length db" and "ops_oobbuf ops = Some ob" and "ops_ooblen ops \<le> length ob"
    and "from < 2 ^ 32" and "from + ops_len ops \<le> mtd_size (upper nm)" and "\<not> oob_range_bad (upper nm) maxooblen from ops"
    and "ops_ooboffs ops + ops_ooblen ops < 2 ^ 64" and "k * maxooblen < 2 ^ 64"
  shows "\<exists>nm'. nmbm_mtd_read_oob nm from ops =
      Some ((0, ops\<lparr>ops_datbuf := Some (memput db 0 (memget (areas pg ws ws page k) (from mod ws) (ops_len ops))),
                    ops_retlen := ops_len ops,
                    ops_oobbuf := Some (memput ob 0 (memget (areas sp maxooblen ws page k) (ops_ooboffs ops) (ops_ooblen ops))),
                    ops_oobretlen := ops_ooblen ops\<rparr>), nm')
    \<and> nm_state nm' = FL_READY \<and> P (nm_ni nm')"
  using assms by (rule mtd_read_oob_ok)

theorem mtd_read_oob_pages_witness:
  "\<exists>ops' nm'. nmbm_mtd_read_oob demo_mtd 1900 (demo_ops (replicate 100 0) 2 (replicate 5 0)) = Some ((0, ops'), nm')
    \<and> ops_datbuf ops' = Some (replicate 20 29 @ replicate 64 30 @ replicate 16 31) \<and> ops_oobbuf ops' = Some [29, 29, 30, 30, 30]"
proof -
  define ops where "ops = demo_ops (replicate 100 0) 2 (replicate 5 0)"
  have o': "ops_mode ops = MTD_OPS_PLACE_OOB" "ops_len ops = 100" "ops_ooblen ops = 5" "ops_ooboffs ops = 2"
    "ops_datbuf ops = Some (replicate 100 0)" "ops_oobbuf ops = Some (replicate 5 0)"
    by (simp_all add: ops_def demo_ops_def)
  have n: "pages_left (upper demo_mtd) 1900 = 3" "page_start demo_geo 1900 = 1856" "mtd_size (upper demo_mtd) = 2048"
    "\<not> oob_range_bad (upper demo_mtd) 4 1900 ops"
    by (simp_all add: pages_left_def upper_geometry_def demo_geo_def page_start_def u64_def oob_range_bad_def o')
  have A: "reads_as (\<lambda>ni. ni = demo_mtd_ni) NMBM_MODE_PLACE_OOB (demo_page 64) (demo_page 4) {1856 + i * 64 |i. i < 3}"
    using demo_reads unfolding reads_as_def by fastforce
  have dat: "areas (demo_page 64) 64 64 1856 3 = replicate 64 29 @ replicate 64 30 @ replicate 64 31"
    "areas (demo_page 4) 4 64 1856 3 = replicate 4 29 @ replicate 4 30 @ replicate 4 31"
    by (simp_all add: numeral_3_eq_3 areas_Suc demo_page_def)
  have vals: "4 = mtd_oobavail (kern (nm_arg demo_mtd)) demo_geo (ops_mode ops)" "64 = mtd_writesize demo_geo"
    "demo_geo = lower_geo (nm_arg demo_mtd)" "upper_mode (ops_mode ops) = Some NMBM_MODE_PLACE_OOB"
    "length (demo_page 64 a) = 64 \<and> length (demo_page 4 a) = mtd_oobsize demo_geo" for a
    by (simp_all add: demo_mtd_kernel_def demo_geo_def o' demo_page_def)
  have "\<exists>nm'. nmbm_mtd_read_oob demo_mtd 1900 ops =
      Some ((0, ops\<lparr>ops_datbuf := Some (memput (replicate 100 0) 0 (memget (areas (demo_page 64) 64 64 1856 3) (1900 mod 64) (ops_len ops))),
                    ops_retlen := ops_len ops,
                    ops_oobbuf := Some (memput (replicate 5 0) 0 (memget (areas (demo_page 4) 4 64 1856 3) (ops_ooboffs ops) (ops_ooblen ops))),
                    ops_oobretlen := ops_ooblen ops\<rparr>), nm') \<and> nm_state nm' = FL_READY \<and> nm_ni nm' = demo_mtd_ni"
    by (rule mtd_read_oob_pages [OF vals(3,2,1) n(1) [symmetric] n(2) [symmetric] demo_mtd_wf demo_mtd_fields(2) vals(4) A
          demo_mtd_fields(1) vals(5) o'(5) _ o'(6) _ _ _ n(4)]) (simp_all only: o' n length_replicate, simp_all)
  moreover have "memput (replicate 100 0) 0 (memget (replicate 64 29 @ replicate 64 30 @ replicate 64 31) (1900 mod 64) 100)
      = replicate 20 29 @ replicate 64 30 @ replicate 16 (31 :: byte)"
    "memput (replicate 5 0) 0 (memget (replicate 4 29 @ replicate 4 30 @ replicate 4 31) 2 5) = [29, 29, 30, 30, 30 :: byte]"
    by (simp_all add: memget_def memput_def numeral_2_eq_2 numeral_3_eq_3)
  ultimately show ?thesis unfolding ops_def [symmetric] by (auto simp: o' dat)
qed

text \<open>
  C40: A write of data and spare bytes within one page is one page write of NMBM, with the bytes in
  place and ones around them; its result is returned and the device is released.
\<close>
theorem mtd_write_oob_padded:
  assumes "geo = lower_geo (nm_arg nm)" and "ws = mtd_writesize geo"
    and "maxooblen = mtd_oobavail (kern (nm_arg nm)) geo (ops_mode ops)"
    and "nm_wf nm n" and "nm_state nm = FL_READY" and "upper_mode (ops_mode ops) = Some mode"
    and "ops_datbuf ops = Some db" and "ops_len ops = length db" and "db \<noteq> []" and "to mod ws + length db \<le> ws"
    and "ops_oobbuf ops = Some ob" and "ops_ooblen ops = length ob" and "ob \<noteq> []" and "ops_ooboffs ops + length ob \<le> maxooblen"
    and "to < 2 ^ 32" and "to + length db \<le> mtd_size (upper nm)"
    and "u64 (pages_left (upper nm) to * maxooblen) = pages_left (upper nm) to * maxooblen"
  shows "nmbm_mtd_write_oob crc nm to ops =
    (let page = padded ws (to mod ws) db; spare = padded (mtd_oobsize geo) (ops_ooboffs ops) ob;
         (ret, ni) = nmbm_write_single_page crc (nm_ni nm) (page_start geo to) (Some page) (Some spare) mode
     in Some ((ret, ops\<lparr>ops_retlen := length db, ops_oobretlen := length ob\<rparr>),
              nm\<lparr>nm_ni := ni, nm_page_cache := page @ spare, nm_state := FL_READY\<rparr>))"
  using assms by (rule mtd_write_oob_page)

theorem mtd_write_oob_padded_witness:
  "nmbm_mtd_write_oob demo_crc demo_mtd 1900 (demo_ops [1, 2, 3] 2 [4, 5]) =
    (let page = replicate 44 0xff @ [1, 2, 3] @ replicate 17 0xff; spare = [0xff, 0xff, 4, 5];
         (ret, ni) = nmbm_write_single_page demo_crc demo_mtd_ni 1856 (Some page) (Some spare) NMBM_MODE_PLACE_OOB
     in Some ((ret, (demo_ops [1, 2, 3] 2 [4, 5])\<lparr>ops_retlen := 3, ops_oobretlen := 2\<rparr>),
              demo_mtd\<lparr>nm_ni := ni, nm_page_cache := page @ spare, nm_state := FL_READY\<rparr>))"
proof -
  define ops where "ops = demo_ops [1, 2, 3] 2 [4, 5]"
  have o': "ops_mode ops = MTD_OPS_PLACE_OOB" "ops_len ops = length [1, 2, 3]" "ops_ooblen ops = length [4, 5]" "ops_ooboffs ops = 2"
    "ops_datbuf ops = Some [1, 2, 3]" "ops_oobbuf ops = Some [4, 5]"
    by (simp_all add: ops_def demo_ops_def)
  have n: "pages_left (upper demo_mtd) 1900 = 3" "page_start demo_geo 1900 = 1856" "mtd_size (upper demo_mtd) = 2048"
    by (simp_all add: pages_left_def upper_geometry_def demo_geo_def page_start_def u64_def)
  have vals: "4 = mtd_oobavail (kern (nm_arg demo_mtd)) demo_geo (ops_mode ops)" "64 = mtd_writesize demo_geo"
    "demo_geo = lower_geo (nm_arg demo_mtd)" "upper_mode (ops_mode ops) = Some NMBM_MODE_PLACE_OOB" "mtd_oobsize demo_geo = 4"
    by (simp_all add: demo_mtd_kernel_def demo_geo_def o')
  have "nmbm_mtd_write_oob demo_crc demo_mtd 1900 ops =
    (let page = padded 64 (1900 mod 64) [1, 2, 3]; spare = padded (mtd_oobsize demo_geo) (ops_ooboffs ops) [4, 5];
         (ret, ni) = nmbm_write_single_page demo_crc (nm_ni demo_mtd) (page_start demo_geo 1900) (Some page) (Some spare) NMBM_MODE_PLACE_OOB
     in Some ((ret, ops\<lparr>ops_retlen := length [1 :: byte, 2, 3], ops_oobretlen := length [4 :: byte, 5]\<rparr>),
              demo_mtd\<lparr>nm_ni := ni, nm_page_cache := page @ spare, nm_state := FL_READY\<rparr>))"
    by (rule mtd_write_oob_padded [OF vals(3,2,1) demo_mtd_wf demo_mtd_fields(2) vals(4) o'(5) o'(2) _ _ o'(6) o'(3)])
      (simp_all only: o' n, simp_all add: u64_def)
  moreover have "padded 64 (1900 mod 64) [1, 2, 3] = replicate 44 0xff @ [1, 2, 3] @ replicate 17 (0xff :: byte)"
    by (simp add: padded_def)
  moreover have "padded 4 2 [4, 5] = [0xff, 0xff, 4, 5 :: byte]" by (simp add: padded_def numeral_2_eq_2)
  ultimately show ?thesis unfolding ops_def [symmetric] by (simp add: o' n vals(5) numeral_2_eq_2 numeral_3_eq_3 cong: let_cong)
qed

text \<open>
  When the spare bytes end before the data, \<^verbatim>\<open>nmbm_mtd_write_data\<close> does not refill the spare part
  of its page cache: every further page is written with the spare bytes of an earlier page.
\<close>
lemma mtd_write_oob_stale_spare:
  "map_option (\<lambda>((ret, ops), nm). (ret, ops_oobretlen ops, map (\<lambda>(a, data, spare). (a, spare)) (lower_dev (nm_arg nm))))
     (nmbm_mtd_write_oob demo_crc demo_mtd 0 (demo_ops (replicate 128 0) 0 [1, 2, 3, 4]))
   = Some (0, 4, [(0, Some [1, 2, 3, 4]), (64, Some [1, 2, 3, 4])])"
  by code_simp

end
