(* ===== verification/Ntfs_Packed.thy ===== *)
theory Ntfs_Packed
  imports C_Prelude
begin

text \<open>
  The packed integers of \<^verbatim>\<open>fs/ntfs3/run.c\<close> on a little-endian machine: the number of bytes a signed
  number needs (\<^verbatim>\<open>run_packed_size\<close>), storing its low bytes and reading them back. A signed 64-bit number
  is an integer whose bytes are those of its two's complement; memory is a function from addresses to
  bytes. The theory shows that the size is the least one that represents the number and that reading back
  what was stored, with the sign taken from the last byte, gives the number.
\<close>

unbundle bit_operations_syntax

section \<open>Packed integers\<close>

definition byte_of :: "int \<Rightarrow> nat \<Rightarrow> byte" where
  "byte_of n i = word_of_int (n div 256 ^ i)"

definition run_packed_size :: "int \<Rightarrow> nat" where
  "run_packed_size n =
     (if n \<ge> 0 then
        let p = (if byte_of n 7 \<noteq> 0 \<or> byte_of n 6 \<noteq> 0 \<or> byte_of n 5 \<noteq> 0 \<or> byte_of n 4 \<noteq> 0 then 4 else 0);
            p = (if byte_of n (p + 3) \<noteq> 0 \<or> byte_of n (p + 2) \<noteq> 0 then p + 2 else p);
            p = (if byte_of n (p + 1) \<noteq> 0 then p + 1 else p);
            p = (if byte_of n p AND 0x80 \<noteq> 0 then p + 1 else p)
        in 1 + p
      else
        let p = (if byte_of n 7 \<noteq> 0xff \<or> byte_of n 6 \<noteq> 0xff \<or> byte_of n 5 \<noteq> 0xff \<or> byte_of n 4 \<noteq> 0xff then 4 else 0);
            p = (if byte_of n (p + 3) \<noteq> 0xff \<or> byte_of n (p + 2) \<noteq> 0xff then p + 2 else p);
            p = (if byte_of n (p + 1) \<noteq> 0xff then p + 1 else p);
            p = (if byte_of n p AND 0x80 = 0 then p + 1 else p)
        in 1 + p)"

text \<open>The bytes that \<^verbatim>\<open>run_pack_s64\<close> stores: the low bytes of the number, the lowest first.\<close>

definition run_pack_s64 :: "nat \<Rightarrow> int \<Rightarrow> byte list" where
  "run_pack_s64 sz v = (if sz \<le> 8 then map (byte_of v) [0..<sz] else [])"

definition s64_of_bytes :: "byte list \<Rightarrow> int" where
  "s64_of_bytes bs =
     (let u = (\<Sum>i<8. uint (bs ! i) * 256 ^ i) in if u < 2 ^ 63 then u else u - 2 ^ 64)"

text \<open>
  \<open>run_unpack_s64\<close> reads from the memory behind a pointer; the bytes it does not read are those of the
  initial value.
\<close>

definition run_unpack_s64 :: "(nat \<Rightarrow> byte) \<Rightarrow> nat \<Rightarrow> nat \<Rightarrow> int \<Rightarrow> int" where
  "run_unpack_s64 mem p sz v =
     s64_of_bytes (map (\<lambda>i. if i < sz \<and> sz \<le> 8 then mem (p + i) else byte_of v i) [0..<8])"

definition fits_bytes :: "nat \<Rightarrow> int \<Rightarrow> bool" where
  "fits_bytes k n = (- (2 ^ (8 * k - 1)) \<le> n \<and> n < 2 ^ (8 * k - 1))"

lemma uint_byte_of: "uint (byte_of n i) = n div 256 ^ i mod 256"
  by (simp add: byte_of_def uint_word_of_int)

lemma byte_of_zero: "byte_of n i = 0 \<longleftrightarrow> n div 256 ^ i mod 256 = 0"
  using uint_byte_of [of n i] by (simp add: uint_0_iff [symmetric])

lemma and_high_bit: "b AND 0x80 = 0 \<longleftrightarrow> \<not> bit b 7" for b :: byte
  using and_exp_eq_0_iff_not_bit [of b 7] by simp

lemma odd_div_128: "odd (x div 128) \<longleftrightarrow> 128 \<le> x mod 256" for x :: int
proof -
  have "x mod 256 = 128 * (x div 128 mod 2) + x mod 128"
    using zmod_zmult2_eq [of 2 x 128] by simp
  moreover have "0 \<le> x mod 128" "x mod 128 < 128" by simp_all
  ultimately show ?thesis by (cases "even (x div 128)") (simp_all add: even_iff_mod_2_eq_zero odd_iff_mod_2_eq_one)
qed

lemma byte_high_bit: "byte_of n i AND 0x80 \<noteq> 0 \<longleftrightarrow> 128 \<le> n div 256 ^ i mod 256"
proof -
  define x where "x = n div 256 ^ i"
  have "byte_of n i AND 0x80 \<noteq> 0 \<longleftrightarrow> bit x 7"
    by (simp add: and_high_bit byte_of_def x_def bit_simps)
  also have "\<dots> \<longleftrightarrow> odd (x div 128)" using bit_iff_odd [of x 7] by simp
  also have "\<dots> \<longleftrightarrow> 128 \<le> x mod 256" by (rule odd_div_128)
  finally show ?thesis by (simp add: x_def)
qed

lemma byte_of_drop_bit: "byte_of n i = word_of_int (drop_bit (8 * i) n)"
  by (simp add: byte_of_def drop_bit_eq_div power_mult)

lemma byte_of_not: "byte_of (NOT n) i = NOT (byte_of n i)"
  by (rule bit_eqI) (simp add: byte_of_drop_bit bit_simps)

text \<open>The size of a number that is not negative, from its magnitude.\<close>

definition magnitude_size :: "int \<Rightarrow> nat" where
  "magnitude_size m =
     (let p = (if m \<ge> 256 ^ 4 then 4 else 0 :: nat);
          p = (if m \<ge> 256 ^ (p + 2) then p + 2 else p);
          p = (if m \<ge> 256 ^ (p + 1) then p + 1 else p);
          p = (if m \<ge> 128 * 256 ^ p then p + 1 else p)
      in 1 + p)"

lemma le_div_iff_int:
  fixes k m c :: int
  assumes "0 < c"
  shows "k \<le> m div c \<longleftrightarrow> k * c \<le> m"
proof
  assume "k \<le> m div c"
  then have "k * c \<le> m div c * c" using assms by (simp add: mult_right_mono)
  also have "\<dots> \<le> m" using assms div_mult_mod_eq [of m c] pos_mod_sign [OF assms, of m] by linarith
  finally show "k * c \<le> m" .
next
  assume "k * c \<le> m"
  from zdiv_mono1 [OF this assms] assms show "k \<le> m div c" by simp
qed

lemma top_byte:
  assumes "0 \<le> m" and "m < 256 ^ (i + 1)"
  shows "byte_of m i \<noteq> 0 \<longleftrightarrow> 256 ^ i \<le> m" and "byte_of m i AND 0x80 \<noteq> 0 \<longleftrightarrow> 128 * 256 ^ i \<le> m"
proof -
  have ge: "k \<le> m div 256 ^ i \<longleftrightarrow> k * 256 ^ i \<le> m" for k
    by (rule le_div_iff_int) simp
  have q: "0 \<le> m div 256 ^ i" "m div 256 ^ i < 256"
    using assms ge [of 256] by (simp_all add: pos_imp_zdiv_nonneg_iff linorder_not_le [symmetric])
  show "byte_of m i \<noteq> 0 \<longleftrightarrow> 256 ^ i \<le> m"
    using q ge [of 1] by (auto simp: byte_of_zero)
  show "byte_of m i AND 0x80 \<noteq> 0 \<longleftrightarrow> 128 * 256 ^ i \<le> m"
    using q ge [of 128] by (simp add: byte_high_bit)
qed

lemma two_bytes:
  assumes "0 \<le> m" and "m < 256 ^ (i + 2)"
  shows "byte_of m (i + 1) \<noteq> 0 \<or> byte_of m i \<noteq> 0 \<longleftrightarrow> 256 ^ i \<le> m"
proof (cases "m < 256 ^ (i + 1)")
  case True
  then have "m div 256 ^ (i + 1) = 0" using assms(1) by simp
  then have "byte_of m (i + 1) = 0" by (simp add: byte_of_zero)
  then show ?thesis using top_byte(1) [OF assms(1) True] by simp
next
  case False
  then have "256 ^ (i + 1) \<le> m" by simp
  then have "byte_of m (i + 1) \<noteq> 0" using top_byte(1) [of m "i + 1"] assms by simp
  moreover have "(256 ^ i :: int) \<le> 256 ^ (i + 1)" by simp
  ultimately show ?thesis using \<open>256 ^ (i + 1) \<le> m\<close> by linarith
qed

lemma four_bytes:
  assumes "0 \<le> m" and "m < 256 ^ 8"
  shows "byte_of m 7 \<noteq> 0 \<or> byte_of m 6 \<noteq> 0 \<or> byte_of m 5 \<noteq> 0 \<or> byte_of m 4 \<noteq> 0 \<longleftrightarrow> 256 ^ 4 \<le> m"
proof (cases "m < 256 ^ 6")
  case True
  then have "byte_of m 7 = 0" "byte_of m 6 = 0" using assms(1) by (simp_all add: byte_of_zero)
  then show ?thesis using two_bytes [of m 4] assms(1) True by simp
next
  case False
  then show ?thesis using two_bytes [of m 6] assms by auto
qed

lemma magnitude_size_nonneg:
  assumes "0 \<le> m" and "m < 2 ^ 63"
  shows "run_packed_size m = magnitude_size m"
proof -
  define p1 where "p1 = (if m \<ge> 256 ^ 4 then 4 else 0 :: nat)"
  define p2 where "p2 = (if m \<ge> 256 ^ (p1 + 2) then p1 + 2 else p1)"
  define p3 where "p3 = (if m \<ge> 256 ^ (p2 + 1) then p2 + 1 else p2)"
  have b1: "m < 256 ^ (p1 + 2 + 2)" using assms by (simp add: p1_def)
  then have b2: "m < 256 ^ (p2 + 1 + 1)" by (simp add: p2_def)
  then have b3: "m < 256 ^ (p3 + 1)" by (simp add: p3_def)
  have e1: "(if byte_of m 7 \<noteq> 0 \<or> byte_of m 6 \<noteq> 0 \<or> byte_of m 5 \<noteq> 0 \<or> byte_of m 4 \<noteq> 0 then 4 else 0) = p1"
    using four_bytes assms unfolding p1_def by simp
  have e2: "(if byte_of m (p1 + 3) \<noteq> 0 \<or> byte_of m (p1 + 2) \<noteq> 0 then p1 + 2 else p1) = p2"
    using two_bytes [OF assms(1) b1] by (simp add: p2_def numeral_3_eq_3)
  have e3: "(if byte_of m (p2 + 1) \<noteq> 0 then p2 + 1 else p2) = p3"
    using top_byte(1) [OF assms(1) b2] by (simp add: p3_def)
  have "run_packed_size m = 1 + (if byte_of m p3 AND 0x80 \<noteq> 0 then p3 + 1 else p3)"
    using assms(1) by (simp only: run_packed_size_def Let_def e1 e2 e3 if_True)
  moreover have "magnitude_size m = 1 + (if m \<ge> 128 * 256 ^ p3 then p3 + 1 else p3)"
    by (simp only: magnitude_size_def Let_def p1_def p2_def p3_def)
  ultimately show ?thesis using top_byte(2) [OF assms(1) b3] by simp
qed

lemma magnitude_size_neg:
  assumes "n < 0" and "- (2 ^ 63) \<le> n"
  shows "run_packed_size n = magnitude_size (NOT n)"
proof -
  have "run_packed_size n = run_packed_size (NOT n)"
  proof -
    have ff: "b \<noteq> 0xff \<longleftrightarrow> NOT b \<noteq> 0" "b AND 0x80 = 0 \<longleftrightarrow> NOT b AND 0x80 \<noteq> 0" for b :: byte
    proof -
      have "b = 0xff" if "NOT b = 0"
      proof -
        have "b = NOT (NOT b)" by simp
        also have "\<dots> = NOT 0" using that by (simp only:)
        finally show ?thesis by simp
      qed
      then show "b \<noteq> 0xff \<longleftrightarrow> NOT b \<noteq> 0" by auto
      show "b AND 0x80 = 0 \<longleftrightarrow> NOT b AND 0x80 \<noteq> 0" by (simp add: and_high_bit bit_simps)
    qed
    have neg: "byte_of n i \<noteq> 0xff \<longleftrightarrow> byte_of (NOT n) i \<noteq> 0"
      "byte_of n i AND 0x80 = 0 \<longleftrightarrow> byte_of (NOT n) i AND 0x80 \<noteq> 0" for i
      using ff [of "byte_of n i"] by (simp_all only: byte_of_not)
    have "\<not> 0 \<le> n" "0 \<le> NOT n" using assms(1) by simp_all
    then show ?thesis by (simp only: run_packed_size_def if_True if_False neg)
  qed
  then show ?thesis using magnitude_size_nonneg [of "NOT n"] assms by (simp add: not_int_def)
qed

lemma magnitude_size_least:
  assumes "0 \<le> m" and "m < 2 ^ 63"
  shows "1 \<le> magnitude_size m" and "magnitude_size m \<le> 8" and "m < 128 * 256 ^ (magnitude_size m - 1)"
    and "magnitude_size m = 1 \<or> 128 * 256 ^ (magnitude_size m - 2) \<le> m"
  using assms by (simp_all add: magnitude_size_def Let_def)

lemma fits_bytes_magnitude:
  assumes "1 \<le> k"
  shows "fits_bytes k n \<longleftrightarrow> (if n < 0 then NOT n else n) < 128 * 256 ^ (k - 1)"
proof -
  obtain j where "k = Suc j" using assms by (cases k) auto
  then have "(2 :: int) ^ (8 * k - 1) = 128 * 256 ^ (k - 1)"
    using power_add [of "2 :: int" 7 "8 * j"] by (simp add: power_mult)
  then show ?thesis by (auto simp: fits_bytes_def not_int_def)
qed

lemma run_packed_size_magnitude:
  assumes "- (2 ^ 63) \<le> n" and "n < 2 ^ 63"
  shows "run_packed_size n = magnitude_size (if n < 0 then NOT n else n)"
  using magnitude_size_nonneg [of n] magnitude_size_neg [of n] assms by auto

lemma run_packed_size_ok:
  assumes "- (2 ^ 63) \<le> n" and "n < 2 ^ 63"
  shows "1 \<le> run_packed_size n" and "run_packed_size n \<le> 8" and "fits_bytes (run_packed_size n) n"
    and "\<And>k. 1 \<le> k \<Longrightarrow> fits_bytes k n \<Longrightarrow> run_packed_size n \<le> k"
proof -
  define m where "m = (if n < 0 then NOT n else n)"
  have m: "0 \<le> m" "m < 2 ^ 63" using assms by (auto simp: m_def not_int_def)
  have s: "run_packed_size n = magnitude_size m" using run_packed_size_magnitude [OF assms] by (simp add: m_def)
  note l = magnitude_size_least [OF m, folded s]
  show "1 \<le> run_packed_size n" "run_packed_size n \<le> 8" using l by simp_all
  show "fits_bytes (run_packed_size n) n" using l fits_bytes_magnitude [of "run_packed_size n" n] by (simp add: m_def)
  show "run_packed_size n \<le> k" if "1 \<le> k" "fits_bytes k n" for k
  proof (rule ccontr)
    assume "\<not> run_packed_size n \<le> k"
    then have "k - 1 \<le> run_packed_size n - 2" "run_packed_size n \<noteq> 1" using that(1) by auto
    then have "(128 * 256 ^ (k - 1) :: int) \<le> 128 * 256 ^ (run_packed_size n - 2)" by simp
    moreover have "m < 128 * 256 ^ (k - 1)" using that fits_bytes_magnitude [OF that(1), of n] by (simp add: m_def)
    ultimately show False using l(4) \<open>run_packed_size n \<noteq> 1\<close> by linarith
  qed
qed

lemma byte_sum: "(\<Sum>i<k. uint (byte_of n i) * 256 ^ i) = n mod 256 ^ k"
proof (induction k)
  case (Suc k)
  have "n mod 256 ^ Suc k = 256 ^ k * (n div 256 ^ k mod 256) + n mod 256 ^ k"
    using zmod_zmult2_eq [of 256 n "256 ^ k"] by (simp add: mult.commute)
  then show ?case using Suc by (simp add: uint_byte_of)
qed simp

lemma s64_of_bytes_byte_of:
  assumes "- (2 ^ 63) \<le> n" and "n < 2 ^ 63"
  shows "s64_of_bytes (map (byte_of n) [0..<8]) = n"
proof -
  have "(\<Sum>i<8. uint (map (byte_of n) [0..<8] ! i) * 256 ^ i) = (\<Sum>i<8. uint (byte_of n i) * 256 ^ i)"
    by (rule sum.cong) simp_all
  also have "\<dots> = n mod 2 ^ 64" using byte_sum [of n 8] by simp
  also have "\<dots> = (if n < 0 then n + 2 ^ 64 else n)"
    using assms mod_pos_pos_trivial [of "n + 2 ^ 64" "2 ^ 64"] by auto
  finally show ?thesis using assms by (simp add: s64_of_bytes_def Let_def del: upt_Suc map_upt_Suc)
qed

lemma sign_extension:
  assumes "1 \<le> k" and "fits_bytes k n"
  shows "k \<le> i \<Longrightarrow> byte_of (if n < 0 then -1 else 0) i = byte_of n i"
    and "byte_of n (k - 1) AND 0x80 \<noteq> 0 \<longleftrightarrow> n < 0"
proof -
  have b: "- (128 * 256 ^ (k - 1)) \<le> n" "n < 128 * 256 ^ (k - 1)"
    using assms fits_bytes_magnitude [OF assms(1), of n] by (auto simp: not_int_def split: if_splits)
  have p: "(0 :: int) < 256 ^ j" for j by simp
  have q: "- 128 \<le> n div 256 ^ (k - 1)" "n div 256 ^ (k - 1) < 128"
    using le_div_iff_int [OF p, of "- 128" n "k - 1"] le_div_iff_int [OF p, of 128 n "k - 1"] b by auto
  have sgn: "0 \<le> n div 256 ^ (k - 1) \<longleftrightarrow> 0 \<le> n" by (simp add: pos_imp_zdiv_nonneg_iff)
  show "byte_of n (k - 1) AND 0x80 \<noteq> 0 \<longleftrightarrow> n < 0"
  proof (cases "n < 0")
    case True
    then have "n div 256 ^ (k - 1) mod 256 = n div 256 ^ (k - 1) + 256"
      using q sgn mod_pos_pos_trivial [of "n div 256 ^ (k - 1) + 256" 256] by simp
    then show ?thesis using True q by (simp add: byte_high_bit)
  next
    case False
    then show ?thesis using q sgn by (simp add: byte_high_bit)
  qed
  show "byte_of (if n < 0 then -1 else 0) i = byte_of n i" if "k \<le> i"
  proof -
    have "(128 * 256 ^ (k - 1) :: int) \<le> 256 ^ i"
    proof -
      have "(128 * 256 ^ (k - 1) :: int) \<le> 256 ^ Suc (k - 1)" by simp
      also have "\<dots> \<le> 256 ^ i" using that assms(1) by (intro power_increasing) simp_all
      finally show ?thesis .
    qed
    then have "- (256 ^ i) \<le> n" "n < 256 ^ i" using b by linarith+
    then have "n div 256 ^ i = (if n < 0 then -1 else 0)"
      using le_div_iff_int [OF p, of "- 1" n i] le_div_iff_int [OF p, of 0 n i] by (auto simp: div_pos_pos_trivial)
    moreover have "(-1 :: int) div 256 ^ i = -1" using p [of i] by (intro div_eq_minus1)
    ultimately show ?thesis by (simp add: byte_of_def)
  qed
qed

lemma run_unpack_pack_s64:
  assumes "1 \<le> k" and "k \<le> 8" and "fits_bytes k n" and "\<And>i. i < k \<Longrightarrow> mem (p + i) = byte_of n i"
  shows "run_unpack_s64 mem p k (if n < 0 then -1 else 0) = n"
proof -
  have "map (\<lambda>i. if i < k \<and> k \<le> 8 then mem (p + i) else byte_of (if n < 0 then -1 else 0) i) [0..<8]
      = map (byte_of n) [0..<8]"
    using assms(2,4) sign_extension(1) [OF assms(1,3)] by (intro map_cong) auto
  moreover have "(2 :: int) ^ (8 * k - 1) \<le> 2 ^ 63" using assms(2) by (intro power_increasing) auto
  then have "- (2 ^ 63) \<le> n" "n < 2 ^ 63" using assms(3) by (auto simp: fits_bytes_def)
  ultimately show ?thesis by (simp only: run_unpack_s64_def s64_of_bytes_byte_of)
qed

end
