(* ===== verification/Ntfs_Run.thy ===== *)
theory Ntfs_Run
  imports C_Prelude
begin

text \<open>
  The run lists of \<^verbatim>\<open>fs/ntfs3/run.c\<close>: the mapping from virtual to logical clusters of a file, kept
  as a sorted array of runs. A cluster number \<^verbatim>\<open>CLST\<close> is a 32-bit number in the configuration of the
  overlay (\<^verbatim>\<open>CONFIG_NTFS3_64BIT_CLUSTER\<close> is not defined); \<^verbatim>\<open>SPARSE_LCN\<close> is \<^verbatim>\<open>(CLST)-1\<close>.

  The model keeps the used part of the array as a list, so \<^verbatim>\<open>count\<close> is its length, and
  \<^verbatim>\<open>allocated\<close> as it is; \<^verbatim>\<open>runs == NULL\<close> is \<^verbatim>\<open>allocated == 0\<close>. The memory allocator
  and \<^verbatim>\<open>blksize_bits\<close> of the kernel are the members of the record \<open>kernel\<close>; whether an allocation
  succeeds may depend on a heap state of any type.

  The theory shows that the list is a correct representation of a partial function
  (\<open>run_map\<close>): the lookups compute it, and truncating a range has the effect of the corresponding
  operation on functions and keeps the list sorted and free of overlaps.
\<close>

unbundle bit_operations_syntax

section \<open>Data\<close>

abbreviation (input) SPARSE_LCN :: nat where "SPARSE_LCN \<equiv> 4294967295"
abbreviation (input) NTFS3_RUN_MAX_BYTES :: nat where "NTFS3_RUN_MAX_BYTES \<equiv> 65536"
abbreviation (input) PAGE_SIZE :: nat where "PAGE_SIZE \<equiv> 4096"
abbreviation (input) sizeof_ntfs_run :: nat where "sizeof_ntfs_run \<equiv> 12"

record ntfs_run =
  r_vcn :: nat
  r_len :: nat
  r_lcn :: nat

record runs_tree =
  runs :: "ntfs_run list"
  allocated :: nat

record 'h kernel =
  kvmalloc :: "'h \<Rightarrow> nat \<Rightarrow> bool \<times> 'h"
  blksize_bits :: "nat \<Rightarrow> nat"

definition run_init :: runs_tree where
  "run_init = \<lparr>runs = [], allocated = 0\<rparr>"

text \<open>\<^verbatim>\<open>r->vcn + r->len\<close>\<close>

definition run_end :: "ntfs_run \<Rightarrow> nat" where
  "run_end r = u32 (r_vcn r + r_len r)"

section \<open>Lookup\<close>

text \<open>The \<^verbatim>\<open>do \<dots> while (min_idx <= max_idx)\<close> loop and the result behind it.\<close>

function lookup_loop :: "ntfs_run list \<Rightarrow> nat \<Rightarrow> nat \<Rightarrow> nat \<Rightarrow> bool \<times> nat" where
  "lookup_loop rs vcn min_idx max_idx =
     (let mid_idx = min_idx + (max_idx - min_idx) div 2; r = rs ! mid_idx in
      if vcn < r_vcn r then
        if mid_idx = 0 then (False, 0)
        else if min_idx \<le> mid_idx - 1 then lookup_loop rs vcn min_idx (mid_idx - 1)
        else (False, mid_idx)
      else if vcn \<ge> run_end r then
        if mid_idx + 1 \<le> max_idx then lookup_loop rs vcn (mid_idx + 1) max_idx
        else (False, max_idx + 1)
      else (True, mid_idx))"
  by pat_completeness auto
termination
  by (relation "measure (\<lambda>(rs, vcn, min_idx, max_idx). max_idx + 1 - min_idx)") (simp_all, presburger+)

declare lookup_loop.simps [simp del]

definition run_lookup :: "ntfs_run list \<Rightarrow> nat \<Rightarrow> bool \<times> nat" where
  "run_lookup rs vcn =
     (if rs = [] then (False, 0)
      else
        let max_idx = length rs - 1; r = rs ! 0 in
        if vcn < r_vcn r then (False, 0)
        else if vcn < run_end r then (True, 0)
        else
          let r = rs ! max_idx in
          if vcn \<ge> run_end r then (False, length rs)
          else if vcn \<ge> r_vcn r then (True, max_idx)
          else lookup_loop rs vcn 0 max_idx)"

section \<open>The function a run list stands for\<close>

definition covers :: "ntfs_run \<Rightarrow> nat \<Rightarrow> bool" where
  "covers r v = (r_vcn r \<le> v \<and> v < r_vcn r + r_len r)"

definition image_lcn :: "ntfs_run \<Rightarrow> nat \<Rightarrow> nat" where
  "image_lcn r v = (if r_lcn r = SPARSE_LCN then SPARSE_LCN else r_lcn r + (v - r_vcn r))"

fun run_map :: "ntfs_run list \<Rightarrow> nat \<Rightarrow> nat option" where
  "run_map [] v = None"
| "run_map (r # rs) v = (if covers r v then Some (image_lcn r v) else run_map rs v)"

definition override :: "(nat \<Rightarrow> nat option) \<Rightarrow> ntfs_run \<Rightarrow> nat \<Rightarrow> nat option" where
  "override m r v = (if covers r v then Some (image_lcn r v) else m v)"

definition run_ok :: "ntfs_run \<Rightarrow> bool" where
  "run_ok r = (0 < r_len r \<and> r_vcn r + r_len r < 2 ^ 32
     \<and> (r_lcn r = SPARSE_LCN \<or> r_lcn r + r_len r < 2 ^ 32))"

definition before :: "ntfs_run \<Rightarrow> ntfs_run \<Rightarrow> bool" where
  "before a b = (r_vcn a + r_len a \<le> r_vcn b)"

definition runs_wf :: "ntfs_run list \<Rightarrow> bool" where
  "runs_wf rs = ((\<forall>r\<in>set rs. run_ok r) \<and> sorted_wrt before rs)"

lemma run_ok_end [simp]: "run_ok r \<Longrightarrow> run_end r = r_vcn r + r_len r"
  by (simp add: run_ok_def run_end_def u32_id)

lemma runs_wf_Nil [simp]: "runs_wf []"
  by (simp add: runs_wf_def)

lemma runs_wf_Cons [simp]: "runs_wf (r # rs) \<longleftrightarrow> run_ok r \<and> (\<forall>s\<in>set rs. before r s) \<and> runs_wf rs"
  by (auto simp: runs_wf_def)

lemma runs_wf_append [simp]:
  "runs_wf (xs @ ys) \<longleftrightarrow> runs_wf xs \<and> runs_wf ys \<and> (\<forall>x\<in>set xs. \<forall>y\<in>set ys. before x y)"
  by (auto simp: runs_wf_def sorted_wrt_append)

lemma runs_wf_nth: "runs_wf rs \<Longrightarrow> i < length rs \<Longrightarrow> run_ok (rs ! i)"
  by (simp add: runs_wf_def)

lemma runs_wf_nth_before: "runs_wf rs \<Longrightarrow> i < j \<Longrightarrow> j < length rs \<Longrightarrow> before (rs ! i) (rs ! j)"
  by (simp add: runs_wf_def sorted_wrt_nth_less)

text \<open>The position of a cluster in a run list: the first run that ends behind it.\<close>

definition run_pos :: "ntfs_run list \<Rightarrow> nat \<Rightarrow> nat" where
  "run_pos rs v = length (takeWhile (\<lambda>r. r_vcn r + r_len r \<le> v) rs)"

lemma run_posI:
  assumes "runs_wf rs" and "i \<le> length rs"
    and "\<And>j. j < i \<Longrightarrow> r_vcn (rs ! j) + r_len (rs ! j) \<le> v"
    and "i < length rs \<Longrightarrow> v < r_vcn (rs ! i) + r_len (rs ! i)"
  shows "run_pos rs v = i"
proof -
  have "takeWhile (\<lambda>r. r_vcn r + r_len r \<le> v) rs = take i rs"
    using assms(2-4) by (intro takeWhile_eq_take_P_nth) auto
  then show ?thesis using assms(2) by (simp add: run_pos_def)
qed

lemma ends_mono:
  assumes "runs_wf rs" and "i \<le> j" and "j < length rs"
  shows "r_vcn (rs ! i) + r_len (rs ! i) \<le> r_vcn (rs ! j) + r_len (rs ! j)"
  using assms runs_wf_nth_before [of rs i j] by (cases "i = j") (auto simp: before_def)

lemma lookup_loop_pos:
  assumes "runs_wf rs" and "min_idx \<le> max_idx" and "max_idx < length rs"
    and "\<And>j. j < min_idx \<Longrightarrow> r_vcn (rs ! j) + r_len (rs ! j) \<le> v"
    and "\<And>j. max_idx < j \<Longrightarrow> j < length rs \<Longrightarrow> v < r_vcn (rs ! j)"
  shows "lookup_loop rs v min_idx max_idx =
    (run_pos rs v < length rs \<and> r_vcn (rs ! run_pos rs v) \<le> v, run_pos rs v)"
  using assms
proof (induction rs v min_idx max_idx rule: lookup_loop.induct)
  case (1 rs v lo hi)
  define mid where "mid = lo + (hi - lo) div 2"
  have mid: "lo \<le> mid" "mid \<le> hi" "mid < length rs" using "1.prems"(2,3) by (auto simp: mid_def)
  have ok: "run_end (rs ! mid) = r_vcn (rs ! mid) + r_len (rs ! mid)"
    using runs_wf_nth [OF "1.prems"(1) mid(3)] by simp
  have above: "v < r_vcn (rs ! j) + r_len (rs ! j)" if "mid \<le> j" "j < length rs" "v < r_vcn (rs ! mid)" for j
    using ends_mono [OF "1.prems"(1) that(1,2)] that(3) by simp
  have start: "v < r_vcn (rs ! j)" if "mid < j" "j < length rs" "v < r_vcn (rs ! mid)" for j
    using runs_wf_nth_before [OF "1.prems"(1) that(1,2)] that(3) by (simp add: before_def)
  have below: "r_vcn (rs ! j) + r_len (rs ! j) \<le> v" if "j \<le> mid" "r_vcn (rs ! mid) + r_len (rs ! mid) \<le> v" for j
    using ends_mono [OF "1.prems"(1) that(1) mid(3)] that(2) by simp
  note unfold = lookup_loop.simps [of rs v lo hi, folded mid_def]
  consider (left) "v < r_vcn (rs ! mid)" | (right) "r_vcn (rs ! mid) + r_len (rs ! mid) \<le> v"
    | (hit) "r_vcn (rs ! mid) \<le> v" "v < r_vcn (rs ! mid) + r_len (rs ! mid)" by linarith
  then show ?case
  proof cases
    case left
    show ?thesis
    proof (cases "mid \<noteq> 0 \<and> lo \<le> mid - 1")
      case True
      have "v < r_vcn (rs ! j)" if "mid - 1 < j" "j < length rs" for j
        using that left start [of j] by (cases "j = mid") auto
      then show ?thesis
        using "1.IH"(1) [OF mid_def refl left] "1.prems" True left mid by (simp add: unfold Let_def)
    next
      case False
      then have "mid = lo" using mid by auto
      then have "run_pos rs v = mid" using "1.prems"(1,4) mid above left by (intro run_posI) auto
      then show ?thesis using False left \<open>mid = lo\<close> by (auto simp: unfold Let_def)
    qed
  next
    case right
    then have "\<not> v < r_vcn (rs ! mid)" by simp
    show ?thesis
    proof (cases "mid + 1 \<le> hi")
      case True
      have "lookup_loop rs v lo hi = lookup_loop rs v (mid + 1) hi"
        using True right ok \<open>\<not> v < r_vcn (rs ! mid)\<close> by (simp add: unfold Let_def)
      also have "\<dots> = (run_pos rs v < length rs \<and> r_vcn (rs ! run_pos rs v) \<le> v, run_pos rs v)"
      proof (rule "1.IH"(2) [OF mid_def refl \<open>\<not> v < r_vcn (rs ! mid)\<close> _ True "1.prems"(1) True "1.prems"(3)])
        show "run_end (rs ! mid) \<le> v" using right ok by simp
        show "r_vcn (rs ! j) + r_len (rs ! j) \<le> v" if "j < mid + 1" for j
          using that below [OF _ right] by simp
      qed (rule "1.prems"(5))
      finally show ?thesis .
    next
      case False
      then have "mid = hi" using mid by auto
      have "run_pos rs v = Suc hi"
      proof (rule run_posI [OF "1.prems"(1)])
        show "r_vcn (rs ! j) + r_len (rs ! j) \<le> v" if "j < Suc hi" for j
          using that below [OF _ right] \<open>mid = hi\<close> by simp
        show "v < r_vcn (rs ! Suc hi) + r_len (rs ! Suc hi)" if "Suc hi < length rs"
          using "1.prems"(5) [OF lessI that] by simp
      qed (use "1.prems"(3) in simp)
      moreover have "\<not> (Suc hi < length rs \<and> r_vcn (rs ! Suc hi) \<le> v)"
        using "1.prems"(5) [of "Suc hi"] by auto
      ultimately show ?thesis
        using False right ok \<open>\<not> v < r_vcn (rs ! mid)\<close> by (simp add: unfold Let_def \<open>mid = hi\<close>)
    qed
  next
    case hit
    have "run_pos rs v = mid"
    proof (rule run_posI [OF "1.prems"(1)])
      show "r_vcn (rs ! j) + r_len (rs ! j) \<le> v" if "j < mid" for j
        using runs_wf_nth_before [OF "1.prems"(1) that mid(3)] hit(1) by (simp add: before_def)
    qed (use mid hit in auto)
    then show ?thesis using hit ok mid by (simp add: unfold Let_def)
  qed
qed

lemma run_lookup_pos:
  assumes "runs_wf rs"
  shows "run_lookup rs v = (run_pos rs v < length rs \<and> r_vcn (rs ! run_pos rs v) \<le> v, run_pos rs v)"
proof (cases "rs = []")
  case True
  then show ?thesis by (simp add: run_lookup_def run_pos_def)
next
  case False
  define m where "m = length rs - 1"
  have m: "m < length rs" "0 < length rs" using False by (simp_all add: m_def)
  have e0: "run_end (rs ! 0) = r_vcn (rs ! 0) + r_len (rs ! 0)"
    and em: "run_end (rs ! m) = r_vcn (rs ! m) + r_len (rs ! m)"
    using runs_wf_nth [OF assms] m by simp_all
  have all: "r_vcn (rs ! j) + r_len (rs ! j) \<le> r_vcn (rs ! m) + r_len (rs ! m)" if "j < length rs" for j
    using ends_mono [OF assms, of j m] that m by (simp add: m_def)
  consider (first) "v < r_vcn (rs ! 0) + r_len (rs ! 0)"
    | (behind) "r_vcn (rs ! 0) + r_len (rs ! 0) \<le> v" "r_vcn (rs ! m) + r_len (rs ! m) \<le> v"
    | (last) "r_vcn (rs ! 0) + r_len (rs ! 0) \<le> v" "v < r_vcn (rs ! m) + r_len (rs ! m)" "r_vcn (rs ! m) \<le> v"
    | (inner) "r_vcn (rs ! 0) + r_len (rs ! 0) \<le> v" "v < r_vcn (rs ! m) + r_len (rs ! m)" "v < r_vcn (rs ! m)"
    by linarith
  then show ?thesis
  proof cases
    case first
    then have "run_pos rs v = 0" using assms by (intro run_posI) auto
    with first False e0 show ?thesis by (auto simp: run_lookup_def Let_def)
  next
    case behind
    then have "run_pos rs v = length rs" using assms all by (intro run_posI) (auto intro: order_trans)
    with behind False e0 em show ?thesis by (auto simp: run_lookup_def Let_def m_def)
  next
    case last
    have "run_pos rs v = m"
    proof (rule run_posI [OF assms])
      show "r_vcn (rs ! j) + r_len (rs ! j) \<le> v" if "j < m" for j
        using runs_wf_nth_before [OF assms that m(1)] last(3) by (simp add: before_def)
    qed (use last m in auto)
    with last False e0 em m show ?thesis by (auto simp: run_lookup_def Let_def m_def)
  next
    case inner
    have "lookup_loop rs v 0 m = (run_pos rs v < length rs \<and> r_vcn (rs ! run_pos rs v) \<le> v, run_pos rs v)"
      by (rule lookup_loop_pos [OF assms]) (use m in \<open>auto simp: m_def\<close>)
    with inner False e0 em show ?thesis by (auto simp: run_lookup_def Let_def m_def)
  qed
qed

lemma run_map_append: "run_map (xs @ ys) v = (case run_map xs v of None \<Rightarrow> run_map ys v | Some l \<Rightarrow> Some l)"
  by (induction xs) auto

lemma run_map_mid:
  assumes "\<forall>x\<in>set xs. before x r"
  shows "run_map (xs @ r # zs) = override (run_map (xs @ zs)) r"
proof -
  have "run_map xs v = None" if "covers r v" for v
    using assms that by (induction xs) (auto simp: before_def covers_def)
  then show ?thesis by (auto simp: fun_eq_iff override_def run_map_append split: option.split)
qed

lemma run_lookup_cases:
  assumes "runs_wf rs"
  obtains (hit) xs r zs where "rs = xs @ r # zs" "run_lookup rs v = (True, length xs)" "r_vcn r \<le> v"
      "v < r_vcn r + r_len r"
  | (miss) xs ys where "rs = xs @ ys" "run_lookup rs v = (False, length xs)"
      "\<forall>x\<in>set xs. r_vcn x + r_len x \<le> v" "\<forall>y\<in>set ys. v < r_vcn y"
proof -
  define p where "p = run_pos rs v"
  define xs where "xs = takeWhile (\<lambda>r. r_vcn r + r_len r \<le> v) rs"
  define ys where "ys = dropWhile (\<lambda>r. r_vcn r + r_len r \<le> v) rs"
  have rs: "rs = xs @ ys" by (simp add: xs_def ys_def)
  have p: "run_pos rs v = length xs" by (simp add: run_pos_def xs_def)
  have look: "run_lookup rs v = (length xs < length rs \<and> r_vcn (rs ! length xs) \<le> v, length xs)"
    using run_lookup_pos [OF assms, of v] p by simp
  have all: "\<forall>x\<in>set xs. r_vcn x + r_len x \<le> v" by (auto simp: xs_def dest: set_takeWhileD)
  show ?thesis
  proof (cases ys)
    case Nil
    then show ?thesis using miss [of xs "[]"] rs look all by simp
  next
    case (Cons r zs)
    have "v < r_vcn r + r_len r" using Cons hd_dropWhile [of "\<lambda>r. r_vcn r + r_len r \<le> v" rs] by (simp add: ys_def)
    moreover have "r_vcn r \<le> r_vcn z" if "z \<in> set zs" for z
      using assms rs Cons that by (auto simp: before_def)
    ultimately show ?thesis
      using hit [of xs r zs] miss [of xs ys] rs look all Cons by (cases "r_vcn r \<le> v") fastforce+
  qed
qed

lemma run_lookup_bounds:
  assumes "runs_wf rs" and "run_lookup rs v = (found, i)"
  shows "i \<le> length rs" and "found \<Longrightarrow> Suc i \<le> length rs"
  using assms(2) by (cases rule: run_lookup_cases [OF assms(1), of v]; simp)+

text \<open>The array of the list has room for its runs.\<close>

definition runs_fit :: "runs_tree \<Rightarrow> bool" where
  "runs_fit run = (length (runs run) * sizeof_ntfs_run \<le> allocated run)"

section \<open>Queries\<close>

definition run_get_entry :: "ntfs_run list \<Rightarrow> nat \<Rightarrow> (nat \<times> nat \<times> nat) option" where
  "run_get_entry rs index =
     (if index \<ge> length rs then None
      else let r = rs ! index in
        if r_len r = 0 then None else Some (r_vcn r, r_lcn r, r_len r))"

definition run_lookup_entry :: "runs_tree \<Rightarrow> nat \<Rightarrow> (nat \<times> nat \<times> nat) option" where
  "run_lookup_entry run vcn =
     (if allocated run = 0 then None
      else
        let (found, idx) = run_lookup (runs run) vcn in
        if \<not> found then None
        else
          let r = runs run ! idx in
          if vcn \<ge> run_end r then None
          else
            let gap = sub32 vcn (r_vcn r) in
            if r_len r \<le> gap then None
            else Some (if r_lcn r = SPARSE_LCN then SPARSE_LCN else u32 (r_lcn r + gap), r_len r - gap, idx))"

fun mapped_from :: "ntfs_run \<Rightarrow> ntfs_run list \<Rightarrow> nat \<Rightarrow> bool" where
  "mapped_from r [] evcn = (run_end r > evcn)"
| "mapped_from r (n # ns) evcn =
     (if run_end r > evcn then True
      else if r_vcn n \<noteq> run_end r then False
      else mapped_from n ns evcn)"

definition run_is_mapped_full :: "ntfs_run list \<Rightarrow> nat \<Rightarrow> nat \<Rightarrow> bool" where
  "run_is_mapped_full rs svcn evcn =
     (let (found, i) = run_lookup rs svcn in
      found \<and> mapped_from (rs ! i) (drop (i + 1) rs) evcn)"

lemma run_map_None:
  assumes "\<forall>r\<in>set rs. \<not> covers r v"
  shows "run_map rs v = None"
  using assms by (induction rs) auto

lemma run_map_behind: "\<forall>x\<in>set xs. r_vcn x + r_len x \<le> v \<Longrightarrow> run_map xs v = None"
  by (rule run_map_None) (fastforce simp: covers_def)

lemma run_map_ahead: "\<forall>x\<in>set xs. v < r_vcn x \<Longrightarrow> run_map xs v = None"
  by (rule run_map_None) (fastforce simp: covers_def)

lemma mapped_from_ok:
  assumes "runs_wf (r # ns)" and "r_vcn r \<le> s" and "s < r_vcn r + r_len r"
  shows "mapped_from r ns e \<longleftrightarrow> (\<forall>v. s \<le> v \<and> v \<le> e \<longrightarrow> run_map (r # ns) v \<noteq> None)"
  using assms
proof (induction ns arbitrary: r s)
  case Nil
  then show ?case by (auto simp: covers_def)
next
  case (Cons n ns)
  have ok: "run_end r = r_vcn r + r_len r" and wf: "runs_wf (n # ns)" "before r n" using Cons.prems(1) by auto
  consider (whole) "e < r_vcn r + r_len r" | (gap) "r_vcn r + r_len r \<le> e" "r_vcn n \<noteq> r_vcn r + r_len r"
    | (follow) "r_vcn r + r_len r \<le> e" "r_vcn n = r_vcn r + r_len r" by linarith
  then show ?case
  proof cases
    case whole
    then show ?thesis using ok Cons.prems(2) by (auto simp: covers_def)
  next
    case gap
    then have "\<forall>m\<in>set (n # ns). r_vcn r + r_len r < r_vcn m"
      using wf by (force simp: before_def)
    then have "run_map (r # n # ns) (r_vcn r + r_len r) = None"
      by (simp add: run_map_ahead covers_def del: run_map.simps(2)) (simp add: run_map_ahead covers_def)
    moreover have "s \<le> r_vcn r + r_len r" using Cons.prems(3) by simp
    ultimately show ?thesis using gap ok by (auto simp del: run_map.simps)
  next
    case follow
    have pos: "r_vcn n < r_vcn n + r_len n" using wf(1) by (simp add: run_ok_def)
    have "run_map (r # n # ns) v = (if v < r_vcn n then Some (image_lcn r v) else run_map (n # ns) v)" if "s \<le> v" for v
      using that follow(2) Cons.prems(2) by (auto simp: covers_def)
    then have "(\<forall>v. s \<le> v \<and> v \<le> e \<longrightarrow> run_map (r # n # ns) v \<noteq> None) \<longleftrightarrow>
        (\<forall>v. r_vcn n \<le> v \<and> v \<le> e \<longrightarrow> run_map (n # ns) v \<noteq> None)"
      using follow(2) Cons.prems(3) by (auto simp del: run_map.simps)
    then show ?thesis using follow ok Cons.IH [OF wf(1) order_refl pos] by (simp del: run_map.simps)
  qed
qed

lemma run_is_mapped_full_iff:
  assumes "runs_wf rs" and "svcn \<le> evcn"
  shows "run_is_mapped_full rs svcn evcn \<longleftrightarrow> (\<forall>v. svcn \<le> v \<and> v \<le> evcn \<longrightarrow> run_map rs v \<noteq> None)"
  using assms(1)
proof (cases rule: run_lookup_cases [where v = svcn])
  case (hit xs r zs)
  have wf: "runs_wf (r # zs)" "\<forall>x\<in>set xs. before x r" using assms(1) hit(1) by auto
  have "run_map rs v = run_map (r # zs) v" if "svcn \<le> v" for v
  proof -
    have "run_map xs v = None" using wf(2) hit(3) that by (intro run_map_behind) (fastforce simp: before_def)
    then show ?thesis using hit(1) by (simp add: run_map_append)
  qed
  moreover have "run_is_mapped_full rs svcn evcn = mapped_from r zs evcn"
    using hit(1,2) by (simp add: run_is_mapped_full_def)
  ultimately show ?thesis using mapped_from_ok [OF wf(1) hit(3,4)] by (simp del: run_map.simps)
next
  case (miss xs ys)
  have "run_map rs svcn = None" using miss by (simp add: run_map_append run_map_behind run_map_ahead)
  then show ?thesis using miss(2) assms(2) by (auto simp: run_is_mapped_full_def)
qed

lemma run_lookup_entry_spec:
  assumes "runs_wf (runs run)" and "runs_fit run"
  shows "(case run_lookup_entry run v of
      None \<Rightarrow> run_map (runs run) v = None
    | Some (lcn, len, i) \<Rightarrow> 0 < len \<and> i < length (runs run) \<and> v + len = r_vcn (runs run ! i) + r_len (runs run ! i)
        \<and> (\<forall>j<len. run_map (runs run) (v + j) = Some (if lcn = SPARSE_LCN then SPARSE_LCN else lcn + j)))"
proof (cases "runs run = []")
  case True
  then show ?thesis by (simp add: run_lookup_entry_def run_lookup_def)
next
  case False
  then have alloc: "allocated run \<noteq> 0" using assms(2) by (cases "runs run") (auto simp: runs_fit_def)
  from assms(1) show ?thesis
  proof (cases rule: run_lookup_cases [where v = v])
    case (hit xs r zs)
    have wf: "run_ok r" "\<forall>x\<in>set xs. before x r" using assms(1) hit(1) by auto
    have s: "sub32 v (r_vcn r) = v - r_vcn r" using hit(3) by (simp add: sub32_def)
    have u: "r_lcn r \<noteq> SPARSE_LCN \<Longrightarrow> u32 (r_lcn r + (v - r_vcn r)) = r_lcn r + (v - r_vcn r)
        \<and> r_lcn r + (v - r_vcn r) \<noteq> SPARSE_LCN"
      using wf(1) hit(3,4) by (auto simp: run_ok_def u32_id)
    have "run_lookup_entry run v =
        Some (if r_lcn r = SPARSE_LCN then SPARSE_LCN else u32 (r_lcn r + (v - r_vcn r)), r_len r - (v - r_vcn r), length xs)"
      using alloc hit wf by (auto simp: run_lookup_entry_def s nth_append Let_def)
    moreover have "run_map (runs run) (v + j) = Some (image_lcn r (v + j))" if "j < r_len r - (v - r_vcn r)" for j
      using that hit(3,4) by (auto simp: hit(1) run_map_mid [OF wf(2)] override_def covers_def)
    ultimately show ?thesis using hit u by (auto simp: image_lcn_def nth_append)
  next
    case (miss xs ys)
    then show ?thesis
      by (simp add: run_lookup_entry_def run_map_append run_map_behind run_map_ahead)
  qed
qed

section \<open>Truncation\<close>

definition free_if_empty :: "runs_tree \<Rightarrow> runs_tree" where
  "free_if_empty run = (if runs run = [] then run\<lparr>allocated := 0\<rparr> else run)"

definition run_truncate_head :: "runs_tree \<Rightarrow> nat \<Rightarrow> runs_tree" where
  "run_truncate_head run vcn =
     (let (found, index) = run_lookup (runs run) vcn;
          run = (if found then
                   let r = runs run ! index in
                   if vcn > r_vcn r then
                     let dlen = vcn - r_vcn r in
                     run\<lparr>runs := (runs run)[index :=
                        r\<lparr>r_vcn := vcn, r_len := sub32 (r_len r) dlen,
                          r_lcn := (if r_lcn r \<noteq> SPARSE_LCN then u32 (r_lcn r + dlen) else r_lcn r)\<rparr>]\<rparr>
                   else run
                 else run)
      in if found \<and> index = 0 then run
         else free_if_empty (run\<lparr>runs := drop index (runs run)\<rparr>))"

definition run_truncate :: "runs_tree \<Rightarrow> nat \<Rightarrow> runs_tree" where
  "run_truncate run vcn =
     (let (found, index) = run_lookup (runs run) vcn;
          (run, index) =
            (if found then
               let r = (runs run ! index)\<lparr>r_len := sub32 vcn (r_vcn (runs run ! index))\<rparr> in
               (run\<lparr>runs := (runs run)[index := r]\<rparr>, if r_len r > 0 then index + 1 else index)
             else (run, index))
      in free_if_empty (run\<lparr>runs := take index (runs run)\<rparr>))"

definition run_truncate_around :: "runs_tree \<Rightarrow> nat \<Rightarrow> runs_tree" where
  "run_truncate_around run vcn =
     (let run = run_truncate_head run vcn in
      if length (runs run) \<ge> NTFS3_RUN_MAX_BYTES div sizeof_ntfs_run div 2
      then run_truncate run (r_vcn (runs run ! (length (runs run) div 2)))
      else run)"

lemma runs_free_if_empty [simp]: "runs (free_if_empty run) = runs run"
  by (simp add: free_if_empty_def)

lemma run_truncate_ok:
  assumes "runs_wf (runs run)"
  shows "runs_wf (runs (run_truncate run vcn))
    \<and> run_map (runs (run_truncate run vcn)) = (\<lambda>v. if v < vcn then run_map (runs run) v else None)"
  using assms
proof (cases rule: run_lookup_cases [where v = vcn])
  case (hit xs r zs)
  have wf: "runs_wf xs" "run_ok r" "\<forall>x\<in>set xs. before x r" "\<forall>z\<in>set zs. before r z" using assms hit(1) by auto
  let ?r = "r\<lparr>r_len := vcn - r_vcn r\<rparr>"
  have "sub32 vcn (r_vcn r) = vcn - r_vcn r" using hit(3) by (simp add: sub32_def)
  then have rs: "runs (run_truncate run vcn) = (if r_vcn r < vcn then xs @ [?r] else xs)"
    using hit by (simp add: run_truncate_def nth_append list_update_append Let_def)
  have z: "run_map zs v = None" if "v < vcn" for v
    using wf(4) hit(4) that by (intro run_map_ahead) (fastforce simp: before_def)
  have x: "run_map xs v = None" if "r_vcn r \<le> v" for v
    using wf(3) that by (intro run_map_behind) (fastforce simp: before_def)
  have "runs_wf (runs (run_truncate run vcn))"
    using rs wf hit(3,4) by (auto simp: run_ok_def before_def)
  moreover have "run_map (runs (run_truncate run vcn)) v = (if v < vcn then run_map (runs run) v else None)" for v
    using rs z [of v] x [of v] hit(1,3,4)
    by (auto simp: run_map_append covers_def image_lcn_def split: option.splits)
  ultimately show ?thesis by (simp add: fun_eq_iff)
next
  case (miss xs ys)
  have "runs (run_truncate run vcn) = xs" using miss by (simp add: run_truncate_def)
  moreover have "run_map ys v = None" if "v < vcn" for v
    using miss(4) that by (intro run_map_ahead) auto
  moreover have "run_map xs v = None" if "\<not> v < vcn" for v
    using miss(3) that by (intro run_map_behind) fastforce
  ultimately show ?thesis using assms miss(1) by (auto simp: run_map_append fun_eq_iff split: option.splits)
qed

lemma run_truncate_head_ok:
  assumes "runs_wf (runs run)"
  shows "runs_wf (runs (run_truncate_head run vcn))
    \<and> run_map (runs (run_truncate_head run vcn)) = (\<lambda>v. if v < vcn then None else run_map (runs run) v)"
  using assms
proof (cases rule: run_lookup_cases [where v = vcn])
  case (hit xs r zs)
  have wf: "runs_wf zs" "run_ok r" "\<forall>x\<in>set xs. before x r" "\<forall>z\<in>set zs. before r z" using assms hit(1) by auto
  define r' where "r' = (if vcn > r_vcn r then r\<lparr>r_vcn := vcn, r_len := r_len r - (vcn - r_vcn r),
    r_lcn := (if r_lcn r \<noteq> SPARSE_LCN then r_lcn r + (vcn - r_vcn r) else r_lcn r)\<rparr> else r)"
  have "(if vcn > r_vcn r then r\<lparr>r_vcn := vcn, r_len := sub32 (r_len r) (vcn - r_vcn r),
    r_lcn := (if r_lcn r \<noteq> SPARSE_LCN then u32 (r_lcn r + (vcn - r_vcn r)) else r_lcn r)\<rparr> else r) = r'"
    using wf(2) hit(3,4) by (auto simp: r'_def sub32_def run_ok_def u32_id)
  then have rs: "runs (run_truncate_head run vcn) = r' # zs"
    using hit by (auto simp: run_truncate_head_def nth_append list_update_append Let_def)
  have r': "run_ok r'" "\<forall>z\<in>set zs. before r' z" using wf hit(3,4) by (auto simp: r'_def run_ok_def before_def)
  have z: "run_map zs v = None" if "v < vcn" for v
    using wf(4) hit(4) that by (intro run_map_ahead) (fastforce simp: before_def)
  have x: "run_map xs v = None" if "\<not> v < vcn" for v
    using wf(3) hit(3) that by (intro run_map_behind) (fastforce simp: before_def)
  have "run_map (r' # zs) v = (if v < vcn then None else run_map (runs run) v)" for v
    using z [of v] x [of v] hit(3,4) wf(2)
    by (auto simp: hit(1) run_map_append r'_def covers_def image_lcn_def run_ok_def)
  then show ?thesis using rs r' wf(1) by (simp add: fun_eq_iff)
next
  case (miss xs ys)
  have "runs (run_truncate_head run vcn) = ys" using miss by (simp add: run_truncate_head_def)
  moreover have "run_map ys v = None" if "v < vcn" for v
    using miss(4) that by (intro run_map_ahead) auto
  moreover have "run_map xs v = None" if "\<not> v < vcn" for v
    using miss(3) that by (intro run_map_behind) fastforce
  ultimately show ?thesis using assms miss(1) by (auto simp: run_map_append fun_eq_iff split: option.splits)
qed

end
