(* ===== verification/Ntfs_Add.thy ===== *)
theory Ntfs_Add
  imports Ntfs_Run
begin

text \<open>
  Adding a range to a run list: \<^verbatim>\<open>run_consolidate\<close> and \<^verbatim>\<open>run_add_entry\<close> of \<^verbatim>\<open>fs/ntfs3/run.c\<close>.
  The abstract specification of adding a run is \<open>override\<close>: the function of the list is changed on
  the clusters of the run and nowhere else. Merging and trimming runs is shown to keep the function.
  The argument \<^verbatim>\<open>is_mft\<close> of \<^verbatim>\<open>run_add_entry\<close> only decides whether a large array is reported by
  \<^verbatim>\<open>WARN_ON\<close>; it has no counterpart in the model.
\<close>

section \<open>Consolidation\<close>

text \<open>The part of the loop that moves the start of the next run behind the current one.\<close>

definition cut_front :: "nat \<Rightarrow> ntfs_run \<Rightarrow> ntfs_run" where
  "cut_front dl n =
     (if dl > 0
      then n\<lparr>r_len := r_len n - dl, r_vcn := u32 (r_vcn n + dl),
             r_lcn := (if r_lcn n \<noteq> SPARSE_LCN then u32 (r_lcn n + dl) else r_lcn n)\<rparr>
      else n)"

function run_consolidate :: "ntfs_run list \<Rightarrow> nat \<Rightarrow> ntfs_run list" where
  "run_consolidate rs index =
     (if index + 1 < length rs then
        let r = rs ! index; n = rs ! (index + 1) in
        if r_vcn n > run_end r then rs
        else
          let dl = sub32 (run_end r) (r_vcn n) in
          if dl > 0 \<and> r_len n \<le> dl
          then run_consolidate (take (index + 1) rs @ drop (index + 2) rs) index
          else
            let n = cut_front dl n; rs = rs[index + 1 := n] in
            if (r_lcn n = SPARSE_LCN) \<noteq> (r_lcn r = SPARSE_LCN) then run_consolidate rs (index + 1)
            else if r_lcn n \<noteq> SPARSE_LCN \<and> r_lcn n \<noteq> u32 (r_lcn r + r_len r) then rs
            else run_consolidate
                   (take index rs @ r\<lparr>r_len := u32 (r_len r + r_len n)\<rparr> # drop (index + 2) rs) index
      else rs)"
  by pat_completeness auto
termination
  by (relation "measure (\<lambda>(rs, index). length rs - index)") auto

declare run_consolidate.simps [simp del]

text \<open>The same on the run and the runs behind it.\<close>

definition trim_run :: "ntfs_run \<Rightarrow> ntfs_run \<Rightarrow> ntfs_run" where
  "trim_run r n = (let dl = r_vcn r + r_len r - r_vcn n in
     if dl > 0
     then n\<lparr>r_len := r_len n - dl, r_vcn := r_vcn n + dl,
            r_lcn := (if r_lcn n \<noteq> SPARSE_LCN then r_lcn n + dl else r_lcn n)\<rparr>
     else n)"

fun consolidate_from :: "ntfs_run \<Rightarrow> ntfs_run list \<Rightarrow> ntfs_run list" where
  "consolidate_from r [] = [r]"
| "consolidate_from r (n # ns) =
     (if r_vcn n > r_vcn r + r_len r then r # n # ns
      else if r_vcn n + r_len n \<le> r_vcn r + r_len r then consolidate_from r ns
      else
        let n = trim_run r n in
        if (r_lcn n = SPARSE_LCN) \<noteq> (r_lcn r = SPARSE_LCN) then r # consolidate_from n ns
        else if r_lcn n \<noteq> SPARSE_LCN \<and> r_lcn n \<noteq> r_lcn r + r_len r then r # n # ns
        else consolidate_from (r\<lparr>r_len := r_len r + r_len n\<rparr>) ns)"

lemma trim_run_facts:
  assumes "run_ok n" and "r_vcn n \<le> r_vcn r + r_len r" and "r_vcn r + r_len r < r_vcn n + r_len n"
  shows "run_ok (trim_run r n)" and "r_vcn (trim_run r n) = r_vcn r + r_len r"
    and "r_vcn (trim_run r n) + r_len (trim_run r n) = r_vcn n + r_len n"
    and "r_lcn (trim_run r n) = SPARSE_LCN \<longleftrightarrow> r_lcn n = SPARSE_LCN"
    and "covers (trim_run r n) v \<Longrightarrow> image_lcn (trim_run r n) v = image_lcn n v"
  using assms by (auto simp: trim_run_def Let_def run_ok_def covers_def image_lcn_def)

lemma merged_run_ok:
  assumes "run_ok r" and "run_ok n" and "r_vcn n = r_vcn r + r_len r"
    and "(r_lcn n = SPARSE_LCN) = (r_lcn r = SPARSE_LCN)"
    and "r_lcn n = SPARSE_LCN \<or> r_lcn n = r_lcn r + r_len r"
  shows "run_ok (r\<lparr>r_len := r_len r + r_len n\<rparr>)"
    and "(if covers (r\<lparr>r_len := r_len r + r_len n\<rparr>) v then Some (image_lcn (r\<lparr>r_len := r_len r + r_len n\<rparr>) v) else x)
       = (if covers r v then Some (image_lcn r v) else if covers n v then Some (image_lcn n v) else x)"
  using assms by (auto simp: run_ok_def covers_def image_lcn_def)

text \<open>A run may overlap the runs behind it, and these are sorted.\<close>

definition front :: "ntfs_run \<Rightarrow> ntfs_run list \<Rightarrow> bool" where
  "front r ns = (run_ok r \<and> runs_wf ns \<and> (\<forall>n\<in>set ns. r_vcn r \<le> r_vcn n))"

lemma consolidate_from_eq:
  assumes "front r ns"
  shows "run_consolidate (xs @ r # ns) (length xs) = xs @ consolidate_from r ns"
  using assms
proof (induction ns arbitrary: r xs)
  case Nil
  then show ?case by (simp add: run_consolidate.simps)
next
  case (Cons n ns)
  have ok: "run_ok r" "run_ok n" and wf: "runs_wf ns" "\<forall>m\<in>set ns. before n m" "r_vcn r \<le> r_vcn n"
    using Cons.prems by (auto simp: front_def)
  have nth: "(xs @ r # n # ns) ! length xs = r" "(xs @ r # n # ns) ! Suc (length xs) = n"
    by (simp_all add: nth_append)
  show ?case
  proof (cases "r_vcn n > r_vcn r + r_len r")
    case True
    then show ?thesis using ok by (simp add: run_consolidate.simps nth)
  next
    case reach: False
    then have dl: "sub32 (r_vcn r + r_len r) (r_vcn n) = r_vcn r + r_len r - r_vcn n"
      using ok by (simp add: sub32_def)
    show ?thesis
    proof (cases "r_vcn n + r_len n \<le> r_vcn r + r_len r")
      case True
      then have "0 < r_vcn r + r_len r - r_vcn n \<and> r_len n \<le> r_vcn r + r_len r - r_vcn n"
        using ok by (auto simp: run_ok_def)
      then have "run_consolidate (xs @ r # n # ns) (length xs) = run_consolidate (xs @ r # ns) (length xs)"
        using ok reach by (subst run_consolidate.simps) (simp add: nth dl Let_def)
      moreover have "front r ns" using Cons.prems by (auto simp: front_def)
      ultimately show ?thesis using Cons.IH True reach by simp
    next
      case False
      define n' where "n' = trim_run r n"
      note t = trim_run_facts [OF ok(2), of r, folded n'_def]
      have reach': "r_vcn n \<le> r_vcn r + r_len r" "r_vcn r + r_len r < r_vcn n + r_len n" using reach False by auto
      note t = t [OF this]
      have n': "cut_front (r_vcn r + r_len r - r_vcn n) n = n'"
        using ok reach' by (auto simp: n'_def trim_run_def cut_front_def Let_def run_ok_def u32_id)
      have nf: "\<not> r_len n \<le> r_vcn r + r_len r - r_vcn n" using reach' by auto
      have upd: "(xs @ r # n # ns)[Suc (length xs) := n'] = xs @ r # n' # ns"
        by (simp add: list_update_append)
      have f': "front n' ns" using t(1,2) wf reach' ok by (auto simp: front_def before_def)
      have step: "run_consolidate (xs @ r # n # ns) (length xs) =
        (if (r_lcn n' = SPARSE_LCN) \<noteq> (r_lcn r = SPARSE_LCN) then run_consolidate ((xs @ [r]) @ n' # ns) (length (xs @ [r]))
         else if r_lcn n' \<noteq> SPARSE_LCN \<and> r_lcn n' \<noteq> u32 (r_lcn r + r_len r) then xs @ r # n' # ns
         else run_consolidate (xs @ r\<lparr>r_len := u32 (r_len r + r_len n')\<rparr> # ns) (length xs))"
        using reach' ok nf by (subst run_consolidate.simps) (simp add: nth dl n' upd Let_def)
      have u: "u32 (r_len r + r_len n') = r_len r + r_len n'"
        using t ok by (simp add: run_ok_def u32_id)
      show ?thesis
      proof (cases "(r_lcn n' = SPARSE_LCN) \<noteq> (r_lcn r = SPARSE_LCN)")
        case True
        then show ?thesis using reach' step Cons.IH [OF f', of "xs @ [r]"] by (simp add: n'_def [symmetric] Let_def)
      next
        case same: False
        show ?thesis
        proof (cases "r_lcn n' \<noteq> SPARSE_LCN \<and> r_lcn n' \<noteq> r_lcn r + r_len r")
          case True
          then show ?thesis using reach' step same ok by (simp add: n'_def [symmetric] Let_def run_ok_def u32_id)
        next
          case join: False
          have "front (r\<lparr>r_len := r_len r + r_len n'\<rparr>) ns"
            using merged_run_ok(1) [OF ok(1) t(1,2)] same join wf by (auto simp: front_def before_def)
          from Cons.IH [OF this, of xs] show ?thesis
            using reach' step same join ok u by (auto simp: n'_def [symmetric] Let_def run_ok_def u32_id)
        qed
      qed
    qed
  qed
qed

lemma consolidate_from_ok:
  assumes "front r ns"
  shows "runs_wf (consolidate_from r ns) \<and> run_map (consolidate_from r ns) = run_map (r # ns)
    \<and> (\<forall>x\<in>set (consolidate_from r ns). r_vcn r \<le> r_vcn x)"
  using assms
proof (induction ns arbitrary: r)
  case Nil
  then show ?case by (simp add: front_def)
next
  case (Cons n ns)
  have ok: "run_ok r" "run_ok n" and wf: "runs_wf ns" "\<forall>m\<in>set ns. before n m" "r_vcn r \<le> r_vcn n"
    using Cons.prems by (auto simp: front_def)
  have f: "front r ns" using Cons.prems by (auto simp: front_def)
  consider (gap) "r_vcn r + r_len r < r_vcn n" | (hidden) "r_vcn n + r_len n \<le> r_vcn r + r_len r"
    | (reach) "r_vcn n \<le> r_vcn r + r_len r" "r_vcn r + r_len r < r_vcn n + r_len n" by linarith
  then show ?case
  proof cases
    case gap
    then show ?thesis using ok wf by (auto simp: before_def)
  next
    case hidden
    then have "covers n v \<Longrightarrow> covers r v" for v using wf(3) by (auto simp: covers_def)
    then have "run_map (r # n # ns) = run_map (r # ns)" by (auto simp: fun_eq_iff)
    then show ?thesis using Cons.IH [OF f] hidden by simp
  next
    case reach
    define n' where "n' = trim_run r n"
    note t = trim_run_facts [OF ok(2) reach, folded n'_def]
    have c: "covers n v \<longleftrightarrow> covers r v \<and> r_vcn n \<le> v \<or> covers n' v" for v
      using t(2,3) reach wf(3) by (auto simp: covers_def)
    have m: "run_map (r # n # ns) = run_map (r # n' # ns)"
      using c t(5) by (auto simp: fun_eq_iff)
    have f': "front n' ns" using t(1,2) wf reach ok by (auto simp: front_def before_def)
    have bef: "before r x" if "r_vcn n' \<le> r_vcn x" for x using that t(2) by (simp add: before_def)
    show ?thesis
    proof (cases "(r_lcn n' = SPARSE_LCN) \<noteq> (r_lcn r = SPARSE_LCN)")
      case True
      then have "consolidate_from r (n # ns) = r # consolidate_from n' ns"
        using reach by (simp add: n'_def [symmetric] Let_def)
      then show ?thesis using Cons.IH [OF f'] m ok bef t(2) wf(3) by (auto simp: fun_eq_iff)
    next
      case same: False
      show ?thesis
      proof (cases "r_lcn n' \<noteq> SPARSE_LCN \<and> r_lcn n' \<noteq> r_lcn r + r_len r")
        case True
        then have "consolidate_from r (n # ns) = r # n' # ns"
          using reach same by (simp add: n'_def [symmetric] Let_def)
        then show ?thesis using m ok t wf reach bef
          by (auto simp: before_def simp del: run_map.simps)
      next
        case join: False
        let ?r = "r\<lparr>r_len := r_len r + r_len n'\<rparr>"
        have eq: "consolidate_from r (n # ns) = consolidate_from ?r ns"
          using reach same join by (auto simp: n'_def [symmetric] Let_def)
        have "(r_lcn n' = SPARSE_LCN) = (r_lcn r = SPARSE_LCN)" "r_lcn n' = SPARSE_LCN \<or> r_lcn n' = r_lcn r + r_len r"
          using same join by auto
        note j = merged_run_ok [OF ok(1) t(1,2) this]
        have "run_map (?r # ns) = run_map (r # n' # ns)" using j(2) by (simp add: fun_eq_iff)
        moreover have "front ?r ns" using j(1) wf by (auto simp: front_def before_def)
        ultimately show ?thesis using Cons.IH [of ?r] m eq by simp
      qed
    qed
  qed
qed

lemma run_consolidate_front:
  assumes "front r ns" and "runs_wf xs" and "\<forall>x\<in>set xs. before x r"
  shows "runs_wf (run_consolidate (xs @ r # ns) (length xs))"
    and "run_map (run_consolidate (xs @ r # ns) (length xs)) = run_map (xs @ r # ns)"
proof -
  note c = consolidate_from_ok [OF assms(1)]
  show "runs_wf (run_consolidate (xs @ r # ns) (length xs))"
    using c assms by (fastforce simp: consolidate_from_eq before_def)
  show "run_map (run_consolidate (xs @ r # ns) (length xs)) = run_map (xs @ r # ns)"
    using c by (auto simp: consolidate_from_eq [OF assms(1)] run_map_append fun_eq_iff split: option.split)
qed

lemma wf_front: "runs_wf (r # ns) \<Longrightarrow> front r ns"
  by (auto simp: front_def before_def)

lemma run_consolidate_wf:
  assumes "runs_wf rs"
  shows "runs_wf (run_consolidate rs i) \<and> run_map (run_consolidate rs i) = run_map rs"
proof (cases "i < length rs")
  case True
  have "rs = take i rs @ rs ! i # drop (Suc i) rs" by (rule id_take_nth_drop [OF True])
  moreover have "length (take i rs) = i" using True by simp
  ultimately obtain xs r ns where "rs = xs @ r # ns" "i = length xs" by metis
  then show ?thesis using run_consolidate_front [OF wf_front, of r ns xs] assms by auto
next
  case False
  then show ?thesis using assms by (simp add: run_consolidate.simps)
qed

section \<open>Adding a run\<close>

text \<open>The number of bytes of a larger array.\<close>

definition is_pow2 :: "nat \<Rightarrow> bool" where
  "is_pow2 n = (n \<noteq> 0 \<and> n AND (n - 1) = 0)"

definition grow_bytes :: "'h kernel \<Rightarrow> runs_tree \<Rightarrow> nat \<Rightarrow> nat" where
  "grow_bytes k run used =
     (if used = 0 then 64
      else if used \<le> 16 * PAGE_SIZE then
        if is_pow2 (allocated run) then 2 * allocated run else 2 ^ (2 + blksize_bits k used)
      else allocated run + 16 * PAGE_SIZE)"

text \<open>The code at the label \<^verbatim>\<open>requires_new_range\<close>: insert a run at an index.\<close>

definition insert_run ::
    "'h kernel \<Rightarrow> 'h \<Rightarrow> runs_tree \<Rightarrow> nat \<Rightarrow> ntfs_run \<Rightarrow> bool \<times> runs_tree \<times> 'h" where
  "insert_run k h run index r =
     (let used = length (runs run) * sizeof_ntfs_run;
          rs = take index (runs run) @ r # drop index (runs run) in
      if allocated run < used + sizeof_ntfs_run then
        let bytes = grow_bytes k run used; (ok, h) = kvmalloc k h bytes in
        if ok then (True, \<lparr>runs = rs, allocated = bytes\<rparr>, h) else (False, run, h)
      else (True, run\<lparr>runs := rs\<rparr>, h))"

text \<open>The consolidation at the end of \<^verbatim>\<open>run_add_entry\<close>.\<close>

definition normalize_runs :: "runs_tree \<Rightarrow> bool \<Rightarrow> nat \<Rightarrow> runs_tree" where
  "normalize_runs run inrange index =
     (let index = (if inrange \<and> index > 0 then index - 1 else index) in
      run\<lparr>runs := run_consolidate (run_consolidate (runs run) index) (index + 1)\<rparr>)"

definition insert_normalized ::
    "'h kernel \<Rightarrow> 'h \<Rightarrow> runs_tree \<Rightarrow> nat \<Rightarrow> ntfs_run \<Rightarrow> bool \<times> runs_tree \<times> 'h" where
  "insert_normalized k h run index r =
     (let (ok, run, h) = insert_run k h run index r in
      if ok then (True, normalize_runs run False index, h) else (False, run, h))"

text \<open>
  One activation of \<^verbatim>\<open>run_add_entry\<close>, without the recursive call that adds the tail of a run that
  has been split: the result, the list, the tail to be added and the heap.
\<close>

definition continues :: "ntfs_run \<Rightarrow> nat \<Rightarrow> nat \<Rightarrow> bool" where
  "continues t vcn lcn =
     (run_end t = vcn \<and> (r_lcn t = SPARSE_LCN) = (lcn = SPARSE_LCN)
      \<and> (lcn = SPARSE_LCN \<or> lcn = u32 (r_lcn t + r_len t)))"

definition extend_run :: "ntfs_run \<Rightarrow> nat \<Rightarrow> nat \<Rightarrow> ntfs_run" where
  "extend_run r vcn len =
     (if run_end r < u32 (vcn + len)
      then r\<lparr>r_len := u32 (r_len r + sub32 len (sub32 (run_end r) vcn))\<rparr> else r)"

definition split_tail :: "ntfs_run \<Rightarrow> nat \<Rightarrow> ntfs_run option" where
  "split_tail r Tovcn =
     (if Tovcn < r_len r
      then Some \<lparr>r_vcn = u32 (r_vcn r + Tovcn), r_len = r_len r - Tovcn,
                 r_lcn = (if r_lcn r = SPARSE_LCN then SPARSE_LCN else u32 (r_lcn r + Tovcn))\<rparr>
      else None)"

definition run_add_once ::
    "'h kernel \<Rightarrow> 'h \<Rightarrow> runs_tree \<Rightarrow> nat \<Rightarrow> nat \<Rightarrow> nat \<Rightarrow> bool \<times> runs_tree \<times> ntfs_run option \<times> 'h" where
  "run_add_once k h run vcn lcn len =
     (let (inrange, index) = run_lookup (runs run) vcn;
          (inrange, index) =
            (if \<not> inrange \<and> index > 0 \<and> continues (runs run ! (index - 1)) vcn lcn
             then (True, index - 1) else (inrange, index));
          new = \<lparr>r_vcn = vcn, r_len = len, r_lcn = lcn\<rparr> in
      if \<not> inrange then
        let (ok, run, h) = insert_normalized k h run index new in (ok, run, None, h)
      else
        let r = runs run ! index in
        if (lcn = SPARSE_LCN) \<noteq> (r_lcn r = SPARSE_LCN)
           \<or> lcn \<noteq> SPARSE_LCN \<and> lcn \<noteq> u32 (r_lcn r + sub32 vcn (r_vcn r)) then
          let to_eat = sub32 vcn (r_vcn r);
              tail = split_tail r (u32 (to_eat + len)) in
          if to_eat > 0 then
            let run = run\<lparr>runs := (runs run)[index := r\<lparr>r_len := to_eat\<rparr>]\<rparr>;
                (ok, run, h) = insert_normalized k h run (index + 1) new
            in (ok, run, tail, h)
          else
            let r = extend_run (r\<lparr>r_lcn := lcn\<rparr>) vcn len in
            (True, normalize_runs (run\<lparr>runs := (runs run)[index := r]\<rparr>) True index, tail, h)
        else
          (True, normalize_runs (run\<lparr>runs := (runs run)[index := extend_run r vcn len]\<rparr>) True index,
           None, h))"

partial_function (option) run_add_entry ::
    "'h kernel \<Rightarrow> 'h \<Rightarrow> runs_tree \<Rightarrow> nat \<Rightarrow> nat \<Rightarrow> nat \<Rightarrow> (bool \<times> runs_tree \<times> 'h) option" where
  "run_add_entry k h run vcn lcn len =
     (case run_add_once k h run vcn lcn len of
        (ok, run, tail, h) \<Rightarrow>
          if \<not> ok then Some (False, run, h)
          else case tail of
            None \<Rightarrow> Some (True, run, h)
          | Some t \<Rightarrow> run_add_entry k h run (r_vcn t) (r_lcn t) (r_len t))"

declare run_add_entry.simps [code]

lemma consolidate_from_starts:
  "runs_wf (r # ns) \<Longrightarrow> r_vcn ` set (consolidate_from r ns) \<subseteq> r_vcn ` set (r # ns)"
proof (induction ns arbitrary: r)
  case Nil
  then show ?case by simp
next
  case (Cons n ns)
  have ok: "run_ok r" "run_ok n" and wf: "runs_wf ns" "\<forall>m\<in>set ns. before n m" "\<forall>m\<in>set ns. before r m" "before r n"
    using Cons.prems by auto
  show ?case
  proof (cases "r_vcn n = r_vcn r + r_len r")
    case False
    then show ?thesis using ok wf by (auto simp: before_def)
  next
    case True
    then have t: "trim_run r n = n" by (simp add: trim_run_def)
    have j: "runs_wf (r\<lparr>r_len := r_len r + r_len n\<rparr> # ns)"
      if "(r_lcn n = SPARSE_LCN) = (r_lcn r = SPARSE_LCN)" "r_lcn n = SPARSE_LCN \<or> r_lcn n = r_lcn r + r_len r"
      using merged_run_ok(1) [OF ok True that] wf True by (auto simp: before_def)
    consider (differ) "(r_lcn n = SPARSE_LCN) \<noteq> (r_lcn r = SPARSE_LCN)"
      | (stop) "(r_lcn n = SPARSE_LCN) = (r_lcn r = SPARSE_LCN)" "r_lcn n \<noteq> SPARSE_LCN" "r_lcn n \<noteq> r_lcn r + r_len r"
      | (join) "(r_lcn n = SPARSE_LCN) = (r_lcn r = SPARSE_LCN)" "r_lcn n = SPARSE_LCN \<or> r_lcn n = r_lcn r + r_len r"
      by blast
    then show ?thesis
    proof cases
      case differ
      then have "consolidate_from r (n # ns) = r # consolidate_from n ns"
        using True t ok by (simp add: run_ok_def)
      then show ?thesis using Cons.IH [of n] ok wf by auto
    next
      case stop
      then show ?thesis using True t ok by (simp add: run_ok_def)
    next
      case join
      then have "consolidate_from r (n # ns) = consolidate_from (r\<lparr>r_len := r_len r + r_len n\<rparr>) ns"
        using True t ok by (auto simp: run_ok_def)
      then show ?thesis using Cons.IH [OF j [OF join]] by auto
    qed
  qed
qed

lemma run_consolidate_starts:
  assumes "runs_wf rs"
  shows "r_vcn ` set (run_consolidate rs i) \<subseteq> r_vcn ` set rs"
proof (cases "i < length rs")
  case True
  then obtain xs r ns where rs: "rs = xs @ r # ns" "i = length xs"
    by (metis id_take_nth_drop length_take min.absorb4)
  then show ?thesis
    using assms consolidate_from_starts [of r ns] by (auto simp: consolidate_from_eq [OF wf_front])
next
  case False
  then show ?thesis by (simp add: run_consolidate.simps)
qed

lemma run_consolidate_length: "length (run_consolidate rs i) \<le> length rs"
proof (induction rs i rule: run_consolidate.induct)
  case (1 rs i)
  show ?case
  proof (cases "Suc i < length rs")
    case True
    have idx: "i + 1 < length rs" using True by simp
    note IH = "1.IH"(1) [OF idx refl refl] "1.IH"(2,3) [OF idx refl refl _ refl _ refl refl]
    show ?thesis
      apply (subst run_consolidate.simps)
      using IH True
      apply (simp add: Let_def min_def)
      apply (intro conjI impI)
      apply auto
      done
  next
    case False
    then show ?thesis by (simp add: run_consolidate.simps)
  qed
qed

lemma normalize_insert:
  assumes "front r ns" and "runs_wf xs" and "\<forall>x\<in>set xs. before x r" and "runs run = xs @ r # ns"
  shows "runs_wf (runs (normalize_runs run False (length xs)))"
    and "run_map (runs (normalize_runs run False (length xs))) = run_map (xs @ r # ns)"
  using run_consolidate_front [OF assms(1-3)] assms(4)
    run_consolidate_wf [of "run_consolidate (xs @ r # ns) (length xs)" "Suc (length xs)"]
  by (simp_all add: normalize_runs_def Let_def)

text \<open>The pair of runs in front of the changed one does not overlap, so one step decides.\<close>

lemma run_consolidate_adjacent:
  assumes "run_ok p" and "run_ok r" and "before p r"
  shows "run_consolidate (xs @ p # r # ns) (length xs) =
    (if r_vcn r \<noteq> r_vcn p + r_len p then xs @ p # r # ns
     else if (r_lcn r = SPARSE_LCN) \<noteq> (r_lcn p = SPARSE_LCN)
     then run_consolidate ((xs @ [p]) @ r # ns) (length (xs @ [p]))
     else if r_lcn r \<noteq> SPARSE_LCN \<and> r_lcn r \<noteq> r_lcn p + r_len p then xs @ p # r # ns
     else run_consolidate (xs @ p\<lparr>r_len := r_len p + r_len r\<rparr> # ns) (length xs))"
proof -
  have nth: "(xs @ p # r # ns) ! length xs = p" "(xs @ p # r # ns) ! Suc (length xs) = r"
    by (simp_all add: nth_append)
  show ?thesis
  proof (cases "r_vcn r = r_vcn p + r_len p")
    case True
    then have u: "u32 (r_len p + r_len r) = r_len p + r_len r"
      using assms by (simp add: run_ok_def u32_id)
    have l: "r_lcn p \<noteq> SPARSE_LCN \<Longrightarrow> u32 (r_lcn p + r_len p) = r_lcn p + r_len p"
      using assms(1) by (auto simp: run_ok_def u32_id)
    have s: "sub32 (r_vcn p + r_len p) (r_vcn p + r_len p) = 0" by (simp add: sub32_def)
    have upd: "(xs @ p # r # ns)[Suc (length xs) := r] = xs @ p # r # ns"
      by (simp add: list_update_append)
    show ?thesis
      using True assms l
      by (subst run_consolidate.simps) (auto simp: nth s u upd cut_front_def Let_def)
  next
    case False
    then show ?thesis using assms
      by (subst run_consolidate.simps) (auto simp: nth before_def Let_def)
  qed
qed

lemma normalize_inrange:
  assumes "front r ns" and "runs_wf xs" and "\<forall>x\<in>set xs. before x r" and "runs run = xs @ r # ns"
  shows "runs_wf (runs (normalize_runs run True (length xs)))
    \<and> run_map (runs (normalize_runs run True (length xs))) = run_map (xs @ r # ns)"
proof (cases xs rule: rev_cases)
  case Nil
  then show ?thesis using normalize_insert [OF assms] by (simp add: normalize_runs_def Let_def)
next
  case (snoc ys p)
  let ?c = "run_consolidate (ys @ p # r # ns) (length ys)"
  have ok: "run_ok p" "run_ok r" "before p r" and wf: "runs_wf ys" "\<forall>y\<in>set ys. before y p"
    using assms(1-3) snoc by (auto simp: front_def)
  note adj = run_consolidate_adjacent [OF ok, of ys ns]
  note at_r = run_consolidate_front [OF assms(1-3), unfolded snoc]
  have n: "runs (normalize_runs run True (length xs)) = run_consolidate ?c (Suc (length ys))"
    using assms(4) snoc by (simp add: normalize_runs_def Let_def)
  have join: "runs_wf (run_consolidate (ys @ p\<lparr>r_len := r_len p + r_len r\<rparr> # ns) (length ys))
      \<and> run_map (run_consolidate (ys @ p\<lparr>r_len := r_len p + r_len r\<rparr> # ns) (length ys)) = run_map (ys @ p # r # ns)"
    if "r_vcn r = r_vcn p + r_len p" "(r_lcn r = SPARSE_LCN) = (r_lcn p = SPARSE_LCN)"
      "r_lcn r = SPARSE_LCN \<or> r_lcn r = r_lcn p + r_len p"
  proof -
    let ?p = "p\<lparr>r_len := r_len p + r_len r\<rparr>"
    note m = merged_run_ok [OF ok(1,2) that]
    have "front ?p ns" using m(1) assms(1) ok(3) by (auto simp: front_def before_def)
    moreover have "\<forall>y\<in>set ys. before y ?p" using wf(2) by (simp add: before_def)
    moreover have "run_map (ys @ ?p # ns) = run_map (ys @ p # r # ns)"
      using m(2) by (auto simp: fun_eq_iff run_map_append split: option.split)
    ultimately show ?thesis using run_consolidate_front [of ?p ns ys] wf(1) by simp
  qed
  consider (same) "?c = ys @ p # r # ns" | (good) "runs_wf ?c \<and> run_map ?c = run_map (ys @ p # r # ns)"
    using adj at_r join by (auto split: if_splits)
  then show ?thesis
  proof cases
    case same
    then show ?thesis using at_r n snoc by simp
  next
    case good
    then show ?thesis using run_consolidate_wf [of ?c "Suc (length ys)"] n snoc by simp
  qed
qed

lemma normalize_starts:
  assumes "runs_wf (runs run)"
  shows "r_vcn ` set (runs (normalize_runs run b i)) \<subseteq> r_vcn ` set (runs run)"
  using run_consolidate_starts [OF assms] run_consolidate_starts [of "run_consolidate (runs run) j" for j]
    run_consolidate_wf [OF assms]
  by (simp add: normalize_runs_def Let_def) (meson order_trans)

lemma insert_normalized_ok:
  assumes "insert_normalized k h run (length xs) r = (True, run', h')" and "runs run = xs @ ys"
    and "front r ys" and "runs_wf xs" and "\<forall>x\<in>set xs. before x r"
  shows "runs_wf (runs run')" and "run_map (runs run') = override (run_map (xs @ ys)) r"
    and "runs_wf (xs @ r # ys) \<Longrightarrow> r_vcn ` set (runs run') \<subseteq> r_vcn ` set (xs @ r # ys)"
proof -
  obtain run1 where i: "insert_run k h run (length xs) r = (True, run1, h')" "run' = normalize_runs run1 False (length xs)"
    using assms(1) by (auto simp: insert_normalized_def split: prod.splits if_splits)
  have r1: "runs run1 = xs @ r # ys"
    using i(1) assms(2) by (auto simp: insert_run_def Let_def split: prod.splits if_splits)
  show "runs_wf (runs run')" "run_map (runs run') = override (run_map (xs @ ys)) r"
    using normalize_insert [OF assms(3-5) r1] i(2) run_map_mid [OF assms(5)] by simp_all
  show "r_vcn ` set (runs run') \<subseteq> r_vcn ` set (xs @ r # ys)" if "runs_wf (xs @ r # ys)"
    using normalize_starts [of run1] that r1 i(2) by simp
qed

text \<open>
  What one activation leaves to do. The run that starts at the new cluster keeps its length when it is
  given the new logical cluster, before its tail is cut off; \<open>relocatable\<close> says that this intermediate
  run does not pass the end of the cluster numbers.
\<close>

definition relocatable :: "ntfs_run list \<Rightarrow> ntfs_run \<Rightarrow> bool" where
  "relocatable rs new = (\<forall>r\<in>set rs. r_vcn r = r_vcn new \<and> r_lcn new \<noteq> SPARSE_LCN \<longrightarrow> r_lcn new + r_len r < 2 ^ 32)"

definition add_post :: "ntfs_run list \<Rightarrow> ntfs_run \<Rightarrow> ntfs_run list \<Rightarrow> ntfs_run option \<Rightarrow> bool" where
  "add_post rs new rs' tail =
     (runs_wf rs' \<and>
      (case tail of
         None \<Rightarrow> run_map rs' = override (run_map rs) new
       | Some t \<Rightarrow> run_ok t \<and> r_vcn new < r_vcn t \<and> r_vcn t \<notin> r_vcn ` set rs'
                  \<and> override (run_map rs') t = override (run_map rs) new))"

lemma add_extend:
  assumes "runs_wf (xs @ r # zs)" and "run_ok new" and "r_vcn r \<le> r_vcn new" and "r_vcn new \<le> r_vcn r + r_len r"
    and "(r_lcn new = SPARSE_LCN) = (r_lcn r = SPARSE_LCN)"
    and "r_lcn new = SPARSE_LCN \<or> r_lcn new = r_lcn r + (r_vcn new - r_vcn r)"
    and "\<forall>z\<in>set zs. r_vcn new \<le> r_vcn z" and "runs run = xs @ extend_run r (r_vcn new) (r_len new) # zs"
  shows "add_post (xs @ r # zs) new (runs (normalize_runs run True (length xs))) None"
proof -
  define r' where "r' = extend_run r (r_vcn new) (r_len new)"
  have ok: "run_ok r" and bef: "\<forall>x\<in>set xs. before x r" "runs_wf xs" "runs_wf zs" "\<forall>z\<in>set zs. before r z"
    using assms(1) by auto
  have r': "r' = r\<lparr>r_len := max (r_len r) (r_vcn new + r_len new - r_vcn r)\<rparr>"
    using ok assms(2-4)
    by (auto simp: r'_def extend_run_def run_ok_def u32_id sub32_def max_def)
  have ok': "run_ok r'" using ok assms(2-6) by (auto simp: r' run_ok_def max_def)
  have f: "front r' zs" using ok' bef assms(3,7) by (auto simp: front_def r' before_def)
  have b: "\<forall>x\<in>set xs. before x r'" using bef by (auto simp: r' before_def)
  have m: "override (override M r) new = override M r'" for M
    using ok assms(2-6) by (auto simp: fun_eq_iff override_def covers_def image_lcn_def r' run_ok_def max_def)
  show ?thesis
    using normalize_inrange [OF f bef(2) b, of run] assms(8)
    by (simp add: add_post_def r'_def [symmetric] run_map_mid [OF b] run_map_mid [OF bef(1)] m)
qed

lemma split_tail_cases:
  assumes "run_ok r" and "run_ok new" and "r_vcn r \<le> r_vcn new" and "r_vcn new < r_vcn r + r_len r"
  defines "tail \<equiv> split_tail r (u32 (sub32 (r_vcn new) (r_vcn r) + r_len new))"
  obtains (none) "tail = None" "r_vcn r + r_len r \<le> r_vcn new + r_len new"
  | (some) t where "tail = Some t" "run_ok t" "r_vcn t = r_vcn new + r_len new" "r_vcn t + r_len t = r_vcn r + r_len r"
      "r_lcn t = (if r_lcn r = SPARSE_LCN then SPARSE_LCN else r_lcn r + (r_vcn t - r_vcn r))"
proof -
  have "r_vcn new - r_vcn r + r_len new < 2 ^ 32" using assms(2) by (auto simp: run_ok_def)
  then have to: "u32 (sub32 (r_vcn new) (r_vcn r) + r_len new) = r_vcn new - r_vcn r + r_len new"
    using assms(3) u32_id [of "r_vcn new - r_vcn r + r_len new"] by (simp add: sub32_def del: Nat.diff_add_assoc2)
  show ?thesis
  proof (cases "r_vcn new - r_vcn r + r_len new < r_len r")
    case True
    have e: "r_vcn r + (r_vcn new - r_vcn r + r_len new) = r_vcn new + r_len new" using assms(3) by simp
    show ?thesis
    proof (rule some)
      show "tail = Some \<lparr>r_vcn = r_vcn new + r_len new, r_len = r_vcn r + r_len r - (r_vcn new + r_len new),
          r_lcn = (if r_lcn r = SPARSE_LCN then SPARSE_LCN else r_lcn r + (r_vcn new + r_len new - r_vcn r))\<rparr>"
        using True assms(1-4) by (auto simp: tail_def to split_tail_def e run_ok_def u32_id)
    qed (use True assms(1-4) in \<open>auto simp: run_ok_def\<close>)
  next
    case False
    show ?thesis
      by (rule none) (use False assms(3) in \<open>auto simp: tail_def to split_tail_def\<close>)
  qed
qed

lemma add_split:
  assumes "runs_wf (xs @ r # zs)" and "run_ok new" and "r_vcn r < r_vcn new" and "r_vcn new < r_vcn r + r_len r"
    and "runs run = xs @ r\<lparr>r_len := r_vcn new - r_vcn r\<rparr> # zs"
    and "insert_normalized k h run (Suc (length xs)) new = (True, run', h')"
  shows "add_post (xs @ r # zs) new (runs run') (split_tail r (u32 (sub32 (r_vcn new) (r_vcn r) + r_len new)))"
proof -
  define r1 where "r1 = r\<lparr>r_len := r_vcn new - r_vcn r\<rparr>"
  have ok: "run_ok r" and bef: "\<forall>x\<in>set xs. before x r" "runs_wf xs" "runs_wf zs" "\<forall>z\<in>set zs. before r z"
    using assms(1) by auto
  have ok1: "run_ok r1" using ok assms(3,4) by (auto simp: r1_def run_ok_def)
  have b1: "\<forall>x\<in>set xs. before x r1" "before r1 new" using bef assms(3) by (auto simp: r1_def before_def)
  have wf1: "runs_wf (xs @ [r1])" using bef ok1 b1 by simp
  have f: "front new zs" using assms(2,4) bef by (auto simp: front_def before_def)
  have bn: "\<forall>x\<in>set (xs @ [r1]). before x new" using bef b1 assms(3) by (auto simp: before_def)
  have i: "insert_normalized k h run (length (xs @ [r1])) new = (True, run', h')" "runs run = (xs @ [r1]) @ zs"
    using assms(5,6) by (simp_all add: r1_def)
  note ins = insert_normalized_ok [OF i f wf1 bn]
  have map1: "run_map (runs run') = override (override (run_map (xs @ zs)) r1) new"
    using ins(2) run_map_mid [OF b1(1), of zs] by simp
  have map0: "run_map (xs @ r # zs) = override (run_map (xs @ zs)) r" by (rule run_map_mid [OF bef(1)])
  from ok assms(2) less_imp_le [OF assms(3)] assms(4) show ?thesis
  proof (cases rule: split_tail_cases)
    case none
    have "override (override M r1) new = override (override M r) new" for M
      using none(2) assms(3,4) by (auto simp: fun_eq_iff override_def covers_def r1_def image_lcn_def)
    then show ?thesis using none(1) ins(1) map1 map0 by (simp add: add_post_def)
  next
    case (some t)
    have "override (override (override M r1) new) t = override (override M r) new" for M
      using some(2-5) ok assms(2-4)
      by (auto simp: fun_eq_iff override_def covers_def r1_def image_lcn_def run_ok_def)
    moreover have "runs_wf ((xs @ [r1]) @ new # zs)"
      using wf1 assms(1,2) bn b1 some(2,3,4)
      by (simp add: r1_def) (auto simp: before_def run_ok_def)
    then have "r_vcn ` set (runs run') \<subseteq> r_vcn ` set ((xs @ [r1]) @ new # zs)" by (rule ins(3))
    moreover have "r_vcn t \<notin> r_vcn ` set ((xs @ [r1]) @ new # zs)"
      using bef assms(2,3) some(2,3,4) by (fastforce simp: r1_def before_def run_ok_def)
    moreover have "r_vcn new < r_vcn t" using some(3) assms(2) by (simp add: run_ok_def)
    ultimately show ?thesis using some(1,2) ins(1) map1 map0 by (auto simp: add_post_def)
  qed
qed

lemma add_replace:
  assumes "runs_wf (xs @ r # zs)" and "run_ok new" and "r_vcn r = r_vcn new" and "relocatable (xs @ r # zs) new"
    and "runs run = xs @ extend_run (r\<lparr>r_lcn := r_lcn new\<rparr>) (r_vcn new) (r_len new) # zs"
  shows "add_post (xs @ r # zs) new (runs (normalize_runs run True (length xs)))
    (split_tail r (u32 (sub32 (r_vcn new) (r_vcn r) + r_len new)))"
proof -
  define r' where "r' = extend_run (r\<lparr>r_lcn := r_lcn new\<rparr>) (r_vcn new) (r_len new)"
  have ok: "run_ok r" and bef: "\<forall>x\<in>set xs. before x r" "runs_wf xs" "runs_wf zs" "\<forall>z\<in>set zs. before r z"
    using assms(1) by auto
  have "run_end (r\<lparr>r_lcn := r_lcn new\<rparr>) = r_vcn r + r_len r" using ok by (simp add: run_end_def run_ok_def u32_id)
  then have r': "r' = r\<lparr>r_lcn := r_lcn new, r_len := max (r_len r) (r_len new)\<rparr>"
    using ok assms(2,3) by (auto simp: r'_def extend_run_def run_ok_def u32_id sub32_def max_def)
  have ok': "run_ok r'"
    using ok assms(2-4) by (auto simp: r' run_ok_def max_def relocatable_def)
  have b: "\<forall>x\<in>set xs. before x r'" using bef by (simp add: r' before_def)
  have f: "front r' zs" using ok' bef by (auto simp: front_def r' before_def)
  note n = normalize_inrange [OF f bef(2) b, of run]
  have wf': "runs_wf (runs (normalize_runs run True (length xs)))"
    and map': "run_map (runs (normalize_runs run True (length xs))) = override (run_map (xs @ zs)) r'"
    using n assms(5) run_map_mid [OF b, of zs] by (simp_all add: r'_def)
  have map0: "run_map (xs @ r # zs) = override (run_map (xs @ zs)) r" by (rule run_map_mid [OF bef(1)])
  have "r_vcn r \<le> r_vcn new" "r_vcn new < r_vcn r + r_len r" using ok assms(3) by (simp_all add: run_ok_def)
  with ok assms(2) show ?thesis
  proof (cases rule: split_tail_cases)
    case none
    have "override M r' = override (override M r) new" for M
      using none(2) assms(3) by (auto simp: fun_eq_iff override_def covers_def r' image_lcn_def max_def)
    then show ?thesis using none(1) wf' map' map0 by (simp add: add_post_def)
  next
    case (some t)
    have "override (override M r') t = override (override M r) new" for M
      using some(2-5) ok assms(2,3)
      by (auto simp: fun_eq_iff override_def covers_def r' image_lcn_def run_ok_def max_def)
    moreover have "runs_wf (xs @ r' # zs)"
      using assms(1,3) b ok' some(2,3,4) by (auto simp: before_def r' run_ok_def max_def)
    then have "r_vcn ` set (runs (normalize_runs run True (length xs))) \<subseteq> r_vcn ` set (xs @ r' # zs)"
      using normalize_starts [of run] assms(5) by (simp add: r'_def)
    moreover have "r_vcn t \<notin> r_vcn ` set (xs @ r' # zs)"
      using bef assms(2,3) some(2,3,4) by (fastforce simp: r' before_def run_ok_def)
    moreover have "r_vcn new < r_vcn t" using some(3) assms(2) by (simp add: run_ok_def)
    ultimately show ?thesis using some(1,2) wf' map' map0 by (auto simp: add_post_def)
  qed
qed

lemma run_add_once_ok:
  assumes "runs_wf (runs run)" and "run_ok new" and "relocatable (runs run) new"
    and "run_add_once k h run (r_vcn new) (r_lcn new) (r_len new) = (True, run', tail, h')"
  shows "add_post (runs run) new (runs run') tail"
proof -
  have new: "\<lparr>r_vcn = r_vcn new, r_len = r_len new, r_lcn = r_lcn new\<rparr> = new" by simp
  from assms(1) show ?thesis
  proof (cases rule: run_lookup_cases [where v = "r_vcn new"])
    case (hit xs r zs)
    have ok: "run_ok r" "runs_wf (xs @ r # zs)" using assms(1) hit(1) by auto
    have nth: "runs run ! length xs = r" "\<And>y. (runs run)[length xs := y] = xs @ y # zs" using hit(1) by simp_all
    have s: "sub32 (r_vcn new) (r_vcn r) = r_vcn new - r_vcn r" using hit(3) by (simp add: sub32_def)
    have u: "u32 (r_lcn r + (r_vcn new - r_vcn r)) = r_lcn r + (r_vcn new - r_vcn r)" if "r_lcn r \<noteq> SPARSE_LCN"
      using ok hit that by (auto simp: run_ok_def u32_id)
    show ?thesis
    proof (cases "(r_lcn new = SPARSE_LCN) \<noteq> (r_lcn r = SPARSE_LCN)
        \<or> r_lcn new \<noteq> SPARSE_LCN \<and> r_lcn new \<noteq> u32 (r_lcn r + sub32 (r_vcn new) (r_vcn r))")
      case mismatch: True
      show ?thesis
      proof (cases "r_vcn r < r_vcn new")
        case True
        let ?run = "run\<lparr>runs := xs @ r\<lparr>r_len := r_vcn new - r_vcn r\<rparr> # zs\<rparr>"
        have "insert_normalized k h ?run (Suc (length xs)) new = (True, run', h')"
          and "tail = split_tail r (u32 (sub32 (r_vcn new) (r_vcn r) + r_len new))"
          using assms(4) True mismatch
          by (auto simp: run_add_once_def hit(2) nth new s Let_def split: prod.splits if_splits)
        then show ?thesis
          using add_split [OF ok(2) assms(2) True hit(4), of ?run k h run' h'] hit(1) by simp
      next
        case False
        then have eq: "r_vcn r = r_vcn new" using hit(3) by simp
        have s0: "sub32 (r_vcn new) (r_vcn new) = 0" by (simp add: sub32_def)
        let ?run = "run\<lparr>runs := xs @ extend_run (r\<lparr>r_lcn := r_lcn new\<rparr>) (r_vcn new) (r_len new) # zs\<rparr>"
        have "run' = normalize_runs ?run True (length xs)"
          and "tail = split_tail r (u32 (sub32 (r_vcn new) (r_vcn r) + r_len new))"
          using assms(4) eq mismatch
          by (auto simp: run_add_once_def hit(2) nth new s0 Let_def split: prod.splits if_splits)
        then show ?thesis
          using add_replace [OF ok(2) assms(2) eq, of ?run] assms(3) hit(1) by simp
      qed
    next
      case match: False
      let ?run = "run\<lparr>runs := xs @ extend_run r (r_vcn new) (r_len new) # zs\<rparr>"
      have "run' = normalize_runs ?run True (length xs)" "tail = None"
        using assms(4) match by (auto simp: run_add_once_def hit(2) nth new Let_def split: if_splits)
      moreover have "\<forall>z\<in>set zs. r_vcn new \<le> r_vcn z" using ok(2) hit(4) by (auto simp: before_def)
      ultimately show ?thesis
        using add_extend [OF ok(2) assms(2) hit(3), of ?run] hit(1,4) match s u by auto
    qed
  next
    case (miss xs ys)
    have wf: "runs_wf xs" "runs_wf ys" using assms(1) miss(1) by auto
    show ?thesis
    proof (cases "0 < length xs \<and> continues (runs run ! (length xs - 1)) (r_vcn new) (r_lcn new)")
      case True
      then obtain ws t where xs: "xs = ws @ [t]" by (metis length_0_conv less_numeral_extra(3) rev_exhaust)
      have nth: "runs run ! length ws = t" "\<And>y. (runs run)[length ws := y] = ws @ y # ys"
        using miss(1) xs by (simp_all add: nth_append list_update_append)
      have wft: "runs_wf (ws @ t # ys)" "run_ok t" using assms(1) miss(1) xs by auto
      have c: "r_vcn new = r_vcn t + r_len t" "(r_lcn new = SPARSE_LCN) = (r_lcn t = SPARSE_LCN)"
        "r_lcn new = SPARSE_LCN \<or> r_lcn new = r_lcn t + r_len t"
        "r_lcn new = SPARSE_LCN \<or> r_lcn new = u32 (r_lcn t + r_len t)"
        using True wft nth xs by (auto simp: continues_def run_ok_def u32_id run_end_def)
      have s: "sub32 (r_vcn new) (r_vcn t) = r_len t" using c(1) by (simp add: sub32_def)
      let ?run = "run\<lparr>runs := ws @ extend_run t (r_vcn new) (r_len new) # ys\<rparr>"
      have "run' = normalize_runs ?run True (length ws)" "tail = None"
        using assms(4) True c(2,4) xs
        by (auto simp: run_add_once_def miss(2) nth s Let_def split: if_splits)
      moreover have "\<forall>y\<in>set ys. r_vcn new \<le> r_vcn y" using miss(4) by auto
      ultimately show ?thesis
        using add_extend [OF wft(1) assms(2), of ?run] miss(1) c xs by auto
    next
      case False
      have i: "insert_normalized k h run (length xs) new = (True, run', h')" "tail = None"
        using assms(4) False by (auto simp: run_add_once_def miss(2) new Let_def split: prod.splits if_splits)
      have "front new ys" using assms(2) wf miss(4) by (auto simp: front_def)
      moreover have "\<forall>x\<in>set xs. before x new" using miss(3) by (simp add: before_def)
      ultimately show ?thesis
        using insert_normalized_ok [OF i(1) miss(1)] wf(1) i(2) miss(1) by (simp add: add_post_def)
    qed
  qed
qed

section \<open>The whole operation\<close>

definition kvmalloc_succeeds :: "'h kernel \<Rightarrow> bool" where
  "kvmalloc_succeeds k = (\<forall>h n. fst (kvmalloc k h n))"

lemma insert_normalized_succeeds:
  "kvmalloc_succeeds k \<Longrightarrow> fst (insert_normalized k h run i r)"
  by (auto simp: insert_normalized_def insert_run_def kvmalloc_succeeds_def Let_def split: prod.splits)
    (metis fst_conv)

text \<open>Every activation ends with an insertion or with a consolidation of a changed array.\<close>

lemma run_add_once_shape:
  assumes "run_add_once k h run vcn lcn len = (ok, run', tail, h')" and "runs_wf (runs run)"
  obtains (insert) rs i r where "insert_normalized k h (run\<lparr>runs := rs\<rparr>) i r = (ok, run', h')"
      "length rs = length (runs run)" "i \<le> length (runs run)"
  | (change) rs i where "ok" "run' = normalize_runs (run\<lparr>runs := rs\<rparr>) True i" "length rs = length (runs run)"
proof -
  obtain found i where l: "run_lookup (runs run) vcn = (found, i)" by fastforce
  note bounds = run_lookup_bounds [OF assms(2) l]
  let ?new = "\<lparr>r_vcn = vcn, r_len = len, r_lcn = lcn\<rparr>"
  show ?thesis
  proof (cases "found \<or> i > 0 \<and> continues (runs run ! (i - 1)) vcn lcn")
    case False
    then have "insert_normalized k h (run\<lparr>runs := runs run\<rparr>) i ?new = (ok, run', h')"
      using assms(1) by (auto simp: run_add_once_def l Let_def split: prod.splits)
    then show ?thesis using bounds(1) by (intro insert) auto
  next
    case True
    define j where "j = (if found then i else i - 1)"
    have j: "j + 1 \<le> length (runs run)" using True bounds by (auto simp: j_def)
    have sel: "(if \<not> found \<and> 0 < i \<and> continues (runs run ! (i - 1)) vcn lcn then (True, i - 1) else (found, i)) = (True, j)"
      using True by (auto simp: j_def)
    note once = assms(1) [unfolded run_add_once_def l Let_def prod.case sel]
    have "(\<exists>x. insert_normalized k h (run\<lparr>runs := (runs run)[j := x]\<rparr>) (j + 1) ?new = (ok, run', h'))
      \<or> ok \<and> (\<exists>x. run' = normalize_runs (run\<lparr>runs := (runs run)[j := x]\<rparr>) True j)"
      using once by (fastforce split: if_splits prod.splits)
    then show ?thesis using j insert [of _ "j + 1" ?new] change [of _ j] by (metis length_list_update)
  qed
qed

lemma run_add_once_succeeds:
  assumes "kvmalloc_succeeds k" and "runs_wf (runs run)"
  shows "fst (run_add_once k h run vcn lcn len)"
proof -
  obtain ok run' tail h' where once: "run_add_once k h run vcn lcn len = (ok, run', tail, h')"
    by (rule prod_cases4)
  from once assms(2) show ?thesis
  proof (cases rule: run_add_once_shape)
    case (insert rs i r)
    then show ?thesis using insert_normalized_succeeds [OF assms(1), of h "run\<lparr>runs := rs\<rparr>" i r] once by simp
  next
    case change
    then show ?thesis using once by simp
  qed
qed

definition blksize_bits_ok :: "'h kernel \<Rightarrow> bool" where
  "blksize_bits_ok k = (\<forall>n. n \<le> 2 * 2 ^ blksize_bits k n)"

lemma normalize_fits: "runs_fit run \<Longrightarrow> runs_fit (normalize_runs run b i)"
  using run_consolidate_length [of "runs run"] run_consolidate_length [of "run_consolidate (runs run) j" for j]
  by (auto simp: runs_fit_def normalize_runs_def Let_def) (meson mult_le_mono1 order_trans)+

lemma insert_run_fits:
  assumes "insert_run k h run i r = (ok, run', h')" and "runs_fit run" and "blksize_bits_ok k" and "i \<le> length (runs run)"
  shows "runs_fit run'"
proof -
  define used where "used = length (runs run) * sizeof_ntfs_run"
  have used: "used \<le> allocated run" "used = 0 \<or> 12 \<le> used"
    using assms(2) by (cases "runs run"; simp add: runs_fit_def used_def)+
  have "used \<le> 2 * 2 ^ blksize_bits k used" using assms(3) by (simp add: blksize_bits_ok_def)
  then have "used + 12 \<le> grow_bytes k run used"
    using used by (auto simp: grow_bytes_def power_add)
  then show ?thesis
    using assms(1,2,4)
    by (auto simp: insert_run_def runs_fit_def used_def Let_def algebra_simps split: prod.splits if_splits)
qed

lemma insert_normalized_fits:
  assumes "insert_normalized k h run i r = (ok, run', h')" and "runs_fit run" and "blksize_bits_ok k" and "i \<le> length (runs run)"
  shows "runs_fit run'"
  using assms(1) insert_run_fits [OF _ assms(2-4), of h r] normalize_fits
  by (auto simp: insert_normalized_def split: prod.splits if_splits)

lemma run_add_once_fits:
  assumes "run_add_once k h run (r_vcn new) (r_lcn new) (r_len new) = (ok, run', tail, h')" and "runs_fit run"
    and "blksize_bits_ok k" and "runs_wf (runs run)"
  shows "runs_fit run'"
  using assms(1,4)
proof (cases rule: run_add_once_shape)
  case (insert rs i r)
  then show ?thesis using insert_normalized_fits [OF insert(1) _ assms(3)] assms(2) by (simp add: runs_fit_def)
next
  case (change rs i)
  then show ?thesis using normalize_fits [of "run\<lparr>runs := rs\<rparr>"] assms(2) by (simp add: runs_fit_def)
qed

lemma run_add_entry_spec:
  assumes "runs_wf (runs run)" and "run_ok new" and "relocatable (runs run) new"
  shows "\<exists>ok run' h'. run_add_entry k h run (r_vcn new) (r_lcn new) (r_len new) = Some (ok, run', h')
    \<and> (ok \<longrightarrow> runs_wf (runs run') \<and> run_map (runs run') = override (run_map (runs run)) new)
    \<and> (kvmalloc_succeeds k \<longrightarrow> ok)
    \<and> (runs_fit run \<and> blksize_bits_ok k \<longrightarrow> runs_fit run')"
  using assms
proof (induction "2 ^ 32 - r_vcn new" arbitrary: run new h rule: less_induct)
  case less
  obtain ok run1 tail h1 where once: "run_add_once k h run (r_vcn new) (r_lcn new) (r_len new) = (ok, run1, tail, h1)"
    by (metis prod_cases4)
  note unfold = run_add_entry.simps [of k h run "r_vcn new" "r_lcn new" "r_len new"]
  have fits: "runs_fit run \<and> blksize_bits_ok k \<longrightarrow> runs_fit run1"
    using run_add_once_fits [OF once _ _ less.prems(1)] by blast
  have succ: "kvmalloc_succeeds k \<Longrightarrow> ok" using run_add_once_succeeds [OF _ less.prems(1), of k h] once by (metis fst_conv)
  show ?case
  proof (cases ok)
    case False
    then show ?thesis using fits succ by (auto simp: unfold once)
  next
    case True
    then have post: "add_post (runs run) new (runs run1) tail"
      using run_add_once_ok [OF less.prems] once by simp
    show ?thesis
    proof (cases tail)
      case None
      then show ?thesis using True post fits by (auto simp: unfold once add_post_def)
    next
      case (Some t)
      then have t: "runs_wf (runs run1)" "run_ok t" "r_vcn new < r_vcn t" "r_vcn t \<notin> r_vcn ` set (runs run1)"
        "override (run_map (runs run1)) t = override (run_map (runs run)) new"
        using post by (simp_all add: add_post_def)
      have "2 ^ 32 - r_vcn t < 2 ^ 32 - r_vcn new" using t(2,3) by (auto simp: run_ok_def)
      moreover have "relocatable (runs run1) t" unfolding relocatable_def using t(4) by (metis image_eqI)
      ultimately obtain ok2 run2 h2 where
        "run_add_entry k h1 run1 (r_vcn t) (r_lcn t) (r_len t) = Some (ok2, run2, h2)"
        "ok2 \<longrightarrow> runs_wf (runs run2) \<and> run_map (runs run2) = override (run_map (runs run1)) t"
        "kvmalloc_succeeds k \<longrightarrow> ok2" "runs_fit run1 \<and> blksize_bits_ok k \<longrightarrow> runs_fit run2"
        using less.hyps [of t run1 h1] t(1,2) by blast
      then show ?thesis using True Some t(5) fits by (auto simp: unfold once)
    qed
  qed
qed

end
