(* ===== verification/Ntfs_Collapse.thy ===== *)
theory Ntfs_Collapse
  imports Ntfs_Add
begin

text \<open>
  \<^verbatim>\<open>run_collapse_range\<close> of \<^verbatim>\<open>fs/ntfs3/run.c\<close>, the helper of \<^verbatim>\<open>fallocate(FALLOC_FL_COLLAPSE_RANGE)\<close>:
  the clusters of the range are removed from the function of the list and everything behind moves down.
\<close>

section \<open>Collapsing a range\<close>

text \<open>
  The loop of \<^verbatim>\<open>run_collapse_range\<close> over the runs behind the start: the change of one run, and the
  number of runs up to the last one that lies in the range, which are removed.
\<close>

definition collapse_run :: "nat \<Rightarrow> nat \<Rightarrow> ntfs_run \<Rightarrow> ntfs_run" where
  "collapse_run len fin r =
     (if r_vcn r \<ge> fin then r\<lparr>r_vcn := sub32 (r_vcn r) len\<rparr>
      else if run_end r \<le> fin then r
      else
        let d = fin - r_vcn r in
        r\<lparr>r_lcn := (if r_lcn r \<noteq> SPARSE_LCN then u32 (r_lcn r + d) else r_lcn r),
          r_len := sub32 (r_len r) d, r_vcn := sub32 (r_vcn r) (sub32 len d)\<rparr>)"

fun eat_count :: "nat \<Rightarrow> ntfs_run list \<Rightarrow> nat" where
  "eat_count fin [] = 0"
| "eat_count fin (r # rs) =
     (let c = eat_count fin rs in
      if c > 0 then c + 1 else if r_vcn r < fin \<and> run_end r \<le> fin then 1 else 0)"

definition collapse_tail :: "nat \<Rightarrow> nat \<Rightarrow> ntfs_run list \<Rightarrow> ntfs_run list" where
  "collapse_tail len fin rs = drop (eat_count fin rs) (map (collapse_run len fin) rs)"

definition collapse_from :: "nat \<Rightarrow> nat \<Rightarrow> ntfs_run list \<Rightarrow> nat \<Rightarrow> ntfs_run list" where
  "collapse_from len fin rs start = take start rs @ collapse_tail len fin (drop start rs)"

partial_function (option) run_collapse_range ::
    "'h kernel \<Rightarrow> 'h \<Rightarrow> runs_tree \<Rightarrow> nat \<Rightarrow> nat \<Rightarrow> (bool \<times> runs_tree \<times> 'h) option" where
  "run_collapse_range k h run vcn len =
     (let (found, index) = run_lookup (runs run) vcn in
      if \<not> found then Some (True, run, h)
      else
        let r = runs run ! index; fin = u32 (vcn + len) in
        if vcn > r_vcn r then
          if run_end r \<le> fin then
            Some (True, run\<lparr>runs := collapse_from len fin ((runs run)[index := r\<lparr>r_len := vcn - r_vcn r\<rparr>]) (index + 1)\<rparr>, h)
          else if r_lcn r = SPARSE_LCN then
            Some (True, run\<lparr>runs := collapse_from len fin ((runs run)[index := r\<lparr>r_len := sub32 (r_len r) len\<rparr>]) (index + 1)\<rparr>, h)
          else
            case run_add_entry k h run vcn SPARSE_LCN len of
              None \<Rightarrow> None
            | Some (ok, run, h) \<Rightarrow>
                if \<not> ok then Some (False, run, h) else run_collapse_range k h run vcn len
        else Some (True, run\<lparr>runs := collapse_from len fin (runs run) index\<rparr>, h))"

lemma collapse_run_shift:
  "fin \<le> r_vcn r \<Longrightarrow> len \<le> fin \<Longrightarrow> collapse_run len fin r = r\<lparr>r_vcn := r_vcn r - len\<rparr>"
  by (simp add: collapse_run_def sub32_def)

lemma collapse_shift:
  assumes "runs_wf rs" and "\<forall>r\<in>set rs. vcn + len \<le> r_vcn r"
  shows "eat_count (vcn + len) rs = 0" and "runs_wf (map (collapse_run len (vcn + len)) rs)"
    and "\<forall>r\<in>set (map (collapse_run len (vcn + len)) rs). vcn \<le> r_vcn r"
    and "run_map (map (collapse_run len (vcn + len)) rs) v = (if v < vcn then None else run_map rs (v + len))"
proof -
  let ?c = "collapse_run len (vcn + len)"
  have c: "?c r = r\<lparr>r_vcn := r_vcn r - len\<rparr>" if "r \<in> set rs" for r
    using assms(2) that by (simp add: collapse_run_shift)
  show "eat_count (vcn + len) rs = 0" using assms(2) by (induction rs) auto
  show "\<forall>r\<in>set (map ?c rs). vcn \<le> r_vcn r" using assms(2) by (fastforce simp: c)
  show "runs_wf (map ?c rs)" using assms c
  proof (induction rs)
    case (Cons r rs)
    then have "r_vcn r \<ge> len" "\<forall>s\<in>set rs. r_vcn s \<ge> len" by fastforce+
    then show ?case using Cons by (auto simp: run_ok_def before_def)
  qed simp
  show "run_map (map ?c rs) v = (if v < vcn then None else run_map rs (v + len))" using assms c
  proof (induction rs)
    case (Cons r rs)
    then have "vcn + len \<le> r_vcn r" by simp
    then show ?case using Cons by (auto simp: covers_def image_lcn_def)
  qed simp
qed

lemma collapse_tail_ok:
  assumes "runs_wf rs" and "\<forall>r\<in>set rs. vcn \<le> r_vcn r" and "0 < len" and "vcn + len < 2 ^ 32"
  shows "runs_wf (collapse_tail len (vcn + len) rs)
    \<and> (\<forall>r\<in>set (collapse_tail len (vcn + len) rs). vcn \<le> r_vcn r)
    \<and> (\<forall>v. run_map (collapse_tail len (vcn + len) rs) v = (if v < vcn then None else run_map rs (v + len)))"
  using assms(1,2)
proof (induction rs)
  case Nil
  then show ?case by (simp add: collapse_tail_def)
next
  case (Cons r rs)
  let ?fin = "vcn + len"
  have wf: "run_ok r" "runs_wf rs" "\<forall>s\<in>set rs. before r s" "vcn \<le> r_vcn r" "\<forall>s\<in>set rs. vcn \<le> r_vcn s"
    using Cons.prems by auto
  consider (shift) "?fin \<le> r_vcn r" | (eat) "r_vcn r < ?fin" "r_vcn r + r_len r \<le> ?fin"
    | (cut) "r_vcn r < ?fin" "?fin < r_vcn r + r_len r" by linarith
  then show ?case
  proof cases
    case shift
    have "\<forall>s\<in>set (r # rs). ?fin \<le> r_vcn s" using shift wf(3) by (fastforce simp: before_def)
    note s = collapse_shift [OF Cons.prems(1) this]
    then show ?thesis unfolding collapse_tail_def s(1) drop_0 by blast
  next
    case eat
    then have "eat_count ?fin (r # rs) = Suc (eat_count ?fin rs)" using wf(1) by (simp add: Let_def)
    then have "collapse_tail len ?fin (r # rs) = collapse_tail len ?fin rs"
      by (simp add: collapse_tail_def)
    moreover have "run_map (r # rs) (v + len) = run_map rs (v + len)" if "\<not> v < vcn" for v
      using that eat by (simp add: covers_def)
    ultimately show ?thesis using Cons.IH wf by (simp del: run_map.simps)
  next
    case cut
    have ge: "\<forall>s\<in>set rs. ?fin \<le> r_vcn s" using cut wf(3) by (fastforce simp: before_def)
    note s = collapse_shift [OF wf(2) ge]
    define r' where "r' = collapse_run len ?fin r"
    have d: "sub32 len (?fin - r_vcn r) = r_vcn r - vcn" "r_vcn r - (r_vcn r - vcn) = vcn"
      using cut wf(4) by (auto simp: sub32_def)
    have r': "r' = r\<lparr>r_lcn := (if r_lcn r \<noteq> SPARSE_LCN then r_lcn r + (?fin - r_vcn r) else r_lcn r),
        r_len := r_len r - (?fin - r_vcn r), r_vcn := vcn\<rparr>"
      using wf(1,4) cut d by (auto simp: r'_def collapse_run_def Let_def sub32_def run_ok_def u32_id)
    have "collapse_tail len ?fin (r # rs) = r' # map (collapse_run len ?fin) rs"
      using cut wf(1) s(1) by (simp add: collapse_tail_def Let_def r'_def)
    moreover have "run_ok r'" using wf(1,4) cut by (auto simp: r' run_ok_def)
    moreover have "\<forall>x\<in>set (map (collapse_run len ?fin) rs). before r' x"
    proof -
      have "r_vcn r' + r_len r' \<le> r_vcn x - len \<and> collapse_run len ?fin x = x\<lparr>r_vcn := r_vcn x - len\<rparr>"
        if "x \<in> set rs" for x
        using that wf(3,4) ge cut by (auto simp: r' before_def collapse_run_def sub32_def trans_le_add2)
      then show ?thesis by (auto simp: before_def)
    qed
    moreover have "run_map (r' # map (collapse_run len ?fin) rs) v = (if v < vcn then None else run_map (r # rs) (v + len))" for v
      using wf(1,4) cut by (auto simp: s(4) r' covers_def image_lcn_def run_ok_def)
    ultimately show ?thesis using s(2,3) by (auto simp: r' simp del: run_map.simps)
  qed
qed


lemma collapse_from_ok:
  assumes "runs_wf (xs @ ys)" and "\<forall>y\<in>set ys. vcn \<le> r_vcn y" and "\<forall>x\<in>set xs. r_vcn x + r_len x \<le> vcn"
    and "0 < len" and "vcn + len < 2 ^ 32"
  shows "runs_wf (collapse_from len (vcn + len) (xs @ ys) (length xs))
    \<and> run_map (collapse_from len (vcn + len) (xs @ ys) (length xs)) =
      (\<lambda>v. if v < vcn then run_map xs v else run_map ys (v + len))"
proof -
  have wf: "runs_wf xs" "runs_wf ys" using assms(1) by auto
  note t = collapse_tail_ok [OF wf(2) assms(2,4,5)]
  have "run_map xs v = None" if "\<not> v < vcn" for v
    using assms(3) that by (intro run_map_behind) fastforce
  then show ?thesis
    using t wf(1) assms(3)
    by (fastforce simp: collapse_from_def run_map_append before_def fun_eq_iff split: option.split)
qed

text \<open>No run is split when the run at the start is sparse, starts there or ends in the range.\<close>

lemma run_collapse_direct:
  assumes "runs_wf (xs @ r # zs)" and "runs run = xs @ r # zs" and "run_lookup (runs run) vcn = (True, length xs)"
    and "r_vcn r \<le> vcn" and "vcn < r_vcn r + r_len r" and "0 < len" and "vcn + len < 2 ^ 32"
    and "r_vcn r = vcn \<or> r_lcn r = SPARSE_LCN \<or> r_vcn r + r_len r \<le> vcn + len"
  shows "\<exists>run'. run_collapse_range k h run vcn len = Some (True, run', h) \<and> runs_wf (runs run')
    \<and> run_map (runs run') = (\<lambda>v. if v < vcn then run_map (runs run) v else run_map (runs run) (v + len))"
proof -
  have wf: "run_ok r" "\<forall>x\<in>set xs. before x r" "runs_wf xs" "runs_wf zs" "\<forall>z\<in>set zs. before r z"
    using assms(1) by auto
  have fin: "u32 (vcn + len) = vcn + len" using assms(7) by (simp add: u32_id)
  note unfold = run_collapse_range.simps [of k h run vcn len]
  have x: "\<forall>x\<in>set xs. r_vcn x + r_len x \<le> vcn" using wf(2) assms(4) by (fastforce simp: before_def)
  have z: "\<forall>z\<in>set zs. vcn \<le> r_vcn z" using wf(5) assms(5) by (fastforce simp: before_def)
  have map: "run_map (runs run) = override (run_map (xs @ zs)) r" using assms(2) run_map_mid [OF wf(2)] by simp
  have xNone: "run_map xs v = None" if "r_vcn r \<le> v" for v
    using wf(2) that by (intro run_map_behind) (fastforce simp: before_def)
  have zNone: "run_map zs v = None" if "v < r_vcn r + r_len r" for v
    using wf(5) that by (intro run_map_ahead) (fastforce simp: before_def)
  have app: "run_map (runs run) v = (if covers r v then Some (image_lcn r v) else
      case run_map xs v of None \<Rightarrow> run_map zs v | Some l \<Rightarrow> Some l)" for v
    by (simp add: map override_def run_map_append)
  show ?thesis
  proof (cases "r_vcn r = vcn")
    case True
    then have c: "run_collapse_range k h run vcn len =
        Some (True, run\<lparr>runs := collapse_from len (vcn + len) (xs @ r # zs) (length xs)\<rparr>, h)"
      using assms(2,3) fin by (simp add: unfold nth_append)
    have "run_map (runs run) v = run_map xs v" if "v < vcn" for v
      using that True zNone [of v] by (auto simp: app covers_def split: option.split)
    moreover have "run_map (runs run) (v + len) = run_map (r # zs) (v + len)" if "\<not> v < vcn" for v
      using that True xNone [of "v + len"] by (auto simp: app)
    ultimately show ?thesis
      using c collapse_from_ok [OF assms(1) _ x assms(6,7)] z True by (simp add: fun_eq_iff del: run_map.simps)
  next
    case False
    then have lt: "r_vcn r < vcn" using assms(4) by simp
    define r' where "r' = (if r_vcn r + r_len r \<le> vcn + len then r\<lparr>r_len := vcn - r_vcn r\<rparr> else r\<lparr>r_len := r_len r - len\<rparr>)"
    have c: "run_collapse_range k h run vcn len =
        Some (True, run\<lparr>runs := collapse_from len (vcn + len) ((xs @ [r']) @ zs) (length (xs @ [r']))\<rparr>, h)"
      using assms(2,3,8) lt fin wf(1) False
      by (auto simp: unfold nth_append list_update_append r'_def sub32_def Let_def)
    have r': "r_vcn r' = r_vcn r" "r_lcn r' = r_lcn r" "run_ok r'" "\<forall>x\<in>set xs. before x r'" "\<forall>z\<in>set zs. before r' z"
      using lt assms(5) wf by (auto simp: r'_def run_ok_def before_def)
    have xz: "\<forall>x\<in>set xs. \<forall>z\<in>set zs. before x z" using assms(1) by auto
    show ?thesis
    proof (cases "r_vcn r + r_len r \<le> vcn + len")
      case True
      have "\<forall>x\<in>set (xs @ [r']). r_vcn x + r_len x \<le> vcn" using x True lt by (simp add: r'_def)
      then have "runs_wf (collapse_from len (vcn + len) ((xs @ [r']) @ zs) (length (xs @ [r'])))"
        and m: "run_map (collapse_from len (vcn + len) ((xs @ [r']) @ zs) (length (xs @ [r']))) =
          (\<lambda>v. if v < vcn then run_map (xs @ [r']) v else run_map zs (v + len))"
        using collapse_from_ok [of "xs @ [r']" zs vcn len] wf r' xz z assms(6,7) by simp_all
      moreover have "run_map (runs run) v = run_map (xs @ [r']) v" if "v < vcn" for v
        using that zNone [of v] xNone [of v] True assms(5)
        by (auto simp: app run_map_append covers_def image_lcn_def r'_def split: option.split)
      moreover have "run_map (runs run) (v + len) = run_map zs (v + len)" if "\<not> v < vcn" for v
        using that xNone [of "v + len"] True lt by (auto simp: app covers_def)
      ultimately show ?thesis using c by (auto simp: fun_eq_iff)
    next
      case False
      have sp: "r_lcn r = SPARSE_LCN" using assms(8) lt False by simp
      have ge: "\<forall>z\<in>set zs. vcn + len \<le> r_vcn z" using wf(5) False by (fastforce simp: before_def)
      note sh = collapse_shift [OF wf(4) ge]
      let ?zs = "map (collapse_run len (vcn + len)) zs"
      have cf: "collapse_from len (vcn + len) ((xs @ [r']) @ zs) (length (xs @ [r'])) = xs @ r' # ?zs"
        by (simp add: collapse_from_def collapse_tail_def sh(1))
      have "before r' z" if "z \<in> set ?zs" for z
      proof -
        obtain y where y: "y \<in> set zs" "z = y\<lparr>r_vcn := r_vcn y - len\<rparr>"
          using \<open>z \<in> set ?zs\<close> ge by (auto simp: collapse_run_shift)
        then show ?thesis using bspec [OF wf(5) y(1)] False lt by (auto simp: before_def r'_def)
      qed
      moreover have "before x z" if "x \<in> set xs" "z \<in> set ?zs" for x z
        using that x sh(3) by (fastforce simp: before_def)
      ultimately have "runs_wf (xs @ r' # ?zs)" using wf(3) sh(2) r'(3,4) by simp
      moreover have "run_map (xs @ r' # ?zs) v = (if v < vcn then run_map (runs run) v else run_map (runs run) (v + len))" for v
        using zNone [of v] xNone [of v] xNone [of "v + len"] False lt sp
        by (auto simp: run_map_mid [OF r'(4)] override_def run_map_append sh(4) app covers_def image_lcn_def r'_def
            split: option.split)
      ultimately show ?thesis using c cf by (auto simp: fun_eq_iff simp del: run_map.simps)
    qed
  qed
qed

lemma run_collapse_range_spec:
  assumes "runs_wf (runs run)" and "0 < len" and "vcn + len < 2 ^ 32" and "run_map (runs run) vcn \<noteq> None"
  shows "\<exists>ok run' h'. run_collapse_range k h run vcn len = Some (ok, run', h') \<and> (kvmalloc_succeeds k \<longrightarrow> ok)
    \<and> (ok \<longrightarrow> runs_wf (runs run')
         \<and> run_map (runs run') = (\<lambda>v. if v < vcn then run_map (runs run) v else run_map (runs run) (v + len)))"
  using assms(1)
proof (cases rule: run_lookup_cases [where v = vcn])
  case (hit xs r zs)
  note direct = run_collapse_direct [OF _ _ _ _ _ assms(2,3)]
  show ?thesis
  proof (cases "r_vcn r = vcn \<or> r_lcn r = SPARSE_LCN \<or> r_vcn r + r_len r \<le> vcn + len")
    case True
    then show ?thesis using direct [of xs r zs run k h] hit assms(1) by fastforce
  next
    case False
    have ok: "run_ok r" using assms(1) hit(1) by auto
    let ?new = "\<lparr>r_vcn = vcn, r_len = len, r_lcn = SPARSE_LCN\<rparr>"
    obtain ok1 run1 h1 where add: "run_add_entry k h run vcn SPARSE_LCN len = Some (ok1, run1, h1)"
      "kvmalloc_succeeds k \<longrightarrow> ok1"
      "ok1 \<longrightarrow> runs_wf (runs run1) \<and> run_map (runs run1) = override (run_map (runs run)) ?new"
      using run_add_entry_spec [OF assms(1), of ?new k h] assms(2,3) by (auto simp: run_ok_def relocatable_def)
    have step: "run_collapse_range k h run vcn len =
        (if ok1 then run_collapse_range k h1 run1 vcn len else Some (False, run1, h1))"
      using False hit add(1) ok assms(3)
      by (subst run_collapse_range.simps) (auto simp: nth_append u32_id)
    show ?thesis
    proof (cases ok1)
      case True
      then have wf1: "runs_wf (runs run1)" and m1: "run_map (runs run1) = override (run_map (runs run)) ?new"
        using add(3) by auto
      from wf1 show ?thesis
      proof (cases rule: run_lookup_cases [where v = vcn])
        case h2: (hit ys s ws)
        have bef: "\<forall>y\<in>set ys. before y s" "run_ok s" using wf1 h2(1) by auto
        have "run_map (runs run1) vcn = Some (image_lcn s vcn)"
          using h2 by (simp add: run_map_mid [OF bef(1)] override_def covers_def)
        moreover have "run_map (runs run1) vcn = Some SPARSE_LCN"
          using assms(2) by (simp add: m1 override_def covers_def image_lcn_def)
        ultimately have "r_lcn s = SPARSE_LCN"
          using bef(2) h2(3,4) by (auto simp: image_lcn_def run_ok_def split: if_splits)
        then obtain run2 where c2: "run_collapse_range k h1 run1 vcn len = Some (True, run2, h1)" "runs_wf (runs run2)"
          "run_map (runs run2) = (\<lambda>v. if v < vcn then run_map (runs run1) v else run_map (runs run1) (v + len))"
          using direct [of ys s ws run1 k h1] h2 wf1 by metis
        have "run_map (runs run2) = (\<lambda>v. if v < vcn then run_map (runs run) v else run_map (runs run) (v + len))"
          by (auto simp: c2(3) m1 fun_eq_iff override_def covers_def)
        then show ?thesis using step True c2(1,2) by auto
      next
        case (miss ys ws)
        have "run_map (runs run1) vcn = None" using miss by (simp add: run_map_append run_map_behind run_map_ahead)
        then show ?thesis using assms(2) by (simp add: m1 override_def covers_def)
      qed
    next
      case no: False
      then show ?thesis using step add(2) by auto
    qed
  qed
next
  case (miss xs ys)
  then have "run_map (runs run) vcn = None" by (simp add: run_map_append run_map_behind run_map_ahead)
  then show ?thesis using assms(4) by simp
qed

end
