(* ===== verification/Ntfs_Pack.thy ===== *)
theory Ntfs_Pack
  imports Ntfs_Packed Ntfs_Collapse
begin

text \<open>
  \<^verbatim>\<open>run_pack\<close>, \<^verbatim>\<open>run_unpack\<close>, \<^verbatim>\<open>run_unpack_ex\<close> and \<^verbatim>\<open>run_get_highest_vcn\<close> of \<^verbatim>\<open>fs/ntfs3/run.c\<close>: the
  mapping pairs of an attribute, that is a run list as it is stored on disk.
\<close>

abbreviation (input) EOPNOTSUPP :: int where "EOPNOTSUPP \<equiv> 95"
abbreviation (input) EINVAL :: int where "EINVAL \<equiv> 22"
abbreviation (input) ENOMEM :: int where "ENOMEM \<equiv> 12"
abbreviation (input) SPARSE_LCN64 :: nat where "SPARSE_LCN64 \<equiv> 18446744073709551615"
abbreviation (input) MFT_REC_BADCLUST :: nat where "MFT_REC_BADCLUST \<equiv> 8"

definition u64_of_int :: "int \<Rightarrow> nat" where
  "u64_of_int x = nat (x mod 2 ^ 64)"

section \<open>Packing\<close>

text \<open>
  The loop of \<^verbatim>\<open>run_pack\<close>. The model returns the result, \<^verbatim>\<open>packed_vcns\<close> and the bytes written to
  \<^verbatim>\<open>run_buf\<close>; with \<^verbatim>\<open>run_buf == NULL\<close> the code computes the same numbers and writes nothing.
\<close>

function pack_loop ::
    "ntfs_run list \<Rightarrow> nat \<Rightarrow> nat \<Rightarrow> nat \<Rightarrow> nat \<Rightarrow> nat \<Rightarrow> nat \<Rightarrow> nat \<Rightarrow> nat \<Rightarrow> nat \<Rightarrow> byte list
     \<Rightarrow> int \<times> nat \<times> byte list" where
  "pack_loop rs run_buf_size evcn1 i vcn lcn len prev_lcn packed_size packed_vcns out =
     (let next_vcn = u32 (vcn + len);
          len = (if next_vcn > evcn1 then sub32 evcn1 vcn else len);
          size_size = run_packed_size (int len);
          dlcn = (if lcn = SPARSE_LCN then 0 else int lcn - int prev_lcn);
          offset_size = (if lcn = SPARSE_LCN then 0 else run_packed_size dlcn);
          prev_lcn = (if lcn = SPARSE_LCN then prev_lcn else lcn);
          tmp = s32 (u32_of_int (int run_buf_size - int packed_size - 2 - int offset_size)) in
      if tmp \<le> 0 \<or> tmp < int size_size then (int packed_size + 1, packed_vcns, out @ [0])
      else
        let out = out @ [word_of_nat size_size OR push_bit 4 (word_of_nat offset_size)]
                      @ run_pack_s64 size_size (int len) @ run_pack_s64 offset_size dlcn;
            packed_size = packed_size + 1 + offset_size + size_size;
            packed_vcns = u32 (packed_vcns + len) in
        if packed_size + 1 \<ge> run_buf_size \<or> next_vcn \<ge> evcn1
        then (int packed_size + 1, packed_vcns, out @ [0])
        else
          case run_get_entry rs (i + 1) of
            None \<Rightarrow> (- EOPNOTSUPP, packed_vcns, out)
          | Some (vcn', lcn', len') \<Rightarrow>
              if next_vcn \<noteq> vcn' then (- EOPNOTSUPP, packed_vcns, out)
              else pack_loop rs run_buf_size evcn1 (i + 1) vcn' lcn' len' prev_lcn packed_size packed_vcns out)"
  by pat_completeness auto
termination
  by (relation "measure (\<lambda>(rs, n, e, i, x). length rs - i)")
    (auto simp: run_get_entry_def Let_def split: if_splits)

declare pack_loop.simps [simp del]

definition run_pack :: "runs_tree \<Rightarrow> nat \<Rightarrow> nat \<Rightarrow> nat \<Rightarrow> int \<times> nat \<times> byte list" where
  "run_pack run svcn len run_buf_size =
     (if len = 0 then (1, 0, [0])
      else
        case run_lookup_entry run svcn of
          None \<Rightarrow> (- EOPNOTSUPP, 0, [])
        | Some (lcn, len', i) \<Rightarrow>
            pack_loop (runs run) run_buf_size (u32 (svcn + len)) i svcn lcn len' 0 0 0 [])"

section \<open>Unpacking\<close>

text \<open>
  The first argument of \<^verbatim>\<open>run_unpack\<close> is \<^verbatim>\<open>NULL\<close>, the marker \<^verbatim>\<open>RUN_DEALLOCATE\<close> or a run list. The
  bitmap of the volume is a state of any type; the operations of \<^verbatim>\<open>bitmap.c\<close> and \<^verbatim>\<open>fsntfs.c\<close> on it that
  are called here are the members of a record.
\<close>

datatype run_arg = RUN_NULL | RUN_DEALLOCATE | RUN runs_tree

record 's volume =
  nbits :: nat
  has_sb :: bool
  need_replay :: bool
  mark_as_free_ex :: "'s \<Rightarrow> nat \<Rightarrow> nat \<Rightarrow> 's"
  wnd_is_used :: "'s \<Rightarrow> nat \<Rightarrow> nat \<Rightarrow> bool"
  wnd_is_free :: "'s \<Rightarrow> nat \<Rightarrow> nat \<Rightarrow> bool"
  wnd_set_used :: "'s \<Rightarrow> nat \<Rightarrow> nat \<Rightarrow> int \<times> 's"
  ntfs_set_dirty :: "'s \<Rightarrow> 's"
  down_write_trylock :: "'s \<Rightarrow> bool"

text \<open>One packed run: the length, the logical cluster and the pointer behind it, or an error.\<close>

definition unpack_run :: "(nat \<Rightarrow> byte) \<Rightarrow> nat \<Rightarrow> nat \<Rightarrow> nat \<Rightarrow> nat \<Rightarrow> int + (nat \<times> nat \<times> nat \<times> nat)" where
  "unpack_run mem p size_size offset_size prev_lcn =
     (if size_size > 8 then Inl (- EINVAL)
      else
        let len = u64_of_int (run_unpack_s64 mem p size_size 0); p = p + size_size in
        if len = 0 then Inl (- EINVAL)
        else if offset_size = 0 then Inr (len, SPARSE_LCN64, prev_lcn, p)
        else if offset_size \<le> 8 then
          let dlcn = run_unpack_s64 mem p offset_size (if mem (p + offset_size - 1) AND 0x80 \<noteq> 0 then -1 else 0);
              p = p + offset_size in
          if dlcn = 0 then Inl (- EINVAL)
          else let lcn = u64_of_int (int prev_lcn + dlcn) in Inr (len, lcn, lcn, p)
        else Inl (- EINVAL))"

lemma unpack_run_pointer: "unpack_run mem p ss os prev = Inr (len, lcn, prev', p') \<Longrightarrow> p \<le> p'"
  by (auto simp: unpack_run_def Let_def split: if_splits)

text \<open>What is done with an unpacked run; \<open>None\<close> when adding it does not return.\<close>

definition store_run ::
    "'h kernel \<Rightarrow> 's volume \<Rightarrow> 'h \<Rightarrow> 's \<Rightarrow> run_arg \<Rightarrow> nat \<Rightarrow> nat \<Rightarrow> nat \<Rightarrow> nat \<Rightarrow> (bool \<times> run_arg \<times> 'h \<times> 's) option" where
  "store_run k sbi h s arg vcn vcn64 lcn len =
     (case arg of
        RUN_NULL \<Rightarrow> Some (True, arg, h, s)
      | RUN_DEALLOCATE \<Rightarrow> Some (True, arg, h, if lcn \<noteq> SPARSE_LCN64 then mark_as_free_ex sbi s (u32 lcn) (u32 len) else s)
      | RUN run \<Rightarrow>
          if vcn64 \<ge> vcn then
            map_option (\<lambda>(ok, run, h). (ok, RUN run, h, s)) (run_add_entry k h run (u32 vcn64) (u32 lcn) (u32 len))
          else if u64 (vcn64 + len) > vcn then
            let dlen = vcn - vcn64 in
            map_option (\<lambda>(ok, run, h). (ok, RUN run, h, s))
              (run_add_entry k h run vcn (u32 (lcn + dlen)) (u32 (sub64 len dlen)))
          else Some (True, arg, h, s))"

function unpack_loop ::
    "'h kernel \<Rightarrow> 's volume \<Rightarrow> 'h \<Rightarrow> 's \<Rightarrow> run_arg \<Rightarrow> nat \<Rightarrow> nat \<Rightarrow> (nat \<Rightarrow> byte) \<Rightarrow> nat \<Rightarrow> nat \<Rightarrow> nat \<Rightarrow> nat
     \<Rightarrow> (int \<times> run_arg \<times> 'h \<times> 's) option" where
  "unpack_loop k sbi h s arg evcn vcn mem run_last p prev_lcn vcn64 =
     (let finish = (\<lambda>p. Some (if vcn64 \<noteq> u32 (evcn + 1) then - EINVAL else int p, arg, h, s)) in
      if p < run_last then
        let size_size = unat (mem p AND 0xf); offset_size = unat (drop_bit 4 (mem p)) in
        if size_size = 0 then finish (p + 1)
        else
          case unpack_run mem (p + 1) size_size offset_size prev_lcn of
            Inl err \<Rightarrow> Some (err, arg, h, s)
          | Inr (len, lcn, prev_lcn', p') \<Rightarrow>
              let next_vcn = u64 (vcn64 + len) in
              if next_vcn > u32 (evcn + 1) then Some (- EINVAL, arg, h, s)
              else if next_vcn > 2 ^ 32 \<or> u64 (lcn + len) > 2 ^ 32 then Some (- EOPNOTSUPP, arg, h, s)
              else if lcn \<noteq> SPARSE_LCN64 \<and> u64 (lcn + len) > nbits sbi then Some (- EINVAL, arg, h, s)
              else
                case store_run k sbi h s arg vcn vcn64 lcn len of
                  None \<Rightarrow> None
                | Some (ok, arg', h', s') \<Rightarrow>
                    if \<not> ok then Some (- ENOMEM, arg', h', s')
                    else unpack_loop k sbi h' s' arg' evcn vcn mem run_last p' prev_lcn' next_vcn
      else finish p)"
  by pat_completeness auto
termination
  by (relation "measure (\<lambda>(k, sbi, h, s, arg, evcn, vcn, mem, run_last, p, x). run_last - p)")
    (auto dest!: unpack_run_pointer)

declare unpack_loop.simps [simp del]

definition run_unpack ::
    "'h kernel \<Rightarrow> 's volume \<Rightarrow> 'h \<Rightarrow> 's \<Rightarrow> run_arg \<Rightarrow> nat \<Rightarrow> nat \<Rightarrow> nat \<Rightarrow> (nat \<Rightarrow> byte) \<Rightarrow> nat
     \<Rightarrow> (int \<times> run_arg \<times> 'h \<times> 's) option" where
  "run_unpack k sbi h s arg svcn evcn vcn mem run_buf_size =
     (if u32 (evcn + 1) = svcn then Some (0, arg, h, s)
      else if evcn < svcn then Some (- EINVAL, arg, h, s)
      else unpack_loop k sbi h s arg evcn vcn mem run_buf_size 0 0 svcn)"

section \<open>Unpacking with a check of the bitmap\<close>

text \<open>The loop that marks the free clusters of a run as used.\<close>

fun mark_used_loop :: "'s volume \<Rightarrow> 's \<Rightarrow> nat list \<Rightarrow> nat \<Rightarrow> nat \<Rightarrow> nat \<Rightarrow> int \<times> nat \<times> nat \<times> 's" where
  "mark_used_loop sbi s [] lcn lcn_f len_f = (0, lcn_f, len_f, s)"
| "mark_used_loop sbi s (i # is) lcn lcn_f len_f =
     (if wnd_is_free sbi s (u32 (lcn + i)) 1
      then mark_used_loop sbi s is lcn (if len_f = 0 then u32 (lcn + i) else lcn_f) (len_f + 1)
      else if len_f \<noteq> 0 then
        let (err, s) = wnd_set_used sbi s lcn_f len_f in
        if err \<noteq> 0 then (err, lcn_f, 0, s) else mark_used_loop sbi s is lcn lcn_f 0
      else mark_used_loop sbi s is lcn lcn_f len_f)"

definition mark_run_used :: "'s volume \<Rightarrow> 's \<Rightarrow> nat \<Rightarrow> nat \<Rightarrow> int \<times> 's" where
  "mark_run_used sbi s lcn len =
     (let s = ntfs_set_dirty sbi s in
      if down_write_trylock sbi s then
        let (err, lcn_f, len_f, s) = mark_used_loop sbi s [0..<len] lcn 0 0 in
        if len_f \<noteq> 0 then wnd_set_used sbi s lcn_f len_f else (err, s)
      else (0, s))"

function check_used_loop ::
    "'s volume \<Rightarrow> 's \<Rightarrow> ntfs_run list \<Rightarrow> int \<Rightarrow> nat \<Rightarrow> nat \<Rightarrow> nat \<Rightarrow> (nat \<times> nat \<times> nat) option \<Rightarrow> int \<times> 's" where
  "check_used_loop sbi s rs ret evcn next_vcn index entry =
     (if next_vcn \<le> evcn then
        case entry of
          None \<Rightarrow> (- EINVAL, s)
        | Some (vcn, lcn, len) \<Rightarrow>
            if next_vcn \<noteq> vcn then (- EINVAL, s)
            else
              let (err, s) =
                (if lcn = SPARSE_LCN \<or> need_replay sbi \<or> wnd_is_used sbi s lcn len then (0, s)
                 else mark_run_used sbi s lcn len)
              in if err \<noteq> 0 then (err, s)
                 else check_used_loop sbi s rs ret evcn (u32 (vcn + len)) (index + 1) (run_get_entry rs (index + 1))
      else (ret, s))"
  by pat_completeness auto
termination
  by (relation "measure (\<lambda>(sbi, s, rs, ret, evcn, nx, index, entry). case entry of None \<Rightarrow> 0 | Some _ \<Rightarrow> 1 + (length rs - index))")
    (auto simp: run_get_entry_def Let_def split: if_splits option.splits)

declare check_used_loop.simps [simp del]

definition run_unpack_ex ::
    "'h kernel \<Rightarrow> 's volume \<Rightarrow> 'h \<Rightarrow> 's \<Rightarrow> run_arg \<Rightarrow> nat \<Rightarrow> nat \<Rightarrow> nat \<Rightarrow> nat \<Rightarrow> (nat \<Rightarrow> byte) \<Rightarrow> nat
     \<Rightarrow> (int \<times> run_arg \<times> 'h \<times> 's) option" where
  "run_unpack_ex k sbi h s arg ino svcn evcn vcn mem run_buf_size =
     (case run_unpack k sbi h s arg svcn evcn vcn mem run_buf_size of
        None \<Rightarrow> None
      | Some (ret, arg, h, s) \<Rightarrow>
          case arg of
            RUN run \<Rightarrow>
              if ret \<le> 0 \<or> \<not> has_sb sbi \<or> ino = MFT_REC_BADCLUST then Some (ret, arg, h, s)
              else
                let (entry, index) =
                  (case run_lookup_entry run svcn of
                     None \<Rightarrow> (None, 0)
                   | Some (lcn, len, i) \<Rightarrow> (Some (svcn, lcn, len), i));
                    (ret, s) = check_used_loop sbi s (runs run) ret evcn svcn index entry
                in Some (ret, arg, h, s)
          | _ \<Rightarrow> Some (ret, arg, h, s))"

section \<open>The highest cluster of a packed list\<close>

text \<open>
  \<^verbatim>\<open>run_get_highest_vcn\<close> gets no size: it reads until a zero byte or an error, so it is a partial
  function. \<open>Inl\<close> is the error, \<open>Inr\<close> the value of \<^verbatim>\<open>*highest_vcn\<close>.
\<close>

partial_function (option) highest_vcn_loop :: "(nat \<Rightarrow> byte) \<Rightarrow> nat \<Rightarrow> nat \<Rightarrow> (int + nat) option" where
  "highest_vcn_loop mem p vcn64 =
     (let size_size = unat (mem p AND 0xf); offset_size = unat (drop_bit 4 (mem p)) in
      if size_size = 0 then Some (Inr (sub64 vcn64 1))
      else if size_size > 8 \<or> offset_size > 8 then Some (Inl (- EINVAL))
      else
        let len = u64_of_int (run_unpack_s64 mem (p + 1) size_size 0) in
        if len = 0 then Some (Inl (- EINVAL))
        else
          let vcn64 = u64 (vcn64 + len) in
          if vcn64 > 2 ^ 32 then Some (Inl (- EINVAL))
          else highest_vcn_loop mem (p + 1 + size_size + offset_size) vcn64)"

definition run_get_highest_vcn :: "nat \<Rightarrow> (nat \<Rightarrow> byte) \<Rightarrow> (int + nat) option" where
  "run_get_highest_vcn vcn mem = highest_vcn_loop mem 0 vcn"

end
