(* ===== verification/Ntfs_Codec.thy ===== *)
theory Ntfs_Codec
  imports Ntfs_Pack
begin

text \<open>
  The round trip of the mapping pairs: packing a range of a run list and unpacking the bytes gives a run
  list with the same function on the range. The locale \<open>run_store\<close> states what unpacking needs of the
  store it fills, and \<open>run_add_entry\<close> provides it.
\<close>

section \<open>Filling a store with consecutive runs\<close>

fun consecutive :: "nat \<Rightarrow> ntfs_run list \<Rightarrow> nat \<Rightarrow> bool" where
  "consecutive v [] e = (v = e)"
| "consecutive v (r # rs) e = (r_vcn r = v \<and> run_ok r \<and> consecutive (v + r_len r) rs e)"

fun add_all :: "('h \<Rightarrow> 's \<Rightarrow> ntfs_run \<Rightarrow> (bool \<times> 's \<times> 'h) option) \<Rightarrow> 'h \<Rightarrow> 's \<Rightarrow> ntfs_run list \<Rightarrow> ('s \<times> 'h) option" where
  "add_all add h s [] = Some (s, h)"
| "add_all add h s (r # rs) =
     (case add h s r of
        Some (True, s', h') \<Rightarrow> add_all add h' s' rs
      | _ \<Rightarrow> None)"

lemma consecutive_start: "consecutive v rs e \<Longrightarrow> w < v \<Longrightarrow> run_map rs w = None"
  by (induction rs arbitrary: v) (auto simp: covers_def)

lemma consecutive_le: "consecutive v rs e \<Longrightarrow> v \<le> e"
  by (induction rs arbitrary: v) (auto dest: add_leD1)

lemma consecutive_covers: "consecutive v rs e \<Longrightarrow> v \<le> w \<Longrightarrow> w < e \<Longrightarrow> run_map rs w \<noteq> None"
  by (induction rs arbitrary: v) (auto simp: covers_def)

locale run_store =
  fixes add :: "'h \<Rightarrow> 's \<Rightarrow> ntfs_run \<Rightarrow> (bool \<times> 's \<times> 'h) option"
    and mapping :: "'s \<Rightarrow> nat \<Rightarrow> nat option"
    and inv :: "'s \<Rightarrow> bool"
  assumes add_behind: "inv s \<Longrightarrow> run_ok r \<Longrightarrow> (\<And>v. r_vcn r \<le> v \<Longrightarrow> mapping s v = None) \<Longrightarrow>
    \<exists>s' h'. add h s r = Some (True, s', h') \<and> inv s' \<and> mapping s' = override (mapping s) r"
begin

lemma add_all_consecutive:
  assumes "inv s" and "consecutive v rs e" and "\<And>w. v \<le> w \<Longrightarrow> mapping s w = None"
  shows "\<exists>s' h'. add_all add h s rs = Some (s', h') \<and> inv s'
    \<and> mapping s' = (\<lambda>w. if w < v then mapping s w else run_map rs w)"
  using assms
proof (induction rs arbitrary: s h v)
  case Nil
  then show ?case by (auto simp: fun_eq_iff)
next
  case (Cons r rs)
  have r: "r_vcn r = v" "run_ok r" "consecutive (v + r_len r) rs e" using Cons.prems(2) by auto
  obtain s1 h1 where a: "add h s r = Some (True, s1, h1)" "inv s1" "mapping s1 = override (mapping s) r"
    using add_behind [OF Cons.prems(1) r(2)] Cons.prems(3) r(1) by blast
  have "mapping s1 w = None" if "v + r_len r \<le> w" for w
    using that Cons.prems(3) [of w] r(1) by (simp add: a(3) override_def covers_def)
  from Cons.IH [OF a(2) r(3) this, of h1] obtain s2 h2 where
    b: "add_all add h1 s1 rs = Some (s2, h2)" "inv s2"
      "mapping s2 = (\<lambda>w. if w < v + r_len r then mapping s1 w else run_map rs w)" by blast
  have "mapping s2 w = (if w < v then mapping s w else run_map (r # rs) w)" for w
    using consecutive_start [OF r(3), of w] Cons.prems(3) [of w] r(1,2)
    by (auto simp: b(3) a(3) override_def covers_def run_ok_def)
  then show ?case using a(1) b(1,2) by auto
qed

end

definition add_run ::
    "'h \<Rightarrow> 'h kernel \<times> runs_tree \<Rightarrow> ntfs_run \<Rightarrow> (bool \<times> ('h kernel \<times> runs_tree) \<times> 'h) option" where
  "add_run h s r =
     map_option (\<lambda>(ok, run, h). (ok, (fst s, run), h)) (run_add_entry (fst s) h (snd s) (r_vcn r) (r_lcn r) (r_len r))"

lemma run_map_start:
  assumes "runs_wf rs" and "r \<in> set rs"
  shows "run_map rs (r_vcn r) = Some (r_lcn r)"
proof -
  obtain xs ys where rs: "rs = xs @ r # ys" using assms(2) by (auto simp: in_set_conv_decomp)
  then have "\<forall>x\<in>set xs. before x r" "run_ok r" using assms(1) by auto
  then show ?thesis by (simp add: rs run_map_mid override_def covers_def image_lcn_def run_ok_def)
qed

interpretation rl: run_store add_run "\<lambda>s. run_map (runs (snd s))" "\<lambda>s. runs_wf (runs (snd s)) \<and> kvmalloc_succeeds (fst s)"
proof
  fix s :: "'a kernel \<times> runs_tree" and r :: ntfs_run and h
  assume inv: "runs_wf (runs (snd s)) \<and> kvmalloc_succeeds (fst s)" and r: "run_ok r"
    and fresh: "\<And>v. r_vcn r \<le> v \<Longrightarrow> run_map (runs (snd s)) v = None"
  have "relocatable (runs (snd s)) r"
    using fresh [of "r_vcn r"] run_map_start [of "runs (snd s)"] inv by (force simp: relocatable_def)
  then show "\<exists>s' h'. add_run h s r = Some (True, s', h') \<and> (runs_wf (runs (snd s')) \<and> kvmalloc_succeeds (fst s'))
      \<and> run_map (runs (snd s')) = override (run_map (runs (snd s))) r"
    using run_add_entry_spec [of "snd s" r "fst s" h] inv r by (auto simp: add_run_def)
qed

section \<open>The bytes of a list of runs\<close>

definition next_lcn :: "nat \<Rightarrow> ntfs_run \<Rightarrow> nat" where
  "next_lcn prev r = (if r_lcn r = SPARSE_LCN then prev else r_lcn r)"

definition len_size :: "ntfs_run \<Rightarrow> nat" where
  "len_size r = run_packed_size (int (r_len r))"

definition off_size :: "nat \<Rightarrow> ntfs_run \<Rightarrow> nat" where
  "off_size prev r = (if r_lcn r = SPARSE_LCN then 0 else run_packed_size (int (r_lcn r) - int prev))"

definition enc_run :: "nat \<Rightarrow> ntfs_run \<Rightarrow> byte list" where
  "enc_run prev r =
     [word_of_nat (len_size r) OR push_bit 4 (word_of_nat (off_size prev r))]
     @ run_pack_s64 (len_size r) (int (r_len r))
     @ run_pack_s64 (off_size prev r) (if r_lcn r = SPARSE_LCN then 0 else int (r_lcn r) - int prev)"

fun enc_runs :: "nat \<Rightarrow> ntfs_run list \<Rightarrow> byte list" where
  "enc_runs prev [] = []"
| "enc_runs prev (r # rs) = enc_run prev r @ enc_runs (next_lcn prev r) rs"

fun deltas_ok :: "nat \<Rightarrow> ntfs_run list \<Rightarrow> bool" where
  "deltas_ok prev [] = True"
| "deltas_ok prev (r # rs) = ((r_lcn r = SPARSE_LCN \<or> r_lcn r \<noteq> prev) \<and> deltas_ok (next_lcn prev r) rs)"

definition mem_has :: "(nat \<Rightarrow> byte) \<Rightarrow> nat \<Rightarrow> byte list \<Rightarrow> bool" where
  "mem_has mem p bs = (\<forall>i<length bs. mem (p + i) = bs ! i)"

lemma mem_has_append [simp]: "mem_has mem p (xs @ ys) \<longleftrightarrow> mem_has mem p xs \<and> mem_has mem (p + length xs) ys"
proof
  assume l: "mem_has mem p (xs @ ys)"
  have "mem (p + i) = xs ! i" if "i < length xs" for i
    using l [unfolded mem_has_def, rule_format, of i] that by (simp add: nth_append)
  moreover have "mem (p + length xs + j) = ys ! j" if "j < length ys" for j
    using l [unfolded mem_has_def, rule_format, of "length xs + j"] that by (simp add: nth_append add.assoc)
  ultimately show "mem_has mem p xs \<and> mem_has mem (p + length xs) ys" by (simp add: mem_has_def)
next
  assume r: "mem_has mem p xs \<and> mem_has mem (p + length xs) ys"
  have "mem (p + i) = (xs @ ys) ! i" if "i < length xs + length ys" for i
  proof (cases "i < length xs")
    case True
    then show ?thesis using r by (simp add: mem_has_def nth_append)
  next
    case False
    then have "i - length xs < length ys" "p + length xs + (i - length xs) = p + i" using that by simp_all
    then have "mem (p + i) = ys ! (i - length xs)" using r unfolding mem_has_def by metis
    then show ?thesis using False by (simp add: nth_append)
  qed
  then show "mem_has mem p (xs @ ys)" by (simp add: mem_has_def)
qed

lemma mem_has_Cons [simp]: "mem_has mem p (x # xs) \<longleftrightarrow> mem p = x \<and> mem_has mem (Suc p) xs"
  using mem_has_append [of mem p "[x]" xs] by (simp add: mem_has_def)

lemma length_run_pack_s64 [simp]: "k \<le> 8 \<Longrightarrow> length (run_pack_s64 k v) = k"
  by (simp add: run_pack_s64_def)

lemma mem_has_pack: "k \<le> 8 \<Longrightarrow> mem_has mem p (run_pack_s64 k v) \<longleftrightarrow> (\<forall>i<k. mem (p + i) = byte_of v i)"
  by (auto simp: mem_has_def run_pack_s64_def)

lemma packed_header:
  assumes "s \<le> 8" and "j \<le> 8"
  shows "unat ((word_of_nat s OR push_bit 4 (word_of_nat j)) AND 0xf :: byte) = s"
    and "unat (drop_bit 4 (word_of_nat s OR push_bit 4 (word_of_nat j)) :: byte) = j"
proof -
  have "list_all (\<lambda>s. list_all (\<lambda>j. unat ((word_of_nat s OR push_bit 4 (word_of_nat j)) AND 0xf :: byte) = s
      \<and> unat (drop_bit 4 (word_of_nat s OR push_bit 4 (word_of_nat j)) :: byte) = j) [0..<9]) [0..<9]"
    by code_simp
  then show "unat ((word_of_nat s OR push_bit 4 (word_of_nat j)) AND 0xf :: byte) = s"
    "unat (drop_bit 4 (word_of_nat s OR push_bit 4 (word_of_nat j)) :: byte) = j"
    using assms unfolding list_all_iff set_upt by auto
qed

lemma run_sizes:
  assumes "run_ok r" and "prev < 2 ^ 32"
  shows "1 \<le> len_size r" and "len_size r \<le> 8" and "fits_bytes (len_size r) (int (r_len r))"
    and "off_size prev r \<le> 8"
    and "r_lcn r \<noteq> SPARSE_LCN \<Longrightarrow> 1 \<le> off_size prev r \<and> fits_bytes (off_size prev r) (int (r_lcn r) - int prev)"
proof -
  have "- (2 ^ 63) \<le> int (r_len r)" "int (r_len r) < 2 ^ 63" using assms(1) by (auto simp: run_ok_def)
  note l = run_packed_size_ok [OF this]
  show "1 \<le> len_size r" "len_size r \<le> 8" "fits_bytes (len_size r) (int (r_len r))"
    using l(1-3) by (simp_all add: len_size_def)
  have "- (2 ^ 63) \<le> int (r_lcn r) - int prev" "int (r_lcn r) - int prev < 2 ^ 63" if "r_lcn r \<noteq> SPARSE_LCN"
    using assms that by (auto simp: run_ok_def)
  note o = run_packed_size_ok [OF this]
  show "off_size prev r \<le> 8" using o(2) by (simp add: off_size_def)
  show "1 \<le> off_size prev r \<and> fits_bytes (off_size prev r) (int (r_lcn r) - int prev)" if "r_lcn r \<noteq> SPARSE_LCN"
    using o(1,3) that by (simp add: off_size_def)
qed

lemma length_enc_run:
  assumes "run_ok r" and "prev < 2 ^ 32"
  shows "length (enc_run prev r) = 1 + len_size r + off_size prev r" and "length (enc_run prev r) \<le> 17"
    and "2 \<le> length (enc_run prev r)"
  using run_sizes [OF assms] by (simp_all add: enc_run_def)

lemma next_lcn_less: "run_ok r \<Longrightarrow> prev < 2 ^ 32 \<Longrightarrow> next_lcn prev r < 2 ^ 32"
  by (auto simp: next_lcn_def run_ok_def)

definition lcn64 :: "ntfs_run \<Rightarrow> nat" where
  "lcn64 r = (if r_lcn r = SPARSE_LCN then SPARSE_LCN64 else r_lcn r)"

lemma unpack_enc_run:
  assumes "run_ok r" and "prev < 2 ^ 32" and "mem_has mem p (enc_run prev r)"
    and "r_lcn r = SPARSE_LCN \<or> r_lcn r \<noteq> prev"
  shows "unat (mem p AND 0xf) = len_size r" and "unat (drop_bit 4 (mem p)) = off_size prev r"
    and "unpack_run mem (p + 1) (len_size r) (off_size prev r) prev =
      Inr (r_len r, lcn64 r, next_lcn prev r, p + length (enc_run prev r))"
proof -
  note sz = run_sizes [OF assms(1,2)]
  let ?d = "if r_lcn r = SPARSE_LCN then 0 else int (r_lcn r) - int prev"
  have m: "mem p = word_of_nat (len_size r) OR push_bit 4 (word_of_nat (off_size prev r))"
    "\<forall>i<len_size r. mem (Suc p + i) = byte_of (int (r_len r)) i"
    "\<forall>i<off_size prev r. mem (Suc p + len_size r + i) = byte_of ?d i"
    using assms(3) sz(2,4) by (simp_all add: enc_run_def mem_has_pack)
  show "unat (mem p AND 0xf) = len_size r" "unat (drop_bit 4 (mem p)) = off_size prev r"
    using packed_header [OF sz(2,4)] m(1) by simp_all
  have len: "run_unpack_s64 mem (p + 1) (len_size r) 0 = int (r_len r)"
    using run_unpack_pack_s64 [OF sz(1,2,3), of mem "p + 1"] m(2) by simp
  have u: "u64_of_int (int n) = n" if "n < 2 ^ 32" for n using that by (simp add: u64_of_int_def)
  have lens: "u64_of_int (int (r_len r)) = r_len r" "0 < r_len r" using assms(1) u by (simp_all add: run_ok_def)
  show "unpack_run mem (p + 1) (len_size r) (off_size prev r) prev =
      Inr (r_len r, lcn64 r, next_lcn prev r, p + length (enc_run prev r))"
  proof (cases "r_lcn r = SPARSE_LCN")
    case True
    then have "off_size prev r = 0" by (simp add: off_size_def)
    then show ?thesis
      using True sz(2) len lens length_enc_run(1) [OF assms(1,2)] by (simp add: unpack_run_def lcn64_def next_lcn_def Let_def)
  next
    case False
    define q where "q = p + 1 + len_size r"
    define o' where "o' = off_size prev r"
    let ?n = "int (r_lcn r) - int prev"
    have o': "1 \<le> o'" "o' \<le> 8" "fits_bytes o' ?n" using sz(4,5) False by (simp_all add: o'_def)
    have b: "mem (q + i) = byte_of ?n i" if "i < o'" for i using m(3) False that by (simp add: q_def o'_def)
    have "mem (q + o' - 1) = byte_of ?n (o' - 1)" using b [of "o' - 1"] o'(1) by simp
    then have "(if mem (q + o' - 1) AND 0x80 \<noteq> 0 then -1 else 0) = (if ?n < 0 then -1 else 0 :: int)"
      using sign_extension(2) [OF o'(1,3)] by simp
    then have d: "run_unpack_s64 mem q o' (if mem (q + o' - 1) AND 0x80 \<noteq> 0 then -1 else 0) = ?n"
      using run_unpack_pack_s64 [OF o' b] by (simp only:)
    have "u64_of_int (int prev + ?n) = r_lcn r" using u [of "r_lcn r"] assms(1) False by (simp add: run_ok_def)
    moreover have "?n \<noteq> 0" using assms(4) False by simp
    moreover have "p + length (enc_run prev r) = q + o'"
      using length_enc_run(1) [OF assms(1,2)] by (simp add: q_def o'_def)
    moreover have "lcn64 r = r_lcn r" "next_lcn prev r = r_lcn r" using False by (simp_all add: lcn64_def next_lcn_def)
    ultimately show ?thesis
      using sz(2) len lens o'(1,2) d
      unfolding unpack_run_def Let_def o'_def [symmetric] q_def [symmetric] by simp
  qed
qed

lemma sparse_end: "0 < n \<Longrightarrow> n < 2 ^ 32 \<Longrightarrow> u64 (SPARSE_LCN64 + n) = n - 1"
  by (cases n) (simp_all add: u64_def)

lemma lcn64_facts:
  assumes "run_ok r" and "r_lcn r = SPARSE_LCN \<or> r_lcn r + r_len r \<le> n"
  shows "u32 (lcn64 r) = r_lcn r" and "\<not> 2 ^ 32 < u64 (lcn64 r + r_len r)"
    and "\<not> (lcn64 r \<noteq> SPARSE_LCN64 \<and> n < u64 (lcn64 r + r_len r))"
  using assms sparse_end [of "r_len r"] by (auto simp: lcn64_def run_ok_def u32_def u64_id)

lemma unpack_loop_step:
  assumes "run_ok r" and "r_vcn r = v" and "prev < 2 ^ 32" and "mem_has mem p (enc_run prev r)"
    and "r_lcn r = SPARSE_LCN \<or> r_lcn r \<noteq> prev" and "r_lcn r = SPARSE_LCN \<or> r_lcn r + r_len r \<le> nbits sbi"
    and "p < run_last" and "vcn \<le> v" and "v + r_len r \<le> evcn + 1" and "evcn + 1 < 2 ^ 32"
    and "run_add_entry k h run (r_vcn r) (r_lcn r) (r_len r) = Some (True, run', h')"
  shows "unpack_loop k sbi h s (RUN run) evcn vcn mem run_last p prev v =
    unpack_loop k sbi h' s (RUN run') evcn vcn mem run_last (p + length (enc_run prev r)) (next_lcn prev r) (v + r_len r)"
proof -
  note u = unpack_enc_run [OF assms(1,3,4,5)]
  note l = lcn64_facts [OF assms(1,6)]
  have e: "u32 (evcn + 1) = evcn + 1" using assms(10) by (simp add: u32_id)
  have v: "u64 (v + r_len r) = v + r_len r" "u32 v = v" "u32 (r_len r) = r_len r"
    using assms(1,2) by (simp_all add: run_ok_def u32_id u64_id)
  have st: "store_run k sbi h s (RUN run) vcn v (lcn64 r) (r_len r) = Some (True, RUN run', h', s)"
    using assms(2,8,11) by (simp add: store_run_def v l(1))
  have ss: "len_size r \<noteq> 0" using run_sizes(1) [OF assms(1,3)] by simp
  have b: "\<not> u32 (evcn + 1) < v + r_len r" "\<not> 2 ^ 32 < v + r_len r"
    using assms(9,10) unfolding e by linarith+
  show ?thesis
    using assms(7) ss b l(2,3)
    by (subst unpack_loop.simps) (simp only: u v(1) st Let_def if_True if_False sum.case prod.case option.case
        not_True_eq_False de_Morgan_disj simp_thms)
qed

lemma unpack_loop_enc:
  assumes "consecutive v rs (evcn + 1)" and "evcn + 1 < 2 ^ 32" and "mem_has mem p (enc_runs prev rs @ [0])"
    and "p + length (enc_runs prev rs) < run_last" and "deltas_ok prev rs" and "prev < 2 ^ 32"
    and "\<forall>r\<in>set rs. r_lcn r = SPARSE_LCN \<or> r_lcn r + r_len r \<le> nbits sbi" and "vcn \<le> v"
    and "add_all add_run h (k, run) rs = Some ((k', run'), h')"
  shows "unpack_loop k sbi h s (RUN run) evcn vcn mem run_last p prev v =
    Some (int (p + length (enc_runs prev rs) + 1), RUN run', h', s)"
  using assms
proof (induction rs arbitrary: v p prev run h)
  case Nil
  then show ?case by (subst unpack_loop.simps) (simp add: u32_id)
next
  case (Cons r rs)
  have r: "r_vcn r = v" "run_ok r" "consecutive (v + r_len r) rs (evcn + 1)" using Cons.prems(1) by simp_all
  have le: "v + r_len r \<le> evcn + 1" using consecutive_le [OF r(3)] .
  obtain run1 h1 where a: "run_add_entry k h run (r_vcn r) (r_lcn r) (r_len r) = Some (True, run1, h1)"
    "add_all add_run h1 (k, run1) rs = Some ((k', run'), h')"
  proof -
    obtain s1 h1 where "add_run h (k, run) r = Some (True, s1, h1)" "add_all add_run h1 s1 rs = Some ((k', run'), h')"
      using Cons.prems(9) by (auto split: option.splits prod.splits bool.splits)
    then show thesis using that by (auto simp: add_run_def [of h "(k, run)" r])
  qed
  have "unpack_loop k sbi h s (RUN run) evcn vcn mem run_last p prev v =
      unpack_loop k sbi h1 s (RUN run1) evcn vcn mem run_last (p + length (enc_run prev r)) (next_lcn prev r) (v + r_len r)"
    using Cons.prems a(1) r le by (intro unpack_loop_step) simp_all
  also have "\<dots> = Some (int (p + length (enc_run prev r) + length (enc_runs (next_lcn prev r) rs) + 1), RUN run', h', s)"
    using Cons.prems r a(2) next_lcn_less [OF r(2)] by (intro Cons.IH) (simp_all add: add.assoc)
  finally show ?case by (simp add: add.assoc)
qed

lemma highest_vcn_enc:
  assumes "consecutive v rs e" and "e < 2 ^ 32" and "mem_has mem p (enc_runs prev rs @ [0])"
    and "deltas_ok prev rs" and "prev < 2 ^ 32"
  shows "highest_vcn_loop mem p v = Some (Inr (sub64 e 1))"
  using assms
proof (induction rs arbitrary: v p prev)
  case Nil
  then show ?case by (subst highest_vcn_loop.simps) simp
next
  case (Cons r rs)
  have r: "r_vcn r = v" "run_ok r" "consecutive (v + r_len r) rs e" using Cons.prems(1) by simp_all
  have le: "v + r_len r \<le> e" using consecutive_le [OF r(3)] .
  have m: "mem_has mem p (enc_run prev r)" "r_lcn r = SPARSE_LCN \<or> r_lcn r \<noteq> prev"
    using Cons.prems(3,4) by simp_all
  note u = unpack_enc_run [OF r(2) Cons.prems(5) m]
  note sz = run_sizes [OF r(2) Cons.prems(5)]
  have len: "u64_of_int (run_unpack_s64 mem (p + 1) (len_size r) 0) = r_len r"
    using u(3) sz(2) by (auto simp: unpack_run_def Let_def split: if_splits)
  have "u64 (v + r_len r) = v + r_len r" using le Cons.prems(2) by (simp add: u64_id)
  then have "highest_vcn_loop mem p v = highest_vcn_loop mem (p + 1 + len_size r + off_size prev r) (v + r_len r)"
    using sz(1,2,4) len r(2) le Cons.prems(2)
    by (subst highest_vcn_loop.simps) (simp add: u(1,2) Let_def run_ok_def)
  also have "\<dots> = Some (Inr (sub64 e 1))"
    using Cons.prems r(3) next_lcn_less [OF r(2)] length_enc_run(1) [OF r(2) Cons.prems(5)]
    by (intro Cons.IH [of _ _ "next_lcn prev r"]) (simp_all add: add.assoc)
  finally show ?case .
qed

section \<open>Packing writes these bytes\<close>

fun clip_runs :: "nat \<Rightarrow> ntfs_run list \<Rightarrow> ntfs_run list" where
  "clip_runs e [] = []"
| "clip_runs e (r # rs) = (if e \<le> r_vcn r + r_len r then [r\<lparr>r_len := e - r_vcn r\<rparr>] else r # clip_runs e rs)"

lemma pack_loop_step:
  assumes "run_ok r" and "r_vcn r < e" and "e < 2 ^ 32" and "prev < 2 ^ 32" and "packed + 18 \<le> sz" and "sz < 2 ^ 31"
    and "vcns + (e - r_vcn r) < 2 ^ 32"
  defines "r' \<equiv> (if e \<le> r_vcn r + r_len r then r\<lparr>r_len := e - r_vcn r\<rparr> else r)"
  shows "pack_loop rs sz e i (r_vcn r) (r_lcn r) (r_len r) prev packed vcns out =
    (let out = out @ enc_run prev r'; packed = packed + length (enc_run prev r'); vcns = vcns + r_len r' in
     if sz \<le> packed + 1 \<or> e \<le> r_vcn r + r_len r then (int packed + 1, vcns, out @ [0])
     else
       case run_get_entry rs (i + 1) of
         None \<Rightarrow> (- EOPNOTSUPP, vcns, out)
       | Some (vcn', lcn', len') \<Rightarrow>
           if r_vcn r + r_len r \<noteq> vcn' then (- EOPNOTSUPP, vcns, out)
           else pack_loop rs sz e (i + 1) vcn' lcn' len' (next_lcn prev r) packed vcns out)"
proof -
  have fin: "u32 (r_vcn r + r_len r) = r_vcn r + r_len r" using assms(1) by (simp add: run_ok_def u32_id)
  have len: "(if e < r_vcn r + r_len r then sub32 e (r_vcn r) else r_len r) = r_len r'"
    using assms(2) by (auto simp: r'_def sub32_def)
  have r': "run_ok r'" "r_lcn r' = r_lcn r" "r_vcn r' = r_vcn r" "r_len r' \<le> e - r_vcn r"
    using assms(1,2) by (auto simp: r'_def run_ok_def)
  note sz = run_sizes [OF r'(1) assms(4)]
  note enc = length_enc_run [OF r'(1) assms(4)]
  have tmp: "s32 (u32_of_int (int sz - int packed - 2 - int (off_size prev r'))) = int sz - int packed - 2 - int (off_size prev r')"
    using sz(4) assms(5,6) by (intro s32_u32_of_int) auto
  have fits: "\<not> (int sz - int packed - 2 - int (off_size prev r') \<le> 0
      \<or> int sz - int packed - 2 - int (off_size prev r') < int (len_size r'))"
    using sz(2,4) assms(5) by auto
  have v: "u32 (vcns + r_len r') = vcns + r_len r'" using r'(4) assms(7) by (simp add: u32_id)
  have os: "(if r_lcn r = SPARSE_LCN then 0 else run_packed_size (if r_lcn r = SPARSE_LCN then 0 else int (r_lcn r) - int prev))
      = off_size prev r'" by (simp add: off_size_def r'(2))
  have ls: "run_packed_size (int (r_len r')) = len_size r'" by (simp add: len_size_def)
  have nx: "(if r_lcn r = SPARSE_LCN then prev else r_lcn r) = next_lcn prev r" by (simp add: next_lcn_def)
  have bytes: "[word_of_nat (len_size r') OR push_bit 4 (word_of_nat (off_size prev r'))]
      @ run_pack_s64 (len_size r') (int (r_len r'))
      @ run_pack_s64 (off_size prev r') (if r_lcn r = SPARSE_LCN then 0 else int (r_lcn r) - int prev) = enc_run prev r'"
    by (simp add: enc_run_def r'(2))
  have pk: "packed + 1 + off_size prev r' + len_size r' = packed + length (enc_run prev r')" using enc(1) by simp
  show ?thesis
    by (subst pack_loop.simps) (simp only: Let_def fin len os ls nx tmp fits if_False bytes pk v)
qed

lemma pack_loop_enc:
  assumes "rs = pre @ cur # rest" and "runs_wf (r # rest)" and "r_vcn r < e" and "e < 2 ^ 32"
    and "\<forall>v. r_vcn r \<le> v \<and> v < e \<longrightarrow> run_map (r # rest) v \<noteq> None" and "prev < 2 ^ 32"
    and "packed + 17 * Suc (length rest) + 1 \<le> sz" and "sz < 2 ^ 31" and "vcns + (e - r_vcn r) < 2 ^ 32"
  shows "pack_loop rs sz e (length pre) (r_vcn r) (r_lcn r) (r_len r) prev packed vcns out =
      (int (packed + length (enc_runs prev (clip_runs e (r # rest))) + 1), vcns + (e - r_vcn r),
       out @ enc_runs prev (clip_runs e (r # rest)) @ [0])
    \<and> consecutive (r_vcn r) (clip_runs e (r # rest)) e"
  using assms
proof (induction rest arbitrary: pre cur r prev packed vcns out)
  case Nil
  have ok: "run_ok r" using Nil.prems(2) by simp
  have "e \<le> r_vcn r + r_len r"
  proof (rule ccontr)
    assume "\<not> e \<le> r_vcn r + r_len r"
    then have "run_map [r] (r_vcn r + r_len r) \<noteq> None" using Nil.prems(5) by simp
    then show False by (simp add: covers_def)
  qed
  then show ?case
    using Nil.prems ok by (subst pack_loop_step) (auto simp: Let_def run_ok_def)
next
  case (Cons n ns)
  have ok: "run_ok r" "before r n" "runs_wf (n # ns)" using Cons.prems(2) by simp_all
  show ?case
  proof (cases "e \<le> r_vcn r + r_len r")
    case True
    then show ?thesis using Cons.prems ok by (subst pack_loop_step) (auto simp: Let_def run_ok_def)
  next
    case False
    have "run_map (r # n # ns) (r_vcn r + r_len r) \<noteq> None" using Cons.prems(5) False by simp
    then have "run_map (n # ns) (r_vcn r + r_len r) \<noteq> None" by (simp add: covers_def)
    moreover have "\<forall>m\<in>set (n # ns). r_vcn n \<le> r_vcn m" using ok(3) by (auto simp: before_def)
    ultimately have "r_vcn n \<le> r_vcn r + r_len r" using run_map_ahead [of "n # ns" "r_vcn r + r_len r"] by (meson le_less_trans not_le order_less_le_trans)
    then have eq: "r_vcn n = r_vcn r + r_len r" using ok(2) by (simp add: before_def)
    have g: "run_get_entry rs (length pre + 1) = Some (r_vcn n, r_lcn n, r_len n)"
      using Cons.prems(1) ok(3) by (simp add: run_get_entry_def nth_append run_ok_def)
    have enc: "length (enc_run prev r) \<le> 17" "next_lcn prev r < 2 ^ 32"
      using length_enc_run(2) next_lcn_less ok(1) Cons.prems(6) by auto
    have m: "\<forall>v. r_vcn n \<le> v \<and> v < e \<longrightarrow> run_map (n # ns) v \<noteq> None"
    proof (intro allI impI)
      fix v assume v: "r_vcn n \<le> v \<and> v < e"
      then have "run_map (r # n # ns) v \<noteq> None" using Cons.prems(5) eq by simp
      then show "run_map (n # ns) v \<noteq> None" using v eq by (simp add: covers_def)
    qed
    note IH = Cons.IH [of "pre @ [cur]" n n "next_lcn prev r" "packed + length (enc_run prev r)" "vcns + r_len r"
        "out @ enc_run prev r", OF _ ok(3) _ Cons.prems(4) m enc(2) _ Cons.prems(8)]
    have step: "pack_loop rs sz e (length pre) (r_vcn r) (r_lcn r) (r_len r) prev packed vcns out =
        pack_loop rs sz e (length pre + 1) (r_vcn n) (r_lcn n) (r_len n) (next_lcn prev r)
          (packed + length (enc_run prev r)) (vcns + r_len r) (out @ enc_run prev r)"
      using Cons.prems ok(1) False enc(1) g eq by (subst pack_loop_step) (simp_all add: Let_def)
    show ?thesis
      unfolding step using IH Cons.prems(1,3,7,9) False eq enc(1) ok(1) by simp
  qed
qed

lemma clip_runs_map:
  assumes "runs_wf rs"
  shows "run_map (clip_runs e rs) v = (if v < e then run_map rs v else None)"
  using assms
proof (induction rs)
  case Nil
  then show ?case by simp
next
  case (Cons r rs)
  have ahead: "run_map rs v = None" if "v < r_vcn r + r_len r"
    using Cons.prems that by (intro run_map_ahead) (fastforce simp: before_def)
  then show ?case using Cons by (auto simp: covers_def image_lcn_def)
qed

lemma clip_runs_set:
  assumes "r \<in> set (clip_runs e rs)"
  shows "\<exists>r0\<in>set rs. r_lcn r = r_lcn r0 \<and> r_len r \<le> r_len r0"
  using assms by (induction rs) (force split: if_splits)+

lemma clip_runs_deltas: "deltas_ok prev rs \<Longrightarrow> deltas_ok prev (clip_runs e rs)"
  by (induction rs arbitrary: prev) auto

lemma distinct_deltas:
  "distinct (prev # map r_lcn (filter (\<lambda>r. r_lcn r \<noteq> SPARSE_LCN) rs)) \<Longrightarrow> deltas_ok prev rs"
  by (induction rs arbitrary: prev) (auto simp: next_lcn_def)

text \<open>No logical cluster is used twice, and cluster 0 is not used.\<close>

definition clusters_distinct :: "ntfs_run list \<Rightarrow> bool" where
  "clusters_distinct rs =
     ((\<forall>v w l. run_map rs v = Some l \<and> run_map rs w = Some l \<and> l \<noteq> SPARSE_LCN \<longrightarrow> v = w)
      \<and> (\<forall>v. run_map rs v \<noteq> Some 0))"

lemma same_start:
  assumes "runs_wf rs" and "r \<in> set rs" and "s \<in> set rs" and "r_vcn r = r_vcn s"
  shows "r = s"
  using assms by (induction rs) (auto simp: before_def run_ok_def)

lemma clip_runs_length: "length (clip_runs e rs) \<le> length rs"
  by (induction rs) auto

lemma enc_runs_length:
  "consecutive v rs e \<Longrightarrow> prev < 2 ^ 32 \<Longrightarrow> length (enc_runs prev rs) \<le> 17 * length rs"
proof (induction rs arbitrary: v prev)
  case (Cons r rs)
  then have "length (enc_run prev r) \<le> 17" "length (enc_runs (next_lcn prev r) rs) \<le> 17 * length rs"
    using length_enc_run(2) next_lcn_less by auto
  then show ?case by simp
qed simp

lemma clusters_distinct_deltas:
  assumes "runs_wf rs" and "clusters_distinct rs"
  shows "deltas_ok 0 rs"
proof (rule distinct_deltas)
  let ?ns = "filter (\<lambda>r. r_lcn r \<noteq> SPARSE_LCN) rs"
  note start = run_map_start [OF assms(1)]
  have "r = s" if "r \<in> set ?ns" "s \<in> set ?ns" "r_lcn r = r_lcn s" for r s
  proof -
    have "r_vcn r = r_vcn s" using start [of r] start [of s] that assms(2) by (auto simp: clusters_distinct_def)
    then show ?thesis using same_start [OF assms(1), of r s] that by simp
  qed
  moreover have "distinct ?ns"
  proof -
    have "distinct rs" using assms(1)
      by (induction rs) (auto simp: before_def run_ok_def)
    then show ?thesis by simp
  qed
  moreover have "r_lcn r \<noteq> 0" if "r \<in> set rs" for r
    using start [OF that] assms(2) by (metis clusters_distinct_def)
  ultimately show "distinct (0 # map r_lcn ?ns)"
    by (fastforce simp: distinct_map inj_on_def)
qed

lemma pack_first_run:
  assumes "runs_wf (runs run)" and "runs_fit run" and "run_map (runs run) v \<noteq> None"
  obtains pre cur rest r where "runs run = pre @ cur # rest" "runs_wf (r # rest)" "r_vcn r = v"
    "run_lookup_entry run v = Some (r_lcn r, r_len r, length pre)"
    "\<And>w. v \<le> w \<Longrightarrow> run_map (runs run) w = run_map (r # rest) w"
    "r_lcn r = SPARSE_LCN \<or> r_lcn cur \<noteq> SPARSE_LCN \<and> r_lcn r + r_len r = r_lcn cur + r_len cur"
  using assms(1)
proof (cases rule: run_lookup_cases [where v = v])
  case (hit xs r zs)
  have wf: "run_ok r" "\<forall>x\<in>set xs. before x r" "runs_wf zs" "\<forall>z\<in>set zs. before r z" using assms(1) hit(1) by auto
  have alloc: "allocated run \<noteq> 0" using assms(2) hit(1) by (auto simp: runs_fit_def)
  define r0 where "r0 = \<lparr>r_vcn = v, r_len = r_len r - (v - r_vcn r),
    r_lcn = (if r_lcn r = SPARSE_LCN then SPARSE_LCN else r_lcn r + (v - r_vcn r))\<rparr>"
  have u: "u32 (r_lcn r + (v - r_vcn r)) = r_lcn r + (v - r_vcn r)" if "r_lcn r \<noteq> SPARSE_LCN"
    using wf(1) hit(3,4) that by (auto simp: run_ok_def u32_id)
  have s: "sub32 v (r_vcn r) = v - r_vcn r" using hit(3) by (simp add: sub32_def)
  show ?thesis
  proof (rule that [of xs r zs r0])
    show "runs run = xs @ r # zs" by (rule hit(1))
    show "runs_wf (r0 # zs)" using wf hit(3,4) by (auto simp: r0_def run_ok_def before_def)
    show "r_vcn r0 = v" by (simp add: r0_def)
    show "run_lookup_entry run v = Some (r_lcn r0, r_len r0, length xs)"
      using alloc hit wf(1) u by (auto simp: run_lookup_entry_def nth_append s r0_def Let_def)
    show "r_lcn r0 = SPARSE_LCN \<or> r_lcn r \<noteq> SPARSE_LCN \<and> r_lcn r0 + r_len r0 = r_lcn r + r_len r"
      using hit(3,4) by (auto simp: r0_def)
    show "run_map (runs run) w = run_map (r0 # zs) w" if "v \<le> w" for w
    proof -
      have "run_map xs w = None" using wf(2) hit(3) that by (intro run_map_behind) (fastforce simp: before_def)
      then show ?thesis using that hit(3,4) wf(1)
        by (auto simp: hit(1) run_map_append r0_def covers_def image_lcn_def run_ok_def)
    qed
  qed
next
  case (miss xs ys)
  then show ?thesis using assms(3) by (simp add: run_map_append run_map_behind run_map_ahead)
qed

lemma deltas_from:
  assumes "runs_wf (r # rest)" and "clusters_distinct rs" and "\<And>w. r_vcn r \<le> w \<Longrightarrow> run_map rs w = run_map (r # rest) w"
  shows "deltas_ok 0 (r # rest)"
proof (rule clusters_distinct_deltas [OF assms(1)])
  have "run_map (r # rest) w = None" if "w < r_vcn r" for w
    using that assms(1) by (intro run_map_ahead) (fastforce simp: before_def)
  then show "clusters_distinct (r # rest)"
    using assms(2,3) unfolding clusters_distinct_def by (metis linorder_not_le option.distinct(1))
qed

lemma run_pack_unpack:
  assumes "runs_wf (runs run)" and "runs_fit run" and "clusters_distinct (runs run)"
    and "0 < len" and "svcn + len < 2 ^ 32" and "\<forall>v. svcn \<le> v \<and> v < svcn + len \<longrightarrow> run_map (runs run) v \<noteq> None"
    and "17 * length (runs run) + 1 \<le> sz" and "sz < 2 ^ 31"
    and "\<forall>r\<in>set (runs run). r_lcn r = SPARSE_LCN \<or> r_lcn r + r_len r \<le> nbits sbi"
    and "kvmalloc_succeeds k" and "run_pack run svcn len sz = (ret, vcns, bytes)"
    and "mem_has mem 0 bytes" and "length bytes \<le> n"
  shows "ret = int (length bytes) \<and> vcns = len \<and> length bytes \<le> sz
    \<and> run_get_highest_vcn svcn mem = Some (Inr (svcn + len - 1))
    \<and> (\<exists>run' h'. run_unpack k sbi h s (RUN run_init) svcn (svcn + len - 1) svcn mem n = Some (ret, RUN run', h', s)
         \<and> runs_wf (runs run')
         \<and> run_map (runs run') = (\<lambda>v. if svcn \<le> v \<and> v < svcn + len then run_map (runs run) v else None))"
proof -
  let ?e = "svcn + len"
  have "run_map (runs run) svcn \<noteq> None" using assms(4,6) by simp
  from pack_first_run [OF assms(1,2) this] obtain pre cur rest r where
    f: "runs run = pre @ cur # rest" "runs_wf (r # rest)" "r_vcn r = svcn"
      "run_lookup_entry run svcn = Some (r_lcn r, r_len r, length pre)"
      "\<And>w. svcn \<le> w \<Longrightarrow> run_map (runs run) w = run_map (r # rest) w"
      "r_lcn r = SPARSE_LCN \<or> r_lcn cur \<noteq> SPARSE_LCN \<and> r_lcn r + r_len r = r_lcn cur + r_len cur" by metis
  define segs where "segs = clip_runs ?e (r # rest)"
  have cov: "\<forall>v. r_vcn r \<le> v \<and> v < ?e \<longrightarrow> run_map (r # rest) v \<noteq> None" using assms(6) f(3,5) by metis
  have room: "0 + 17 * Suc (length rest) + 1 \<le> sz" using assms(7) f(1) by simp
  have "r_vcn r < ?e" "0 + (?e - r_vcn r) < 2 ^ 32" using assms(4,5) f(3) by simp_all
  note p = pack_loop_enc [OF f(1,2) this(1) assms(5) cov _ room assms(8) this(2), of 0 "[]", folded segs_def]
  have bytes: "bytes = enc_runs 0 segs @ [0]" "ret = int (length (enc_runs 0 segs) + 1)" "vcns = len"
    using p assms(4,5,11) f(3,4) by (simp_all add: run_pack_def u32_id)
  have seg: "consecutive svcn segs ?e" using p f(3) by simp
  have d: "deltas_ok 0 segs" unfolding segs_def
    using deltas_from [OF f(2) assms(3)] f(3,5) by (intro clip_runs_deltas) simp
  have nb: "\<forall>q\<in>set segs. r_lcn q = SPARSE_LCN \<or> r_lcn q + r_len q \<le> nbits sbi"
  proof
    fix q assume "q \<in> set segs"
    then obtain q0 where q0: "q0 \<in> set (r # rest)" "r_lcn q = r_lcn q0" "r_len q \<le> r_len q0"
      unfolding segs_def by (blast dest: clip_runs_set)
    have "r_lcn q0 = SPARSE_LCN \<or> r_lcn q0 + r_len q0 \<le> nbits sbi"
      using q0(1) assms(9) f(1,6) by auto
    then show "r_lcn q = SPARSE_LCN \<or> r_lcn q + r_len q \<le> nbits sbi" using q0(2,3) by auto
  qed
  have short: "length bytes \<le> sz"
    using enc_runs_length [OF seg, of 0] clip_runs_length [of ?e "r # rest"] room by (simp add: bytes(1) segs_def)
  have top: "run_get_highest_vcn svcn mem = Some (Inr (svcn + len - 1))"
    using highest_vcn_enc [OF seg assms(5), of mem 0 0] assms(4,12) d
    by (simp add: run_get_highest_vcn_def bytes(1) sub64_def)
  obtain s' h' where add: "add_all add_run h (k, run_init) segs = Some (s', h')" "runs_wf (runs (snd s'))"
    "run_map (runs (snd s')) = (\<lambda>w. if w < svcn then run_map (runs run_init) w else run_map segs w)"
  proof -
    have "runs_wf (runs (snd (k, run_init))) \<and> kvmalloc_succeeds (fst (k, run_init))"
      "run_map (runs (snd (k, run_init))) w = None" for w
      using assms(10) by (simp_all add: run_init_def)
    from rl.add_all_consecutive [OF this(1) seg this(2), of h, unfolded snd_conv] that show thesis by blast
  qed
  have e: "svcn + len - 1 + 1 = ?e" using assms(4) by simp
  have "unpack_loop k sbi h s (RUN run_init) (svcn + len - 1) svcn mem n 0 0 svcn =
      Some (int (0 + length (enc_runs 0 segs) + 1), RUN (snd s'), h', s)"
    using seg d nb assms(4,5,12,13) add(1) bytes(1)
    by (intro unpack_loop_enc [where k' = "fst s'", unfolded e]) (simp_all add: e)
  then have u: "run_unpack k sbi h s (RUN run_init) svcn (svcn + len - 1) svcn mem n = Some (ret, RUN (snd s'), h', s)"
    using assms(4,5) bytes(2) by (simp add: run_unpack_def u32_id)
  have "run_map (runs (snd s')) v = (if svcn \<le> v \<and> v < ?e then run_map (runs run) v else None)" for v
    using f(5) [of v] by (simp add: add(3) segs_def clip_runs_map [OF f(2)] run_init_def del: clip_runs.simps run_map.simps(2))
  then show ?thesis using bytes short top u add(2) by (auto simp: fun_eq_iff)
qed

end
