(* ===== verification/Ntfs_Bits.thy ===== *)
theory Ntfs_Bits
  imports C_Prelude
begin

text \<open>
  \<^verbatim>\<open>fs/ntfs3/bitfunc.c\<close>: the tests whether a range of bits of a bitmap is all clear or all set. They
  test the first bits with a mask, then bytes up to the alignment of a machine word, then words, bytes
  and the last bits. Memory is a function from addresses to bytes; \<^verbatim>\<open>size_t\<close> has eight bytes. The theory
  shows that both are the plain conjunction over the bits, wherever the bitmap lies.
\<close>

unbundle bit_operations_syntax

section \<open>The tests\<close>

abbreviation (input) sizeof_size_t :: nat where "sizeof_size_t \<equiv> 8"
abbreviation (input) BITS_IN_SIZE_T :: nat where "BITS_IN_SIZE_T \<equiv> 64"

definition fill_mask :: "byte list" where
  "fill_mask = [0x00, 0x01, 0x03, 0x07, 0x0F, 0x1F, 0x3F, 0x7F, 0xFF]"

definition zero_mask :: "byte list" where
  "zero_mask = [0xFF, 0xFE, 0xFC, 0xF8, 0xF0, 0xE0, 0xC0, 0x80, 0x00]"

text \<open>\<^verbatim>\<open>*((size_t *)map)\<close> on a little-endian machine.\<close>

definition read_word :: "(nat \<Rightarrow> byte) \<Rightarrow> nat \<Rightarrow> nat" where
  "read_word mem a = (\<Sum>i<8. unat (mem (a + i)) * 256 ^ i)"

fun bytes_are :: "byte \<Rightarrow> (nat \<Rightarrow> byte) \<Rightarrow> nat \<Rightarrow> nat \<Rightarrow> bool" where
  "bytes_are c mem a 0 = True"
| "bytes_are c mem a (Suc n) = (if mem a \<noteq> c then False else bytes_are c mem (a + 1) n)"

fun words_are :: "nat \<Rightarrow> (nat \<Rightarrow> byte) \<Rightarrow> nat \<Rightarrow> nat \<Rightarrow> bool" where
  "words_are c mem a 0 = True"
| "words_are c mem a (Suc n) = (if read_word mem a \<noteq> c then False else words_are c mem (a + sizeof_size_t) n)"

text \<open>The part of both tests behind the first bits: bytes, words and bytes from an address on.\<close>

definition whole_bytes_are :: "byte \<Rightarrow> nat \<Rightarrow> (nat \<Rightarrow> byte) \<Rightarrow> nat \<Rightarrow> nat \<Rightarrow> (nat \<times> nat) option" where
  "whole_bytes_are c cw mem a nbits =
     (let pos = a mod sizeof_size_t;
          skip = (if pos \<noteq> 0 \<and> nbits \<ge> (sizeof_size_t - pos) * 8 then sizeof_size_t - pos else 0) in
      if \<not> bytes_are c mem a skip then None
      else
        let a = a + skip; nbits = nbits - skip * 8; words = nbits div BITS_IN_SIZE_T in
        if \<not> words_are cw mem a words then None
        else
          let a = a + words * sizeof_size_t; bytes = nbits mod BITS_IN_SIZE_T div 8 in
          if \<not> bytes_are c mem a bytes then None else Some (a + bytes, nbits mod 8))"

definition are_bits_clear :: "(nat \<Rightarrow> byte) \<Rightarrow> nat \<Rightarrow> nat \<Rightarrow> nat \<Rightarrow> bool" where
  "are_bits_clear mem lmap bt nbits =
     (let pos = bt mod 8; a = lmap + bt div 8 in
      if pos \<noteq> 0 \<and> 8 - pos \<ge> nbits then
        nbits = 0 \<or> mem a AND fill_mask ! (pos + nbits) AND zero_mask ! pos = 0
      else if pos \<noteq> 0 \<and> mem a AND zero_mask ! pos \<noteq> 0 then False
      else
        let (a, nbits) = (if pos \<noteq> 0 then (a + 1, nbits - (8 - pos)) else (a, nbits)) in
        case whole_bytes_are 0 0 mem a nbits of
          None \<Rightarrow> False
        | Some (a, pos) \<Rightarrow> \<not> (pos \<noteq> 0 \<and> mem a AND fill_mask ! pos \<noteq> 0))"

definition are_bits_set :: "(nat \<Rightarrow> byte) \<Rightarrow> nat \<Rightarrow> nat \<Rightarrow> nat \<Rightarrow> bool" where
  "are_bits_set mem lmap bt nbits =
     (let pos = bt mod 8; a = lmap + bt div 8 in
      if pos \<noteq> 0 \<and> 8 - pos \<ge> nbits then
        let msk = fill_mask ! (pos + nbits) AND zero_mask ! pos in
        nbits = 0 \<or> mem a AND msk = msk
      else if pos \<noteq> 0 \<and> mem a AND zero_mask ! pos \<noteq> zero_mask ! pos then False
      else
        let (a, nbits) = (if pos \<noteq> 0 then (a + 1, nbits - (8 - pos)) else (a, nbits)) in
        case whole_bytes_are 0xFF (2 ^ 64 - 1) mem a nbits of
          None \<Rightarrow> False
        | Some (a, pos) \<Rightarrow> \<not> (pos \<noteq> 0 \<and> mem a AND fill_mask ! pos \<noteq> fill_mask ! pos))"

section \<open>The bits of a range\<close>

definition bit_at :: "(nat \<Rightarrow> byte) \<Rightarrow> nat \<Rightarrow> bool" where
  "bit_at mem j = bit (mem (j div 8)) (j mod 8)"

definition range_is :: "bool \<Rightarrow> (nat \<Rightarrow> byte) \<Rightarrow> nat \<Rightarrow> nat \<Rightarrow> bool" where
  "range_is c mem j n = (\<forall>i<n. bit_at mem (j + i) = c)"

lemma range_is_0 [simp]: "range_is c mem j 0"
  by (simp add: range_is_def)

lemma range_is_add: "range_is c mem j (n + m) \<longleftrightarrow> range_is c mem j n \<and> range_is c mem (j + n) m"
proof -
  have "(\<forall>i<n + m. P i) \<longleftrightarrow> (\<forall>i<n. P i) \<and> (\<forall>i<m. P (n + i))" for P :: "nat \<Rightarrow> bool"
  proof (intro iffI conjI allI impI)
    fix i assume r: "(\<forall>i<n. P i) \<and> (\<forall>i<m. P (n + i))" and i: "i < n + m"
    show "P i"
    proof (cases "i < n")
      case False
      then have "i - n < m" using i by simp
      then have "P (n + (i - n))" using r by blast
      then show ?thesis using False by simp
    qed (use r in simp)
  qed simp_all
  from this [of "\<lambda>i. bit_at mem (j + i) = c"] show ?thesis by (simp add: range_is_def add.assoc)
qed

lemma bit_at_byte: "i < 8 \<Longrightarrow> bit_at mem (8 * a + i) = bit (mem a) i"
  by (simp add: bit_at_def)

lemma fill_mask_bit: "k \<le> 8 \<Longrightarrow> i < 8 \<Longrightarrow> bit (fill_mask ! k) i \<longleftrightarrow> i < k"
proof -
  have "list_all (\<lambda>k. list_all (\<lambda>i. bit (fill_mask ! k) i \<longleftrightarrow> i < k) [0..<8]) [0..<9]" by code_simp
  then show "k \<le> 8 \<Longrightarrow> i < 8 \<Longrightarrow> bit (fill_mask ! k) i \<longleftrightarrow> i < k"
    unfolding list_all_iff set_upt by auto
qed

lemma zero_mask_bit: "k \<le> 8 \<Longrightarrow> i < 8 \<Longrightarrow> bit (zero_mask ! k) i \<longleftrightarrow> k \<le> i"
proof -
  have "list_all (\<lambda>k. list_all (\<lambda>i. bit (zero_mask ! k) i \<longleftrightarrow> k \<le> i) [0..<8]) [0..<9]" by code_simp
  then show "k \<le> 8 \<Longrightarrow> i < 8 \<Longrightarrow> bit (zero_mask ! k) i \<longleftrightarrow> k \<le> i"
    unfolding list_all_iff set_upt by auto
qed

lemma byte_eq_iff: "b = c \<longleftrightarrow> (\<forall>i<8. bit b i = bit c i)" for b c :: byte
  by (auto simp: bit_eq_iff impossible_bit)

lemma masked_range:
  assumes "p + n \<le> 8" and "\<And>i. i < 8 \<Longrightarrow> bit msk i \<longleftrightarrow> p \<le> i \<and> i < p + n"
  shows "mem a AND msk = 0 \<longleftrightarrow> range_is False mem (8 * a + p) n"
    and "mem a AND msk = msk \<longleftrightarrow> range_is True mem (8 * a + p) n"
proof -
  have shift: "(\<forall>i<8. p \<le> i \<and> i < p + n \<longrightarrow> P i) \<longleftrightarrow> (\<forall>i<n. P (p + i))" for P
  proof (intro iffI allI impI)
    fix i assume l: "\<forall>i<n. P (p + i)" and i: "i < 8" "p \<le> i \<and> i < p + n"
    then have "i - p < n" by auto
    then have "P (p + (i - p))" using l by blast
    then show "P i" using i by simp
  qed (use assms(1) in simp)
  have at: "bit_at mem (8 * a + p + i) = bit (mem a) (p + i)" if "i < n" for i
    using bit_at_byte [of "p + i" mem a] that assms(1) by (simp add: add.assoc)
  show "mem a AND msk = 0 \<longleftrightarrow> range_is False mem (8 * a + p) n"
    using shift [of "\<lambda>i. \<not> bit (mem a) i"] at assms(2) by (auto simp: byte_eq_iff bit_simps range_is_def)
  show "mem a AND msk = msk \<longleftrightarrow> range_is True mem (8 * a + p) n"
    using shift [of "\<lambda>i. bit (mem a) i"] at assms(2) by (auto simp: byte_eq_iff bit_simps range_is_def)
qed

lemma byte_range:
  "mem a = 0 \<longleftrightarrow> range_is False mem (8 * a) 8" "mem a = 0xFF \<longleftrightarrow> range_is True mem (8 * a) 8"
proof -
  have ones: "bit (0xFF :: byte) i" if "i < 8" for i using fill_mask_bit [of 8 i] that by (simp add: fill_mask_def)
  have "mem a AND 0xFF = mem a" using ones by (simp add: byte_eq_iff bit_simps)
  then show "mem a = 0 \<longleftrightarrow> range_is False mem (8 * a) 8" "mem a = 0xFF \<longleftrightarrow> range_is True mem (8 * a) 8"
    using masked_range [of 0 8 "0xFF" mem a] ones by simp_all
qed

text \<open>A byte and a machine word that consist of one bit value only.\<close>

definition solid_byte :: "bool \<Rightarrow> byte" where
  "solid_byte c = (if c then 0xFF else 0)"

definition solid_word :: "bool \<Rightarrow> nat" where
  "solid_word c = (if c then 2 ^ 64 - 1 else 0)"

lemma solid_byte_range: "mem a = solid_byte c \<longleftrightarrow> range_is c mem (8 * a) 8"
  using byte_range [of mem a] by (cases c) (simp_all add: solid_byte_def)

lemma bytes_are_range: "bytes_are (solid_byte c) mem a n \<longleftrightarrow> range_is c mem (8 * a) (8 * n)"
proof (induction n arbitrary: a)
  case (Suc n)
  then show ?case using range_is_add [of c mem "8 * a" 8 "8 * n"] solid_byte_range [of mem a c]
    by (simp add: algebra_simps)
qed simp

lemma byte_sum_bounds:
  fixes f :: "nat \<Rightarrow> nat"
  assumes "\<And>i. f i \<le> 255"
  shows "(\<Sum>i<n. f i * 256 ^ i) + 1 \<le> 256 ^ n \<and> ((\<Sum>i<n. f i * 256 ^ i) + 1 = 256 ^ n \<longleftrightarrow> (\<forall>i<n. f i = 255))"
proof (induction n)
  case (Suc n)
  define s x y where "s = (\<Sum>i<n. f i * 256 ^ i)" and "x = (256 ^ n :: nat)" and "y = f n * x"
  have "y \<le> 255 * x" unfolding y_def using assms by (rule mult_right_mono) simp
  moreover have "y = 255 * x \<longleftrightarrow> f n = 255" by (simp add: y_def x_def)
  moreover have "s + 1 \<le> x" "s + 1 = x \<longleftrightarrow> (\<forall>i<n. f i = 255)" using Suc by (simp_all add: s_def x_def)
  moreover have "(\<Sum>i<Suc n. f i * 256 ^ i) = s + y" "(256 ^ Suc n :: nat) = x + 255 * x"
    by (simp_all add: s_def x_def y_def)
  moreover have "s + y + 1 = x + 255 * x \<longleftrightarrow> s + 1 = x \<and> y = 255 * x"
    using \<open>y \<le> 255 * x\<close> \<open>s + 1 \<le> x\<close> by linarith
  ultimately show ?case by (simp only: less_Suc_eq) (auto simp: add_mono)
qed simp

lemma read_word_solid: "read_word mem a = solid_word c \<longleftrightarrow> (\<forall>i<8. mem (a + i) = solid_byte c)"
proof (cases c)
  case True
  have ff: "unat b = 255 \<longleftrightarrow> b = 0xFF" for b :: byte
  proof
    assume "unat b = 255"
    then have "unat b = unat (0xFF :: byte)" by simp
    then show "b = 0xFF" by (rule unsigned_word_eqI)
  qed simp
  have "unat (mem (a + i)) < 2 ^ LENGTH(8)" for i by (rule unsigned_less)
  then have "unat (mem (a + i)) \<le> 255" for i by (simp add: less_Suc_eq_le [symmetric])
  from byte_sum_bounds [of "\<lambda>i. unat (mem (a + i))" 8, OF this]
  have "read_word mem a + 1 = 256 ^ 8 \<longleftrightarrow> (\<forall>i<8. mem (a + i) = 0xFF)" by (simp add: read_word_def ff)
  moreover have "read_word mem a + 1 = 256 ^ 8 \<longleftrightarrow> read_word mem a = 2 ^ 64 - 1" by auto
  ultimately show ?thesis using True by (simp add: solid_word_def solid_byte_def)
next
  case False
  then show ?thesis by (auto simp: read_word_def solid_word_def solid_byte_def unat_eq_0)
qed

lemma words_are_range: "words_are (solid_word c) mem a n \<longleftrightarrow> range_is c mem (8 * a) (64 * n)"
proof (induction n arbitrary: a)
  case (Suc n)
  have "bytes_are (solid_byte c) mem a 8 \<longleftrightarrow> (\<forall>i<8. mem (a + i) = solid_byte c)"
    by (auto simp: eval_nat_numeral less_Suc_eq)
  then have "read_word mem a = solid_word c \<longleftrightarrow> range_is c mem (8 * a) 64"
    using bytes_are_range [of c mem a 8] by (simp add: read_word_solid)
  then show ?case using Suc range_is_add [of c mem "8 * a" 64 "64 * n"] by (simp add: algebra_simps)
qed simp

lemma whole_bytes_are_range:
  "case whole_bytes_are (solid_byte c) (solid_word c) mem a nbits of
     None \<Rightarrow> \<not> range_is c mem (8 * a) nbits
   | Some (a', pos) \<Rightarrow> pos = nbits mod 8 \<and> (range_is c mem (8 * a) nbits \<longleftrightarrow> range_is c mem (8 * a') pos)"
proof -
  define skip where "skip = (if a mod 8 \<noteq> 0 \<and> nbits \<ge> (8 - a mod 8) * 8 then 8 - a mod 8 else 0)"
  define n1 where "n1 = nbits - skip * 8"
  define w where "w = n1 div 64"
  define b where "b = n1 mod 64 div 8"
  have n: "nbits = 8 * skip + n1" by (simp add: n1_def skip_def)
  have "n1 mod 64 mod 8 = n1 mod 8" by (rule mod_mod_cancel) simp
  then have n1: "n1 = 64 * w + (8 * b + n1 mod 8)"
    using div_mult_mod_eq [of n1 64] div_mult_mod_eq [of "n1 mod 64" 8] unfolding w_def b_def by linarith
  have m: "nbits mod 8 = n1 mod 8" using n by simp
  have split: "range_is c mem (8 * a) nbits \<longleftrightarrow> range_is c mem (8 * a) (8 * skip)
      \<and> range_is c mem (8 * (a + skip)) (64 * w) \<and> range_is c mem (8 * (a + skip + w * 8)) (8 * b)
      \<and> range_is c mem (8 * (a + skip + w * 8 + b)) (n1 mod 8)"
  proof -
    have "nbits = 8 * skip + (64 * w + (8 * b + n1 mod 8))" using n n1 by linarith
    moreover have "8 * (a + skip) = 8 * a + 8 * skip" "8 * (a + skip + w * 8) = 8 * a + 8 * skip + 64 * w"
      "8 * (a + skip + w * 8 + b) = 8 * a + 8 * skip + 64 * w + 8 * b" by simp_all
    ultimately show ?thesis by (simp only: range_is_add)
  qed
  show ?thesis
    unfolding whole_bytes_are_def Let_def skip_def [symmetric] n1_def [symmetric] w_def [symmetric] b_def [symmetric]
    by (auto simp: bytes_are_range words_are_range split m)
qed

text \<open>Both tests with the value of the bits as a parameter: \<open>first\<close> and \<open>last\<close> test bits under a mask.\<close>

lemma masked_solid:
  assumes "p + n \<le> 8" and "\<And>i. i < 8 \<Longrightarrow> bit msk i \<longleftrightarrow> p \<le> i \<and> i < p + n"
  shows "mem a AND msk = (if c then msk else 0) \<longleftrightarrow> range_is c mem (8 * a + p) n"
  using masked_range [OF assms] by (cases c) auto

lemma bits_test_range:
  fixes c lmap bt nbits
  defines "pos \<equiv> bt mod 8" and "a \<equiv> lmap + bt div 8"
  defines "a1 \<equiv> (if pos \<noteq> 0 then a + 1 else a)" and "n1 \<equiv> (if pos \<noteq> 0 then nbits - (8 - pos) else nbits)"
  shows "range_is c mem (8 * lmap + bt) nbits \<longleftrightarrow>
    (if pos \<noteq> 0 \<and> nbits \<le> 8 - pos then range_is c mem (8 * a + pos) nbits
     else (pos \<noteq> 0 \<longrightarrow> range_is c mem (8 * a + pos) (8 - pos))
       \<and> (case whole_bytes_are (solid_byte c) (solid_word c) mem a1 n1 of
            None \<Rightarrow> False
          | Some (a', pos') \<Rightarrow> pos' < 8 \<and> range_is c mem (8 * a') pos'))"
proof -
  have start: "8 * lmap + bt = 8 * a + pos" by (simp add: pos_def a_def)
  have rest: "range_is c mem (8 * a1) n1 \<longleftrightarrow>
      (case whole_bytes_are (solid_byte c) (solid_word c) mem a1 n1 of
         None \<Rightarrow> False | Some (a', pos') \<Rightarrow> pos' < 8 \<and> range_is c mem (8 * a') pos')"
    using whole_bytes_are_range [of c mem a1 n1] by (auto split: option.splits)
  show ?thesis
  proof (cases "pos \<noteq> 0 \<and> nbits \<le> 8 - pos")
    case True
    then show ?thesis by (simp add: start)
  next
    case False
    show ?thesis
    proof (cases "pos = 0")
      case True
      then show ?thesis using rest start by (simp add: a1_def n1_def)
    next
      case pos: False
      have "pos < 8" by (simp add: pos_def)
      then have "8 - pos + n1 = nbits" "8 * a + pos + (8 - pos) = 8 * a1" using False pos by (simp_all add: n1_def a1_def)
      then have "range_is c mem (8 * a + pos) nbits \<longleftrightarrow> range_is c mem (8 * a + pos) (8 - pos) \<and> range_is c mem (8 * a1) n1"
        using range_is_add [of c mem "8 * a + pos" "8 - pos" n1] by simp
      then show ?thesis using rest start pos False by auto
    qed
  qed
qed

lemma first_mask: "p < 8 \<Longrightarrow> p + n \<le> 8 \<Longrightarrow> i < 8 \<Longrightarrow>
    bit (fill_mask ! (p + n) AND zero_mask ! p) i \<longleftrightarrow> p \<le> i \<and> i < p + n"
  by (auto simp: bit_simps fill_mask_bit zero_mask_bit)

lemma are_bits_clear_range: "are_bits_clear mem lmap bt nbits \<longleftrightarrow> range_is False mem (8 * lmap + bt) nbits"
proof -
  define pos a where "pos = bt mod 8" and "a = lmap + bt div 8"
  define a1 n1 where "a1 = (if pos \<noteq> 0 then a + 1 else a)" and "n1 = (if pos \<noteq> 0 then nbits - (8 - pos) else nbits)"
  have pos: "pos < 8" by (simp add: pos_def)
  note range = bits_test_range [of False mem lmap bt nbits, folded pos_def a_def, folded a1_def n1_def]
  have first: "mem a AND (fill_mask ! (pos + nbits) AND zero_mask ! pos) = 0
      \<longleftrightarrow> range_is False mem (8 * a + pos) nbits" if "nbits \<le> 8 - pos"
    using masked_solid [of pos nbits "fill_mask ! (pos + nbits) AND zero_mask ! pos" mem a False] first_mask [OF pos, of nbits]
      that pos by simp
  have head: "mem a AND zero_mask ! pos = 0 \<longleftrightarrow> range_is False mem (8 * a + pos) (8 - pos)"
    using masked_solid [of pos "8 - pos" "zero_mask ! pos" mem a False] zero_mask_bit [of pos] pos by simp
  have tail: "mem x AND fill_mask ! p = 0 \<longleftrightarrow> range_is False mem (8 * x) p" if "p < 8" for x p
    using masked_solid [of 0 p "fill_mask ! p" mem x False] fill_mask_bit [of p] that by simp
  show ?thesis
  proof (cases "pos \<noteq> 0 \<and> nbits \<le> 8 - pos")
    case True
    then show ?thesis
      using range first by (auto simp: are_bits_clear_def Let_def pos_def [symmetric] a_def [symmetric] and.assoc)
  next
    case False
    have "are_bits_clear mem lmap bt nbits \<longleftrightarrow> (pos \<noteq> 0 \<longrightarrow> range_is False mem (8 * a + pos) (8 - pos))
        \<and> (case whole_bytes_are 0 0 mem a1 n1 of
             None \<Rightarrow> False | Some (a', pos') \<Rightarrow> \<not> (pos' \<noteq> 0 \<and> mem a' AND fill_mask ! pos' \<noteq> 0))"
      using False head
      by (auto simp: are_bits_clear_def Let_def pos_def [symmetric] a_def [symmetric] a1_def n1_def)
    moreover have "(case whole_bytes_are 0 0 mem a1 n1 of
          None \<Rightarrow> False | Some (a', pos') \<Rightarrow> \<not> (pos' \<noteq> 0 \<and> mem a' AND fill_mask ! pos' \<noteq> 0))
        \<longleftrightarrow> (case whole_bytes_are 0 0 mem a1 n1 of
             None \<Rightarrow> False | Some (a', pos') \<Rightarrow> pos' < 8 \<and> range_is False mem (8 * a') pos')"
      using whole_bytes_are_range [of False mem a1 n1] tail
      by (auto simp: solid_byte_def solid_word_def split: option.splits)
    ultimately show ?thesis using range False by (auto simp: solid_byte_def solid_word_def)
  qed
qed

lemma are_bits_set_range: "are_bits_set mem lmap bt nbits \<longleftrightarrow> range_is True mem (8 * lmap + bt) nbits"
proof -
  define pos a where "pos = bt mod 8" and "a = lmap + bt div 8"
  define a1 n1 where "a1 = (if pos \<noteq> 0 then a + 1 else a)" and "n1 = (if pos \<noteq> 0 then nbits - (8 - pos) else nbits)"
  have pos: "pos < 8" by (simp add: pos_def)
  note range = bits_test_range [of True mem lmap bt nbits, folded pos_def a_def, folded a1_def n1_def]
  have first: "mem a AND (fill_mask ! (pos + nbits) AND zero_mask ! pos) = (fill_mask ! (pos + nbits) AND zero_mask ! pos)
      \<longleftrightarrow> range_is True mem (8 * a + pos) nbits" if "nbits \<le> 8 - pos"
    using masked_solid [of pos nbits "fill_mask ! (pos + nbits) AND zero_mask ! pos" mem a True] first_mask [OF pos, of nbits]
      that pos by simp
  have head: "mem a AND zero_mask ! pos = zero_mask ! pos \<longleftrightarrow> range_is True mem (8 * a + pos) (8 - pos)"
    using masked_solid [of pos "8 - pos" "zero_mask ! pos" mem a True] zero_mask_bit [of pos] pos by simp
  have tail: "mem x AND fill_mask ! p = fill_mask ! p \<longleftrightarrow> range_is True mem (8 * x) p" if "p < 8" for x p
    using masked_solid [of 0 p "fill_mask ! p" mem x True] fill_mask_bit [of p] that by simp
  show ?thesis
  proof (cases "pos \<noteq> 0 \<and> nbits \<le> 8 - pos")
    case True
    then show ?thesis
      using range first by (auto simp: are_bits_set_def Let_def pos_def [symmetric] a_def [symmetric] and.assoc)
  next
    case False
    have "are_bits_set mem lmap bt nbits \<longleftrightarrow> (pos \<noteq> 0 \<longrightarrow> range_is True mem (8 * a + pos) (8 - pos))
        \<and> (case whole_bytes_are 0xFF (2 ^ 64 - 1) mem a1 n1 of
             None \<Rightarrow> False | Some (a', pos') \<Rightarrow> \<not> (pos' \<noteq> 0 \<and> mem a' AND fill_mask ! pos' \<noteq> fill_mask ! pos'))"
      using False head
      by (auto simp: are_bits_set_def Let_def pos_def [symmetric] a_def [symmetric] a1_def n1_def)
    moreover have "(case whole_bytes_are 0xFF (2 ^ 64 - 1) mem a1 n1 of
          None \<Rightarrow> False | Some (a', pos') \<Rightarrow> \<not> (pos' \<noteq> 0 \<and> mem a' AND fill_mask ! pos' \<noteq> fill_mask ! pos'))
        \<longleftrightarrow> (case whole_bytes_are 0xFF (2 ^ 64 - 1) mem a1 n1 of
             None \<Rightarrow> False | Some (a', pos') \<Rightarrow> pos' < 8 \<and> range_is True mem (8 * a') pos')"
      using whole_bytes_are_range [of True mem a1 n1] tail
      by (auto simp: solid_byte_def solid_word_def split: option.splits)
    ultimately show ?thesis using range False by (auto simp: solid_byte_def solid_word_def)
  qed
qed

end
