(* ===== verification/Ntfs_Props.thy ===== *)
theory Ntfs_Props
  imports Ntfs_Codec Ntfs_Bits "HOL-Library.Code_Target_Nat"
begin

text \<open>
  The properties of the run lists, the mapping pairs and the bit functions of ntfs3, each with an
  instance on a small run list where it has hypotheses.
\<close>

section \<open>A small run list\<close>

text \<open>\<^verbatim>\<open>blksize_bits\<close> of \<^verbatim>\<open>include/linux/blkdev.h\<close>, and a kernel whose allocations never fail.\<close>

fun demo_bits_loop :: "nat \<Rightarrow> nat \<Rightarrow> nat" where
  "demo_bits_loop n b = (if n div 2 > 256 then demo_bits_loop (n div 2) (b + 1) else b + 1)"

declare demo_bits_loop.simps [simp del]

definition demo_kernel :: "unit kernel" where
  "demo_kernel = \<lparr>kvmalloc = (\<lambda>h n. (True, h)), blksize_bits = (\<lambda>n. demo_bits_loop n 8)\<rparr>"

definition demo_failing_kernel :: "unit kernel" where
  "demo_failing_kernel = demo_kernel\<lparr>kvmalloc := (\<lambda>h n. (False, h))\<rparr>"

definition demo_tree :: runs_tree where
  "demo_tree = \<lparr>runs = [\<lparr>r_vcn = 0, r_len = 4, r_lcn = 100\<rparr>, \<lparr>r_vcn = 4, r_len = 4, r_lcn = SPARSE_LCN\<rparr>,
      \<lparr>r_vcn = 8, r_len = 2, r_lcn = 200\<rparr>], allocated = 64\<rparr>"

definition demo_volume :: "unit volume" where
  "demo_volume = \<lparr>nbits = 1000, has_sb = False, need_replay = False, mark_as_free_ex = (\<lambda>s l n. s),
     wnd_is_used = (\<lambda>s l n. True), wnd_is_free = (\<lambda>s l n. False), wnd_set_used = (\<lambda>s l n. (0, s)),
     ntfs_set_dirty = (\<lambda>s. s), down_write_trylock = (\<lambda>s. True)\<rparr>"

text \<open>The mapping pairs of the clusters 1 to 8 of the list.\<close>

definition demo_bytes :: "byte list" where
  "demo_bytes = [0x11, 3, 101, 0x01, 4, 0x11, 1, 99, 0]"

lemma demo_bits_loop_bound: "b < demo_bits_loop n b \<and> n < 2 ^ 9 * 2 ^ (demo_bits_loop n b - b)"
proof (induction n b rule: demo_bits_loop.induct)
  case (1 n b)
  show ?case
  proof (cases "n div 2 > 256")
    case True
    define d where "d = demo_bits_loop (n div 2) (b + 1) - (b + 1)"
    have "b + 1 < demo_bits_loop (n div 2) (b + 1)" "n div 2 < 2 ^ 9 * 2 ^ d" using "1.IH" [OF True] by (simp_all add: d_def)
    moreover from this(2) have "n < 2 ^ 9 * 2 ^ Suc d" by simp
    moreover have "demo_bits_loop (n div 2) (b + 1) - b = Suc d" using calculation(1) by (simp add: d_def)
    ultimately show ?thesis using True by (simp add: demo_bits_loop.simps [of n b])
  next
    case False
    then show ?thesis by (simp add: demo_bits_loop.simps [of n b])
  qed
qed

lemma demo_kernel_ok [simp]: "kvmalloc_succeeds demo_kernel" "blksize_bits_ok demo_kernel"
proof -
  have "n \<le> 2 * 2 ^ demo_bits_loop n 8" for n
  proof -
    have "demo_bits_loop n 8 = 8 + (demo_bits_loop n 8 - 8)" using demo_bits_loop_bound [of 8 n] by simp
    then have "(2 :: nat) ^ demo_bits_loop n 8 = 2 ^ 8 * 2 ^ (demo_bits_loop n 8 - 8)" by (metis power_add)
    then show ?thesis using demo_bits_loop_bound [of 8 n] by simp
  qed
  then show "kvmalloc_succeeds demo_kernel" "blksize_bits_ok demo_kernel"
    by (simp_all add: kvmalloc_succeeds_def blksize_bits_ok_def demo_kernel_def)
qed

lemma demo_tree_ok [simp]: "runs_wf (runs demo_tree)" "runs_fit demo_tree"
  by (simp_all add: demo_tree_def run_ok_def before_def runs_fit_def)

lemma demo_tree_distinct: "clusters_distinct (runs demo_tree)"
  by (auto simp: clusters_distinct_def demo_tree_def covers_def image_lcn_def split: if_splits)

section \<open>Lookups\<close>

text \<open>
  C27: The binary search of \<^verbatim>\<open>run_lookup\<close> is equivalent to a linear reference: it reports whether the
  function of the list is defined at the cluster, the index of the first run that ends behind the
  cluster, and that run gives the value of the function.
\<close>
theorem run_lookup_correct:
  assumes "runs_wf rs"
  shows "run_lookup rs v = (run_map rs v \<noteq> None, run_pos rs v)
    \<and> (\<forall>l. run_map rs v = Some l \<longrightarrow> run_pos rs v < length rs \<and> l = image_lcn (rs ! run_pos rs v) v)"
  using assms
proof (cases rule: run_lookup_cases [where v = v])
  case (hit xs r zs)
  then have "runs_wf (r # zs)" "\<forall>x\<in>set xs. before x r" using assms by auto
  moreover have "run_map xs v = None" using calculation hit(3) by (intro run_map_behind) (fastforce simp: before_def)
  moreover have "run_pos rs v = length xs" using run_lookup_pos [OF assms] hit(2) by simp
  ultimately show ?thesis using hit by (simp add: run_map_append covers_def)
next
  case (miss xs ys)
  then have "run_map xs v = None" "run_map ys v = None" by (simp_all add: run_map_behind run_map_ahead)
  moreover have "run_pos rs v = length xs" using run_lookup_pos [OF assms] miss(2) by simp
  ultimately show ?thesis using miss(1,2) by (simp add: run_map_append)
qed

theorem run_lookup_correct_witness:
  "run_lookup (runs demo_tree) 9 = (True, 2) \<and> run_lookup (runs demo_tree) 10 = (False, 3)"
proof -
  have "run_pos (runs demo_tree) 9 = 2" "run_pos (runs demo_tree) 10 = 3" by code_simp+
  moreover have "run_map (runs demo_tree) 9 \<noteq> None" "run_map (runs demo_tree) 10 = None"
    by (simp_all add: demo_tree_def covers_def)
  ultimately show ?thesis
    using run_lookup_correct [OF demo_tree_ok(1), of 9] run_lookup_correct [OF demo_tree_ok(1), of 10] by simp
qed

text \<open>
  C30: \<^verbatim>\<open>run_lookup_entry\<close> fails exactly where nothing is mapped; otherwise it returns the logical
  cluster and the exact number of clusters up to the end of the run, and the whole stretch is mapped
  to consecutive clusters (or is sparse).
\<close>
theorem run_lookup_entry_correct:
  assumes "runs_wf (runs run)" and "runs_fit run"
  shows "(case run_lookup_entry run v of
      None \<Rightarrow> run_map (runs run) v = None
    | Some (lcn, len, i) \<Rightarrow> 0 < len \<and> i < length (runs run) \<and> v + len = r_vcn (runs run ! i) + r_len (runs run ! i)
        \<and> (\<forall>j<len. run_map (runs run) (v + j) = Some (if lcn = SPARSE_LCN then SPARSE_LCN else lcn + j)))"
  by (rule run_lookup_entry_spec [OF assms])

theorem run_lookup_entry_correct_witness:
  "run_lookup_entry demo_tree 1 = Some (101, 3, 0)
    \<and> map (run_map (runs demo_tree)) [1, 2, 3] = [Some 101, Some 102, Some 103]"
proof -
  have "run_lookup_entry demo_tree 1 = Some (101, 3, 0)" by code_simp
  moreover from this have "run_map (runs demo_tree) (1 + j) = Some (101 + j)" if "j < 3" for j
    using run_lookup_entry_correct [OF demo_tree_ok, of 1] that by simp
  from this [of 0] this [of 1] this [of 2]
  have "map (run_map (runs demo_tree)) [1, 2, 3] = [Some 101, Some 102, Some 103]" by (simp add: numeral_2_eq_2 numeral_3_eq_3)
  ultimately show ?thesis by blast
qed

text \<open>
  C31: \<^verbatim>\<open>run_is_mapped_full\<close> decides whether every cluster of a range is mapped.
\<close>
theorem run_is_mapped_full_correct:
  assumes "runs_wf rs" and "svcn \<le> evcn"
  shows "run_is_mapped_full rs svcn evcn \<longleftrightarrow> (\<forall>v. svcn \<le> v \<and> v \<le> evcn \<longrightarrow> run_map rs v \<noteq> None)"
  by (rule run_is_mapped_full_iff [OF assms])

theorem run_is_mapped_full_correct_witness:
  "run_is_mapped_full (runs demo_tree) 1 9 \<and> run_map (runs demo_tree) 1 \<noteq> None \<and> run_map (runs demo_tree) 9 \<noteq> None"
proof -
  have "run_is_mapped_full (runs demo_tree) 1 9" by code_simp
  then show ?thesis using run_is_mapped_full_correct [OF demo_tree_ok(1), of 1 9] by simp
qed

section \<open>Changes\<close>

text \<open>
  C24: \<^verbatim>\<open>run_add_entry\<close> refines the update of a function on an interval: it returns; when it reports
  success the list is well formed and its function is the old one, overridden on the clusters of the
  new run. It fails only when an allocation fails, and never outgrows the allocated array.
\<close>
theorem run_add_entry_correct:
  assumes "runs_wf (runs run)" and "run_ok new" and "relocatable (runs run) new"
  shows "\<exists>ok run' h'. run_add_entry k h run (r_vcn new) (r_lcn new) (r_len new) = Some (ok, run', h')
    \<and> (ok \<longrightarrow> runs_wf (runs run') \<and> run_map (runs run') = override (run_map (runs run)) new)
    \<and> (kvmalloc_succeeds k \<longrightarrow> ok)
    \<and> (runs_fit run \<and> blksize_bits_ok k \<longrightarrow> runs_fit run')"
  by (rule run_add_entry_spec [OF assms])

theorem run_add_entry_correct_witness:
  "\<exists>run' h'. run_add_entry demo_kernel () demo_tree 2 500 4 = Some (True, run', h')
    \<and> run_map (runs run') 1 = Some 101 \<and> run_map (runs run') 2 = Some 500 \<and> run_map (runs run') 5 = Some 503
    \<and> run_map (runs run') 6 = Some SPARSE_LCN \<and> runs_fit run'"
proof -
  let ?new = "\<lparr>r_vcn = 2, r_len = 4, r_lcn = 500\<rparr>"
  have "run_ok ?new" "relocatable (runs demo_tree) ?new" by (simp_all add: run_ok_def relocatable_def demo_tree_def)
  then obtain run' h' where r: "run_add_entry demo_kernel () demo_tree 2 500 4 = Some (True, run', h')"
      "run_map (runs run') = override (run_map (runs demo_tree)) ?new" "runs_fit run'"
    using run_add_entry_correct [OF demo_tree_ok(1), of ?new demo_kernel "()"] by auto
  have "run_map (runs run') 1 = Some 101" "run_map (runs run') 2 = Some 500" "run_map (runs run') 5 = Some 503"
    "run_map (runs run') 6 = Some SPARSE_LCN"
    by (simp_all add: r(2) override_def covers_def image_lcn_def demo_tree_def)
  then show ?thesis using r(1,3) by blast
qed

text \<open>
  When an allocation fails while a run is being split, \<^verbatim>\<open>run_add_entry\<close> reports the failure but has
  already cut the run: clusters that were mapped before and that the new run does not even contain
  are no longer mapped.
\<close>
lemma run_add_entry_memory_failure:
  "map (run_map (runs demo_tree)) [0..<4] = [Some 100, Some 101, Some 102, Some 103]
    \<and> map_option (\<lambda>(ok, run', h). (ok, map (run_map (runs run')) [0..<4]))
        (run_add_entry demo_failing_kernel () (demo_tree\<lparr>allocated := 36\<rparr>) 1 500 1)
      = Some (False, [Some 100, None, None, None])"
  by code_simp

text \<open>
  C32: \<^verbatim>\<open>run_truncate\<close> restricts the function of the list to the clusters before the given one and
  \<^verbatim>\<open>run_truncate_head\<close> to the others, and both keep the list well formed.
\<close>
theorem run_truncate_correct:
  assumes "runs_wf (runs run)"
  shows "runs_wf (runs (run_truncate run vcn)) \<and> runs_wf (runs (run_truncate_head run vcn))
    \<and> run_map (runs (run_truncate run vcn)) = (\<lambda>v. if v < vcn then run_map (runs run) v else None)
    \<and> run_map (runs (run_truncate_head run vcn)) = (\<lambda>v. if v < vcn then None else run_map (runs run) v)"
  using run_truncate_ok [OF assms] run_truncate_head_ok [OF assms] by simp

theorem run_truncate_correct_witness:
  "run_map (runs (run_truncate demo_tree 2)) 1 = Some 101 \<and> run_map (runs (run_truncate demo_tree 2)) 2 = None
    \<and> run_map (runs (run_truncate_head demo_tree 2)) 1 = None
    \<and> run_map (runs (run_truncate_head demo_tree 2)) 2 = Some 102"
  using run_truncate_correct [OF demo_tree_ok(1), of 2] by (simp add: demo_tree_def covers_def image_lcn_def)

text \<open>
  C28: \<^verbatim>\<open>run_collapse_range\<close> returns, fails only when an allocation fails, and otherwise removes the range
  from the function of the list and moves what is behind it down by the length of the range.
\<close>
theorem run_collapse_range_correct:
  assumes "runs_wf (runs run)" and "0 < len" and "vcn + len < 2 ^ 32" and "run_map (runs run) vcn \<noteq> None"
  shows "\<exists>ok run' h'. run_collapse_range k h run vcn len = Some (ok, run', h') \<and> (kvmalloc_succeeds k \<longrightarrow> ok)
    \<and> (ok \<longrightarrow> runs_wf (runs run')
         \<and> run_map (runs run') = (\<lambda>v. if v < vcn then run_map (runs run) v else run_map (runs run) (v + len)))"
  by (rule run_collapse_range_spec [OF assms])

theorem run_collapse_range_correct_witness:
  "\<exists>run' h'. run_collapse_range demo_kernel () demo_tree 2 4 = Some (True, run', h')
    \<and> run_map (runs run') 1 = Some 101 \<and> run_map (runs run') 2 = Some SPARSE_LCN \<and> run_map (runs run') 4 = Some 200"
proof -
  have "run_map (runs demo_tree) 2 \<noteq> None" by (simp add: demo_tree_def covers_def)
  then obtain run' h' where r: "run_collapse_range demo_kernel () demo_tree 2 4 = Some (True, run', h')"
      "run_map (runs run') = (\<lambda>v. if v < 2 then run_map (runs demo_tree) v else run_map (runs demo_tree) (v + 4))"
    using run_collapse_range_correct [OF demo_tree_ok(1), of 4 2 demo_kernel "()"] by auto
  have "run_map (runs run') 1 = Some 101" "run_map (runs run') 2 = Some SPARSE_LCN" "run_map (runs run') 4 = Some 200"
    by (simp_all add: r(2) covers_def image_lcn_def demo_tree_def)
  then show ?thesis using r(1) by blast
qed

section \<open>Mapping pairs\<close>

text \<open>
  \<^verbatim>\<open>run_packed_size\<close> is the least number of bytes, between 1 and 8, in which a signed 64-bit number
  fits, \<^verbatim>\<open>run_pack_s64\<close> writes that many bytes and \<^verbatim>\<open>run_unpack_s64\<close> reads the number back.
\<close>
lemma run_packed_size_least:
  assumes "- (2 ^ 63) \<le> n" and "n < 2 ^ 63"
  shows "1 \<le> run_packed_size n \<and> run_packed_size n \<le> 8 \<and> fits_bytes (run_packed_size n) n
    \<and> (\<forall>k. 1 \<le> k \<and> fits_bytes k n \<longrightarrow> run_packed_size n \<le> k)
    \<and> length (run_pack_s64 (run_packed_size n) n) = run_packed_size n
    \<and> (\<forall>mem. mem_has mem 0 (run_pack_s64 (run_packed_size n) n)
         \<longrightarrow> run_unpack_s64 mem 0 (run_packed_size n) (if n < 0 then -1 else 0) = n)"
proof -
  note sz = run_packed_size_ok [OF assms]
  have "run_unpack_s64 mem 0 (run_packed_size n) (if n < 0 then -1 else 0) = n"
    if "mem_has mem 0 (run_pack_s64 (run_packed_size n) n)" for mem
    using that sz(2) by (intro run_unpack_pack_s64 [OF sz(1-3)]) (simp add: mem_has_def run_pack_s64_def)
  then show ?thesis using sz by (simp add: run_pack_s64_def)
qed

lemma run_packed_size_least_witness:
  "fits_bytes (run_packed_size (- 129)) (- 129) \<and> run_packed_size (- 129) \<le> 2 \<and> run_packed_size (- 128) \<le> 1"
proof -
  have "fits_bytes 2 (- 129)" "fits_bytes 1 (- 128)" by (simp_all add: fits_bytes_def)
  then show ?thesis using run_packed_size_least [of "- 129"] run_packed_size_least [of "- 128"] by simp
qed

text \<open>
  C25: Packing a mapped range of a run list into a buffer that is large enough and unpacking the bytes
  into an empty list gives a well-formed list with the same function on the range; the number of
  bytes, the number of clusters and the highest cluster are reported correctly. The lists are those
  of a file: no cluster is used twice and none is cluster 0, since \<^verbatim>\<open>run_unpack\<close> refuses a distance
  of 0.
\<close>
theorem run_pack_unpack_round_trip:
  assumes "runs_wf (runs run)" and "runs_fit run" and "clusters_distinct (runs run)"
    and "0 < len" and "svcn + len < 2 ^ 32" and "\<forall>v. svcn \<le> v \<and> v < svcn + len \<longrightarrow> run_map (runs run) v \<noteq> None"
    and "17 * length (runs run) + 1 \<le> sz" and "sz < 2 ^ 31"
    and "\<forall>r\<in>set (runs run). r_lcn r = SPARSE_LCN \<or> r_lcn r + r_len r \<le> nbits sbi"
    and "kvmalloc_succeeds k" and "run_pack run svcn len sz = (ret, vcns, bytes)"
    and "mem_has mem 0 bytes" and "length bytes \<le> n"
  shows "ret = int (length bytes) \<and> vcns = len \<and> length bytes \<le> sz
    \<and> run_get_highest_vcn svcn mem = Some (Inr (svcn + len - 1))
    \<and> (\<exists>run' h'. run_unpack k sbi h s (RUN run_init) svcn (svcn + len - 1) svcn mem n = Some (ret, RUN run', h', s)
         \<and> runs_wf (runs run')
         \<and> run_map (runs run') = (\<lambda>v. if svcn \<le> v \<and> v < svcn + len then run_map (runs run) v else None))"
  by (rule run_pack_unpack [OF assms])

theorem run_pack_unpack_round_trip_witness:
  "run_pack demo_tree 1 8 64 = (9, 8, demo_bytes)
    \<and> (\<exists>run'. run_unpack demo_kernel demo_volume () () (RUN run_init) 1 8 1 (nth demo_bytes) 9 = Some (9, RUN run', (), ())
        \<and> run_map (runs run') 1 = Some 101 \<and> run_map (runs run') 8 = Some 200)"
proof -
  have p: "run_pack demo_tree 1 8 64 = (9, 8, demo_bytes)" by code_simp
  have m: "\<forall>v. 1 \<le> v \<and> v < 1 + 8 \<longrightarrow> run_map (runs demo_tree) v \<noteq> None" by (auto simp: demo_tree_def covers_def)
  have nb: "\<forall>r\<in>set (runs demo_tree). r_lcn r = SPARSE_LCN \<or> r_lcn r + r_len r \<le> nbits demo_volume"
    by (simp add: demo_tree_def demo_volume_def)
  have l: "17 * length (runs demo_tree) + 1 \<le> 64" "(0 :: nat) < 8" "(1 :: nat) + 8 < 2 ^ 32" "(64 :: nat) < 2 ^ 31"
    by (simp_all add: demo_tree_def)
  have h: "mem_has (nth demo_bytes) 0 demo_bytes" "length demo_bytes \<le> 9" by (simp_all add: mem_has_def demo_bytes_def)
  note rt = run_pack_unpack_round_trip
    [OF demo_tree_ok demo_tree_distinct l(2,3) m l(1,4) nb demo_kernel_ok(1) p h, of "()" "()"]
  have "(1 :: nat) + 8 - 1 = 8" by simp
  from rt [unfolded this] obtain run' h' where
    r: "run_unpack demo_kernel demo_volume () () (RUN run_init) 1 8 1 (nth demo_bytes) 9 = Some (9, RUN run', h', ())"
      "run_map (runs run') = (\<lambda>v. if 1 \<le> v \<and> v < 1 + 8 then run_map (runs demo_tree) v else None)" by blast
  have "run_map (runs run') 1 = Some 101" "run_map (runs run') 8 = Some 200"
    by (simp_all add: r(2) demo_tree_def covers_def image_lcn_def)
  then show ?thesis using p r(1) by (metis unit.exhaust)
qed

text \<open>
  Unpacking a sparse run from a cluster inside of it does not give a sparse run: \<^verbatim>\<open>lcn + dlen\<close> is
  computed on the marker \<^verbatim>\<open>SPARSE_LCN64\<close>, and the hole is mapped to the first clusters of the volume.
\<close>
lemma run_unpack_sparse_offset:
  "map_option (\<lambda>(ret, run, h, s). (ret, case run of RUN r \<Rightarrow> map (run_map (runs r)) [3, 4, 9] | _ \<Rightarrow> []))
     (run_unpack demo_kernel demo_volume () () (RUN run_init) 0 9 0 (\<lambda>i. [0x01, 10, 0] ! i) 3)
     = Some (3, [Some SPARSE_LCN, Some SPARSE_LCN, Some SPARSE_LCN])
   \<and> map_option (\<lambda>(ret, run, h, s). (ret, case run of RUN r \<Rightarrow> map (run_map (runs r)) [3, 4, 9] | _ \<Rightarrow> []))
     (run_unpack demo_kernel demo_volume () () (RUN run_init) 0 9 4 (\<lambda>i. [0x01, 10, 0] ! i) 3)
     = Some (3, [None, Some 3, Some 8])"
  by code_simp

text \<open>
  \<^verbatim>\<open>run_unpack\<close> compares the pointer with the end of the buffer only before the first byte of a run:
  with a buffer of one byte the result depends on the bytes behind the buffer.
\<close>
lemma run_unpack_reads_past_buffer:
  "map_option fst (run_unpack demo_kernel demo_volume () () (RUN run_init) 0 9 0 (\<lambda>i. [0x11, 10, 5] ! i) 1) = Some 3
   \<and> map_option fst (run_unpack demo_kernel demo_volume () () (RUN run_init) 0 9 0 (\<lambda>i. [0x11, 11, 5] ! i) 1)
     = Some (- EINVAL)"
  by code_simp

text \<open>
  C29: \<^verbatim>\<open>are_bits_clear\<close> and \<^verbatim>\<open>are_bits_set\<close>, which test single bits, bytes and machine words of a
  bitmap, are equivalent to testing every bit of the range.
\<close>
theorem are_bits_correct:
  "(are_bits_clear mem lmap bt nb \<longleftrightarrow> (\<forall>i<nb. \<not> bit_at mem (8 * lmap + bt + i)))
    \<and> (are_bits_set mem lmap bt nb \<longleftrightarrow> (\<forall>i<nb. bit_at mem (8 * lmap + bt + i)))"
  by (simp add: are_bits_clear_range are_bits_set_range range_is_def)

theorem are_bits_correct_witness:
  "are_bits_set (\<lambda>_. 0xff) 3 5 100 \<and> \<not> are_bits_clear (\<lambda>_. 0xff) 3 5 100"
proof -
  have "(0xff :: byte) = mask 8" by (simp add: mask_eq_exp_minus_1)
  then have "bit_at (\<lambda>_. 0xff) j" for j by (simp only: bit_at_def bit_mask_iff) simp
  then show ?thesis using are_bits_correct [of "\<lambda>_. 0xff" 3 5 100] by (auto dest: spec [of _ 0])
qed

end
