(* ===== verification/Ntfs_Lznt.thy ===== *)
theory Ntfs_Lznt
  imports C_Prelude
begin

text \<open>
  The LZNT1 compression of \<^verbatim>\<open>fs/ntfs3/lznt.c\<close>. Data is compressed in chunks of 4096 bytes; a compressed
  chunk is a header of two bytes and groups of eight items behind a control byte, where an item is a
  byte or a pair of a distance and a length in 16 bits. How the 16 bits are divided depends on the
  position in the chunk.

  For the compression the uncompressed data is memory, a function on addresses; \<^verbatim>\<open>NULL\<close> is the address 0.
  Compressed data is a list of bytes, and an output buffer is the list of the bytes written to it so far. The
  second half of the theory has the lemmas on the pairs, on the index of a position and on the two searches.
\<close>

unbundle bit_operations_syntax

section \<open>Tables and pairs\<close>

abbreviation (input) EINVAL :: int where "EINVAL \<equiv> 22"
abbreviation (input) LZNT_ERROR_ALL_ZEROS :: int where "LZNT_ERROR_ALL_ZEROS \<equiv> 1"
abbreviation (input) LZNT_CHUNK_SIZE :: nat where "LZNT_CHUNK_SIZE \<equiv> 4096"

definition s_max_len :: "nat list" where
  "s_max_len = [0x1002, 0x802, 0x402, 0x202, 0x102, 0x82, 0x42, 0x22, 0x12]"

definition s_max_off :: "nat list" where
  "s_max_off = [0x10, 0x20, 0x40, 0x80, 0x100, 0x200, 0x400, 0x800, 0x1000]"

text \<open>
  \<^verbatim>\<open>while (unc + s_max_off[index] < up) index += 1\<close>, where \<open>pos\<close> is \<^verbatim>\<open>up - unc\<close>. The result 9 stands for
  reading behind the table.
\<close>

function adjust_index :: "nat \<Rightarrow> nat \<Rightarrow> nat" where
  "adjust_index pos index =
     (if index < length s_max_off \<and> s_max_off ! index < pos then adjust_index pos (index + 1) else index)"
  by pat_completeness auto
termination
  by (relation "measure (\<lambda>(pos, index). length s_max_off - index)") auto

declare adjust_index.simps [simp del]

definition make_pair :: "nat \<Rightarrow> nat \<Rightarrow> nat \<Rightarrow> nat" where
  "make_pair offset len index =
     (push_bit (12 - index) (offset - 1) OR ((len - 3) AND (2 ^ (12 - index) - 1))) mod 2 ^ 16"

text \<open>The length and the distance.\<close>

definition parse_pair :: "nat \<Rightarrow> nat \<Rightarrow> nat \<times> nat" where
  "parse_pair pair index = (3 + (pair AND (2 ^ (12 - index) - 1)), 1 + drop_bit (12 - index) pair)"

section \<open>Searching matches\<close>

text \<open>\<^verbatim>\<open>hash\<close> maps an index of the table to \<^verbatim>\<open>p1\<close> and \<^verbatim>\<open>p2\<close>.\<close>

record lznt =
  unc :: nat
  unc_end :: nat
  best_match :: nat
  max_len :: nat
  std :: bool
  hash :: "nat \<Rightarrow> nat \<times> nat"

function match_len_loop :: "(nat \<Rightarrow> byte) \<Rightarrow> nat \<Rightarrow> nat \<Rightarrow> nat \<Rightarrow> nat \<Rightarrow> nat \<Rightarrow> nat" where
  "match_len_loop mem ptr fin prev max_l len =
     (if ptr + len < fin \<and> mem (ptr + len) = mem (prev + len)
      then if len + 1 < max_l then match_len_loop mem ptr fin prev max_l (len + 1) else len + 1
      else len)"
  by pat_completeness auto
termination
  by (relation "measure (\<lambda>(mem, ptr, fin, prev, max_l, len). fin - (ptr + len))") auto

declare match_len_loop.simps [simp del]

definition get_match_len :: "(nat \<Rightarrow> byte) \<Rightarrow> nat \<Rightarrow> nat \<Rightarrow> nat \<Rightarrow> nat \<Rightarrow> nat" where
  "get_match_len mem ptr fin prev max_l = match_len_loop mem ptr fin prev max_l 0"

definition hash_index :: "byte \<Rightarrow> byte \<Rightarrow> byte \<Rightarrow> nat" where
  "hash_index a b c =
     drop_bit 4 (u32 (40543 * (push_bit 4 (push_bit 4 (unat a) XOR unat b) XOR unat c))) AND (LZNT_CHUNK_SIZE - 1)"

text \<open>The test of one candidate of the hash table, and the length of its match.\<close>

definition candidate_len :: "(nat \<Rightarrow> byte) \<Rightarrow> nat \<Rightarrow> lznt \<Rightarrow> nat \<Rightarrow> nat" where
  "candidate_len mem src ctx p =
     (if p \<ge> unc ctx \<and> p < src \<and> mem p = mem src \<and> mem (p + 1) = mem (src + 1) \<and> mem (p + 2) = mem (src + 2)
      then 3 + (if max_len ctx > 3
                then get_match_len mem (src + 3) (unc_end ctx) (p + 3) (max_len ctx - 3) else 0)
      else 0)"

definition longest_match_std :: "(nat \<Rightarrow> byte) \<Rightarrow> nat \<Rightarrow> lznt \<Rightarrow> nat \<times> lznt" where
  "longest_match_std mem src ctx =
     (let index = hash_index (mem src) (mem (src + 1)) (mem (src + 2));
          (p1, p2) = hash ctx index;
          len1 = candidate_len mem src ctx p1;
          len2 = candidate_len mem src ctx p2;
          ctx' = ctx\<lparr>hash := (hash ctx)(index := (src, p1))\<rparr>
      in if len1 < len2 then (len2, ctx'\<lparr>best_match := p2\<rparr>) else (len1, ctx'\<lparr>best_match := p1\<rparr>))"

text \<open>The loop of \<^verbatim>\<open>longest_match_best\<close> over the earlier positions of the chunk.\<close>

fun best_loop :: "(nat \<Rightarrow> byte) \<Rightarrow> nat \<Rightarrow> lznt \<Rightarrow> nat list \<Rightarrow> nat \<Rightarrow> nat \<times> lznt" where
  "best_loop mem src ctx [] m = (m, ctx)"
| "best_loop mem src ctx (ptr # ptrs) m =
     (let len = get_match_len mem src (unc_end ctx) ptr (max_len ctx) in
      if len \<ge> m then best_loop mem src (ctx\<lparr>best_match := ptr\<rparr>) ptrs len
      else best_loop mem src ctx ptrs m)"

definition longest_match_best :: "(nat \<Rightarrow> byte) \<Rightarrow> nat \<Rightarrow> lznt \<Rightarrow> nat \<times> lznt" where
  "longest_match_best mem src ctx =
     (if unc ctx \<ge> src \<or> max_len ctx = 0 then (0, ctx)
      else
        let (m, ctx) = best_loop mem src ctx [unc ctx..<src] 0
        in (if m \<ge> 3 then m else 0, ctx))"

section \<open>Compression\<close>

text \<open>
  The local variables of \<^verbatim>\<open>compress_chunk\<close>. \<open>z_out\<close> is the part of the buffer from \<^verbatim>\<open>cmpr\<close> to \<^verbatim>\<open>cp\<close> and
  \<open>z_cp2\<close> is \<^verbatim>\<open>cp2 - cmpr\<close>; bytes that are skipped to be written later are 0 until then.
\<close>

record lz_state =
  z_up :: nat
  z_cnt :: nat
  z_idx :: nat
  z_out :: "byte list"
  z_cp2 :: nat
  z_not_zero :: byte
  z_ohdr :: byte
  z_ctx :: lznt

text \<open>The end of a turn: the next bit of the control byte, and a new control byte behind eight items.\<close>

definition next_item :: "lz_state \<Rightarrow> lz_state" where
  "next_item s =
     (let cnt = (z_cnt s + 1) AND 7 in
      if cnt = 0
      then s\<lparr>z_cnt := cnt, z_out := (z_out s)[z_cp2 s := z_ohdr s] @ [0], z_ohdr := 0, z_cp2 := length (z_out s)\<rparr>
      else s\<lparr>z_cnt := cnt\<rparr>)"

definition put_byte :: "(nat \<Rightarrow> byte) \<Rightarrow> lz_state \<Rightarrow> lz_state" where
  "put_byte mem s =
     s\<lparr>z_not_zero := z_not_zero s OR mem (z_up s), z_out := z_out s @ [mem (z_up s)], z_up := z_up s + 1\<rparr>"

definition put_pair :: "nat \<Rightarrow> lz_state \<Rightarrow> lz_state" where
  "put_pair n s =
     (let t16 = make_pair (z_up s - best_match (z_ctx s)) n (z_idx s) in
      s\<lparr>z_out := z_out s @ [word_of_nat t16, word_of_nat (drop_bit 8 t16)],
        z_ohdr := z_ohdr s OR push_bit (z_cnt s) 1, z_up := z_up s + n\<rparr>)"

text \<open>Moving the index to the position, and the search at the position.\<close>

definition find_match ::
    "((nat \<Rightarrow> byte) \<Rightarrow> nat \<Rightarrow> lznt \<Rightarrow> nat \<times> lznt) \<Rightarrow> (nat \<Rightarrow> byte) \<Rightarrow> nat \<Rightarrow> nat \<Rightarrow> lz_state \<Rightarrow> nat \<times> lz_state" where
  "find_match match mem u e s =
     (let idx = adjust_index (z_up s - u) (z_idx s);
          ctx = (if idx \<noteq> z_idx s then (z_ctx s)\<lparr>max_len := s_max_len ! idx\<rparr> else z_ctx s);
          (n, ctx) = (if z_up s + 3 \<le> e then match mem (z_up s) ctx else (0, ctx))
      in (n, s\<lparr>z_idx := idx, z_ctx := ctx\<rparr>))"

text \<open>The loop: true when the whole chunk is done, false for the jump to \<^verbatim>\<open>NotCompressed\<close>.\<close>

function compress_loop ::
    "((nat \<Rightarrow> byte) \<Rightarrow> nat \<Rightarrow> lznt \<Rightarrow> nat \<times> lznt) \<Rightarrow> (nat \<Rightarrow> byte) \<Rightarrow> nat \<Rightarrow> nat \<Rightarrow> nat \<Rightarrow> lz_state \<Rightarrow> bool \<times> lz_state" where
  "compress_loop match mem u e lim s =
     (if z_up s < e then
        case find_match match mem u e s of
          (n, s') \<Rightarrow>
            if n = 0 then
              if length (z_out s') \<ge> lim then (False, s')
              else compress_loop match mem u e lim (next_item (put_byte mem s'))
            else if length (z_out s') + 1 \<ge> lim then (False, s')
            else compress_loop match mem u e lim (next_item (put_pair n s'))
      else (True, s))"
  by pat_completeness auto
termination
  by (relation "measure (\<lambda>(match, mem, u, e, lim, s). e - z_up s)")
    (auto simp: find_match_def put_byte_def put_pair_def next_item_def Let_def split: prod.splits)

declare compress_loop.simps [simp del]

definition chunk_state :: "nat \<Rightarrow> nat \<Rightarrow> lznt \<Rightarrow> lz_state" where
  "chunk_state u e ctx =
     \<lparr>z_up = u, z_cnt = 0, z_idx = 0, z_out = [0, 0, 0], z_cp2 = 2, z_not_zero = 0, z_ohdr = 0,
      z_ctx = ctx\<lparr>unc := u, unc_end := e, max_len := s_max_len ! 0\<rparr>\<rparr>"

text \<open>The last control byte and the header.\<close>

definition finish_chunk :: "nat \<Rightarrow> lz_state \<Rightarrow> byte list" where
  "finish_chunk lim s =
     (let out = (if z_cp2 s < lim then (z_out s)[z_cp2 s := z_ohdr s] else butlast (z_out s));
          t16 = (length out - 3) OR 0xB000
      in out[0 := word_of_nat t16, 1 := word_of_nat (drop_bit 8 t16)])"

text \<open>
  \<^verbatim>\<open>compress_chunk\<close> with \<open>room\<close> bytes up to \<^verbatim>\<open>cmpr_end\<close>: the result, the bytes written and the context.
\<close>

definition compress_chunk ::
    "((nat \<Rightarrow> byte) \<Rightarrow> nat \<Rightarrow> lznt \<Rightarrow> nat \<times> lznt) \<Rightarrow> (nat \<Rightarrow> byte) \<Rightarrow> nat \<Rightarrow> nat \<Rightarrow> nat \<Rightarrow> lznt \<Rightarrow> int \<times> byte list \<times> lznt" where
  "compress_chunk match mem u e room ctx =
     (let e = (if u + LZNT_CHUNK_SIZE < e then u + LZNT_CHUNK_SIZE else e);
          lim = min (LZNT_CHUNK_SIZE + 2) room
      in case compress_loop match mem u e lim (chunk_state u e ctx) of
           (True, s) \<Rightarrow> (if z_not_zero s \<noteq> 0 then 0 else LZNT_ERROR_ALL_ZEROS, finish_chunk lim s, z_ctx s)
         | (False, s) \<Rightarrow>
             if LZNT_CHUNK_SIZE + 2 > lim then (-2, [], z_ctx s)
             else (0, [0xff, 0x3f] @ map mem [u..<u + LZNT_CHUNK_SIZE], z_ctx s))"

text \<open>The compression cycle: the bytes and whether all chunks were zero, or \<open>None\<close> when a chunk does not fit.\<close>

function compress_chunks ::
    "((nat \<Rightarrow> byte) \<Rightarrow> nat \<Rightarrow> lznt \<Rightarrow> nat \<times> lznt) \<Rightarrow> (nat \<Rightarrow> byte) \<Rightarrow> nat \<Rightarrow> nat \<Rightarrow> nat \<Rightarrow> byte list \<Rightarrow> bool \<Rightarrow> lznt
     \<Rightarrow> (bool \<times> byte list) option" where
  "compress_chunks match mem u e room out is_zero ctx =
     (if u < e then
        case compress_chunk match mem u e (room - length out) ctx of
          (err, bs, ctx) \<Rightarrow>
            if err < 0 then None
            else compress_chunks match mem (u + LZNT_CHUNK_SIZE) e room (out @ bs)
                   (is_zero \<and> err = LZNT_ERROR_ALL_ZEROS) ctx
      else Some (is_zero, out))"
  by pat_completeness auto
termination
  by (relation "measure (\<lambda>(match, mem, u, e, room, out, z, ctx). e - u)") auto

declare compress_chunks.simps [simp del]

text \<open>
  The context of \<^verbatim>\<open>get_lznt_ctx\<close>; whether \<^verbatim>\<open>kzalloc\<close> succeeds is an argument. The table is allocated for the
  standard level only, and only \<^verbatim>\<open>longest_match_std\<close> reads it.
\<close>

definition get_lznt_ctx :: "bool \<Rightarrow> int \<Rightarrow> lznt option" where
  "get_lznt_ctx allocated level =
     (if allocated
      then Some \<lparr>unc = 0, unc_end = 0, best_match = 0, max_len = 0, std = (level = 0), hash = (\<lambda>_. (0, 0))\<rparr>
      else None)"

text \<open>
  The result, and the bytes of the chunks and the end mark that are at \<^verbatim>\<open>cmpr\<close> then. When a chunk does not fit the
  result is \<^verbatim>\<open>unc_size\<close> and the buffer holds no data of use.
\<close>

definition compress_lznt :: "(nat \<Rightarrow> byte) \<Rightarrow> nat \<Rightarrow> nat \<Rightarrow> nat \<Rightarrow> lznt \<Rightarrow> nat \<times> byte list" where
  "compress_lznt mem u unc_size cmpr_size ctx =
     (let (match, ctx) = (if std ctx then (longest_match_std, ctx\<lparr>hash := (\<lambda>_. (0, 0))\<rparr>) else (longest_match_best, ctx))
      in case compress_chunks match mem u (u + unc_size) cmpr_size [] True ctx of
           None \<Rightarrow> (unc_size, [])
         | Some (is_zero, out) \<Rightarrow>
             (if is_zero then 0 else length out, if length out + 2 \<le> cmpr_size then out @ [0, 0] else out))"

section \<open>Decompression\<close>

text \<open>\<^verbatim>\<open>for (; length > 0; length--, up++) *up = *(up - offset)\<close>\<close>

fun copy_match :: "nat \<Rightarrow> nat \<Rightarrow> byte list \<Rightarrow> byte list" where
  "copy_match 0 offset up = up"
| "copy_match (Suc n) offset up = copy_match n offset (up @ [up ! (length up - offset)])"

text \<open>
  \<open>cs\<close> are the bytes up to \<^verbatim>\<open>cmpr_end\<close>, \<open>i\<close> the position in them, \<open>cap\<close> is \<^verbatim>\<open>unc_end - unc\<close> and \<open>up\<close>
  what has been written from \<^verbatim>\<open>unc\<close> on. One item gives the new position and the new output, or an error.
\<close>

definition decode_item :: "byte list \<Rightarrow> nat \<Rightarrow> nat \<Rightarrow> byte \<Rightarrow> nat \<Rightarrow> nat \<Rightarrow> byte list \<Rightarrow> int + nat \<times> byte list" where
  "decode_item cs cap i ch b index up =
     (if ch AND push_bit b 1 = 0 then Inr (i + 1, up @ [cs ! i])
      else if i + 1 \<ge> length cs then Inl (- EINVAL)
      else
        let pair = push_bit 8 (unat (cs ! (i + 1))) OR unat (cs ! i);
            (len, offset) = parse_pair pair index in
        if offset > length up then Inl (- EINVAL)
        else Inr (i + 2, copy_match (if length up + len \<ge> cap then cap - length up else len) offset up))"

text \<open>
  The loop of \<^verbatim>\<open>decompress_chunk\<close>. \<open>None\<close> stands for a read behind the table \<^verbatim>\<open>s_max_off\<close>, \<open>Inl\<close> for an error.
\<close>

function decompress_loop ::
    "byte list \<Rightarrow> nat \<Rightarrow> nat \<Rightarrow> byte \<Rightarrow> nat \<Rightarrow> nat \<Rightarrow> byte list \<Rightarrow> (int + byte list) option" where
  "decompress_loop cs cap i ch b index up =
     (if length up < cap \<and> i < length cs then
        let index' = adjust_index (length up) index in
        if index' \<ge> length s_max_off then None
        else
          case decode_item cs cap i ch b index' up of
            Inl err \<Rightarrow> Some (Inl err)
          | Inr (i', up') \<Rightarrow>
              let b' = (b + 1) AND 7 in
              if b' = 0 then
                if i' \<ge> length cs then Some (Inr up')
                else decompress_loop cs cap (i' + 1) (cs ! i') b' index' up'
              else decompress_loop cs cap i' ch b' index' up'
      else Some (Inr up))"
  by pat_completeness auto
termination
  by (relation "measure (\<lambda>(cs, cap, i, x). length cs - i)")
    (auto simp: decode_item_def Let_def split: if_splits prod.splits)

declare decompress_loop.simps [simp del]

definition decompress_chunk :: "nat \<Rightarrow> byte list \<Rightarrow> (int + byte list) option" where
  "decompress_chunk cap cs = decompress_loop cs cap 1 (cs ! 0) 0 0 []"

definition chunk_hdr :: "byte list \<Rightarrow> nat \<Rightarrow> nat" where
  "chunk_hdr cs c = push_bit 8 (unat (cs ! (c + 1))) OR unat (cs ! c)"

text \<open>The body of one turn of \<^verbatim>\<open>decompress_lznt\<close>: what the chunk at \<open>c\<close> with a header adds to the output.\<close>

definition chunk_data :: "byte list \<Rightarrow> nat \<Rightarrow> nat \<Rightarrow> nat \<Rightarrow> nat \<Rightarrow> (int + byte list) option" where
  "chunk_data cs cap c hdr cmpr_use =
     (if c + cmpr_use > length cs then Some (Inl (- EINVAL))
      else if hdr AND 0x8000 \<noteq> 0 then decompress_chunk cap (memget cs (c + 2) (cmpr_use - 2))
      else
        let unc_use = (if LZNT_CHUNK_SIZE > cap then cap else LZNT_CHUNK_SIZE) in
        if c + 2 + unc_use > length cs then Some (Inl (- EINVAL))
        else Some (Inr (memget cs (c + 2) unc_use)))"

text \<open>
  The loop of \<^verbatim>\<open>decompress_lznt\<close>: \<open>c\<close> is the position of the chunk and \<open>hdr\<close> its header. A chunk that gives less than
  4096 bytes and is followed by another one is filled up with zeros. The test behind the loop, that the chunks end
  inside of the input, repeats the first test of every turn and cannot fail.
\<close>

function decompress_chunks :: "byte list \<Rightarrow> nat \<Rightarrow> nat \<Rightarrow> nat \<Rightarrow> byte list \<Rightarrow> (int + byte list) option" where
  "decompress_chunks cs unc_size c hdr out =
     (let cmpr_use = 3 + (hdr AND (LZNT_CHUNK_SIZE - 1)) in
      case chunk_data cs (unc_size - length out) c hdr cmpr_use of
        None \<Rightarrow> None
      | Some (Inl err) \<Rightarrow> Some (Inl err)
      | Some (Inr data) \<Rightarrow>
          let c = c + cmpr_use; out = out @ data in
          if length out \<ge> unc_size \<or> c + 2 > length cs then Some (Inr out)
          else
            let hdr = chunk_hdr cs c in
            if hdr = 0 then Some (Inr out)
            else if length data < LZNT_CHUNK_SIZE then
              let t1 = LZNT_CHUNK_SIZE - length data in
              if length out + t1 \<ge> unc_size then Some (Inr out)
              else decompress_chunks cs unc_size c hdr (out @ replicate t1 0)
            else decompress_chunks cs unc_size c hdr out)"
  by pat_completeness auto
termination
  by (relation "measure (\<lambda>(cs, n, c, x). length cs - c)") auto

declare decompress_chunks.simps [simp del]

definition decompress_lznt :: "byte list \<Rightarrow> nat \<Rightarrow> (int + byte list) option" where
  "decompress_lznt cs unc_size =
     (if length cs < 2 then Some (Inl (- EINVAL)) else decompress_chunks cs unc_size 0 (chunk_hdr cs 0) [])"

section \<open>The index of a position\<close>

lemma less_9_cases: "i < 9 \<Longrightarrow> i = 0 \<or> i = 1 \<or> i = 2 \<or> i = 3 \<or> i = 4 \<or> i = 5 \<or> i = 6 \<or> i = 7 \<or> i = (8::nat)"
  by arith

lemma s_max_off_nth [simp]: "i < 9 \<Longrightarrow> s_max_off ! i = 2 ^ (4 + i)"
  by (drule less_9_cases) (elim disjE; simp add: s_max_off_def)

lemma s_max_len_nth [simp]: "i < 9 \<Longrightarrow> s_max_len ! i = 2 ^ (12 - i) + 2"
  by (drule less_9_cases) (elim disjE; simp add: s_max_len_def)

lemma length_s_max_off [simp]: "length s_max_off = 9"
  by (simp add: s_max_off_def)

lemma adjust_index_ge: "index \<le> adjust_index pos index"
  by (induction pos index rule: adjust_index.induct) (subst adjust_index.simps, auto)

lemma adjust_index_ok:
  "\<lbrakk>index \<le> 8; pos \<le> 4096\<rbrakk> \<Longrightarrow> adjust_index pos index \<le> 8 \<and> pos \<le> 2 ^ (4 + adjust_index pos index)"
proof (induction pos index rule: adjust_index.induct)
  case (1 pos index)
  show ?case
  proof (cases "2 ^ (4 + index) < pos")
    case True
    then have "index \<noteq> 8" using 1(3) by auto
    then have "adjust_index pos index = adjust_index pos (index + 1)"
      using 1(2) True by (subst adjust_index.simps) simp
    then show ?thesis using 1 True \<open>index \<noteq> 8\<close> by simp
  next
    case False
    then show ?thesis using 1(2) by (subst (1 2) adjust_index.simps) simp
  qed
qed

section \<open>Round trip of a pair\<close>

lemma pair_value:
  assumes "index \<le> 8" "1 \<le> offset" "offset \<le> 2 ^ (4 + index)" "3 \<le> len" "len \<le> 2 ^ (12 - index) + 2"
  shows "make_pair offset len index = (offset - 1) * 2 ^ (12 - index) + (len - 3)"
    and "make_pair offset len index < 2 ^ 16"
proof -
  let ?w = "12 - index"
  have len: "len - 3 < 2 ^ ?w" using assms(4,5) by (simp add: less_diff_conv2)
  have w: "?w + (4 + index) = 16" using assms(1) by simp
  have "(offset - 1) * 2 ^ ?w + (len - 3) < (offset - 1 + 1) * 2 ^ ?w" using len by simp
  also have "\<dots> \<le> 2 ^ (4 + index) * 2 ^ ?w" using assms(2,3) by (intro mult_right_mono) auto
  also have "\<dots> = 2 ^ (?w + (4 + index))" by (simp add: power_add)
  finally have less: "(offset - 1) * 2 ^ ?w + (len - 3) < 2 ^ 16" using w by simp
  have mask: "(2::nat) ^ ?w - 1 = mask ?w" by (simp add: mask_eq_exp_minus_1)
  have and_len: "(len - 3) AND mask ?w = len - 3" using len by (simp add: take_bit_eq_mask [symmetric] take_bit_nat_eq_self)
  have "push_bit ?w (offset - 1) OR (len - 3) = push_bit ?w (offset - 1) + (len - 3)"
  proof (rule disjunctive_add [symmetric])
    fix n
    show "\<not> bit (push_bit ?w (offset - 1)) n \<or> \<not> bit (len - 3) n"
      using len by (metis bit_push_bit_iff bit_take_bit_iff take_bit_nat_eq_self not_le)
  qed
  then have eq: "push_bit ?w (offset - 1) OR (len - 3) = (offset - 1) * 2 ^ ?w + (len - 3)"
    by (simp add: push_bit_eq_mult)
  show "make_pair offset len index = (offset - 1) * 2 ^ ?w + (len - 3)"
    unfolding make_pair_def mask and_len eq using less by simp
  then show "make_pair offset len index < 2 ^ 16" using less by simp
qed

lemma pair_round_trip:
  assumes "index \<le> 8" "1 \<le> offset" "offset \<le> 2 ^ (4 + index)" "3 \<le> len" "len \<le> 2 ^ (12 - index) + 2"
  shows "parse_pair (make_pair offset len index) index = (len, offset)"
proof -
  obtain l d where l: "len = 3 + l" and d: "offset = Suc d" using assms(2,4) by (metis Suc_le_D One_nat_def le_Suc_ex)
  have less: "l < 2 ^ (12 - index)" using assms(5) l by simp
  have mask: "(2::nat) ^ (12 - index) - 1 = mask (12 - index)" by (simp add: mask_eq_exp_minus_1)
  have pair: "make_pair (Suc d) (3 + l) index = d * 2 ^ (12 - index) + l"
    using pair_value(1) [OF assms] unfolding l d by simp
  show ?thesis
    unfolding l d parse_pair_def pair mask take_bit_eq_mask [symmetric]
    using less by (simp add: take_bit_eq_mod drop_bit_eq_div)
qed

lemma pair_bytes:
  assumes "p < 2 ^ 16"
  shows "push_bit 8 (unat (word_of_nat (drop_bit 8 p) :: byte)) OR unat (word_of_nat p :: byte) = p"
proof -
  have "unat (word_of_nat (drop_bit 8 p) :: byte) = drop_bit 8 p"
    using assms by (simp add: unat_of_nat drop_bit_eq_div)
  moreover have "unat (word_of_nat p :: byte) = take_bit 8 p" by (simp add: unat_of_nat take_bit_eq_mod)
  moreover have "push_bit 8 (drop_bit 8 p) OR take_bit 8 p = p"
    by (rule bit_eqI) (auto simp: bit_simps le_add_diff_inverse)
  ultimately show ?thesis by simp
qed

section \<open>Matches\<close>

text \<open>A match of \<open>n\<close> bytes at \<open>src\<close> with the earlier position \<open>p\<close>.\<close>

definition match_ok :: "(nat \<Rightarrow> byte) \<Rightarrow> lznt \<Rightarrow> nat \<Rightarrow> nat \<Rightarrow> nat \<Rightarrow> bool" where
  "match_ok mem ctx src n p \<longleftrightarrow> 3 \<le> n \<and> n \<le> max_len ctx \<and> unc ctx \<le> p \<and> p < src \<and> src + n \<le> unc_end ctx \<and>
     (\<forall>k<n. mem (src + k) = mem (p + k))"

lemma match_len_loop_ok:
  "\<lbrakk>ptr + len \<le> fin; len < max_l; \<forall>k<len. mem (ptr + k) = mem (prev + k)\<rbrakk> \<Longrightarrow>
   match_len_loop mem ptr fin prev max_l len \<le> max_l \<and> ptr + match_len_loop mem ptr fin prev max_l len \<le> fin \<and>
   (\<forall>k<match_len_loop mem ptr fin prev max_l len. mem (ptr + k) = mem (prev + k)) \<and>
   (let n = match_len_loop mem ptr fin prev max_l len in
    n < max_l \<and> ptr + n < fin \<longrightarrow> mem (ptr + n) \<noteq> mem (prev + n))"
proof (induction mem ptr fin prev max_l len rule: match_len_loop.induct)
  case (1 mem ptr fin prev max_l len)
  show ?case
  proof (cases "ptr + len < fin \<and> mem (ptr + len) = mem (prev + len)")
    case True
    then have eq: "\<forall>k<len + 1. mem (ptr + k) = mem (prev + k)" using 1(4) by (auto simp: less_Suc_eq)
    show ?thesis
    proof (cases "len + 1 < max_l")
      case less: True
      then have "match_len_loop mem ptr fin prev max_l len = match_len_loop mem ptr fin prev max_l (len + 1)"
        using True by (subst match_len_loop.simps) simp
      then show ?thesis using 1(1) [OF True less] True less eq by simp
    next
      case False
      then have "match_len_loop mem ptr fin prev max_l len = len + 1"
        using True by (subst match_len_loop.simps) simp
      then show ?thesis using False True eq 1(3) by (simp add: Let_def)
    qed
  next
    case False
    then have "match_len_loop mem ptr fin prev max_l len = len" by (subst match_len_loop.simps) auto
    then show ?thesis using False 1(2-4) by (auto simp: Let_def)
  qed
qed

lemmas get_match_len_ok = match_len_loop_ok [where len = 0, simplified, folded get_match_len_def]

text \<open>The length is that of the longest common run: no longer run within the bounds agrees.\<close>

lemma get_match_len_longest:
  assumes "0 < max_l" "n \<le> max_l" "ptr + n \<le> fin" "\<forall>k<n. mem (ptr + k) = mem (prev + k)"
  shows "n \<le> get_match_len mem ptr fin prev max_l"
proof (rule ccontr)
  let ?m = "get_match_len mem ptr fin prev max_l"
  assume "\<not> n \<le> ?m"
  then have "?m < n" by simp
  then have "mem (ptr + ?m) \<noteq> mem (prev + ?m)"
    using get_match_len_ok [of ptr fin max_l mem prev] assms(1-3) by (simp add: Let_def)
  then show False using assms(4) \<open>?m < n\<close> by blast
qed

lemma candidate_len_ok:
  assumes "src + 3 \<le> unc_end ctx" "3 \<le> max_len ctx" "candidate_len mem src ctx p \<noteq> 0"
  shows "match_ok mem ctx src (candidate_len mem src ctx p) p"
proof -
  let ?g = "get_match_len mem (src + 3) (unc_end ctx) (p + 3) (max_len ctx - 3)"
  let ?n = "if 3 < max_len ctx then ?g else 0"
  have cand: "unc ctx \<le> p" "p < src" "mem p = mem src" "mem (p + 1) = mem (src + 1)" "mem (p + 2) = mem (src + 2)"
    and n: "candidate_len mem src ctx p = 3 + ?n"
    using assms(3) by (auto simp: candidate_len_def split: if_splits)
  have tail: "?n \<le> max_len ctx - 3 \<and> src + 3 + ?n \<le> unc_end ctx \<and> (\<forall>k<?n. mem (src + 3 + k) = mem (p + 3 + k))"
    using get_match_len_ok [of "src + 3" "unc_end ctx" "max_len ctx - 3" mem "p + 3"] assms(1,2) by (simp add: Let_def)
  have "mem (src + k) = mem (p + k)" if "k < 3 + ?n" for k
  proof (cases "k < 3")
    case True
    then have "k = 0 \<or> k = 1 \<or> k = 2" by arith
    then show ?thesis using cand(3-5) by auto
  next
    case False
    then obtain j where j: "k = 3 + j" by (metis le_Suc_ex not_less)
    then show ?thesis using tail that by (simp add: add.assoc)
  qed
  then show ?thesis using cand tail assms(2) unfolding match_ok_def n by auto
qed

lemma longest_match_std_ok:
  assumes "longest_match_std mem src ctx = (n, ctx')" "src + 3 \<le> unc_end ctx" "3 \<le> max_len ctx"
  shows "unc ctx' = unc ctx \<and> unc_end ctx' = unc_end ctx \<and> max_len ctx' = max_len ctx"
    and "n \<noteq> 0 \<Longrightarrow> match_ok mem ctx src n (best_match ctx')"
  using assms candidate_len_ok [OF assms(2,3)]
  by (auto simp: longest_match_std_def Let_def split: prod.splits if_splits)

lemma best_loop_ok:
  assumes "best_loop mem src ctx ptrs m = (n, ctx')" "src \<le> unc_end ctx" "0 < max_len ctx"
    "set ptrs \<subseteq> {unc ctx..<src}" "m \<ge> 3 \<Longrightarrow> match_ok mem ctx src m (best_match ctx)"
  shows "unc ctx' = unc ctx \<and> unc_end ctx' = unc_end ctx \<and> max_len ctx' = max_len ctx"
    and "n \<ge> 3 \<Longrightarrow> match_ok mem ctx src n (best_match ctx')"
    and "m \<le> n \<and> (\<forall>p\<in>set ptrs. get_match_len mem src (unc_end ctx) p (max_len ctx) \<le> n)"
proof -
  have "unc ctx' = unc ctx \<and> unc_end ctx' = unc_end ctx \<and> max_len ctx' = max_len ctx \<and>
    (n \<ge> 3 \<longrightarrow> match_ok mem ctx src n (best_match ctx')) \<and>
    m \<le> n \<and> (\<forall>p\<in>set ptrs. get_match_len mem src (unc_end ctx) p (max_len ctx) \<le> n)"
    using assms
  proof (induction mem src ctx ptrs m rule: best_loop.induct)
    case (1 mem src ctx m)
    then show ?case by simp
  next
    case (2 mem src ctx ptr ptrs m)
    let ?l = "get_match_len mem src (unc_end ctx) ptr (max_len ctx)"
    let ?c = "ctx\<lparr>best_match := ptr\<rparr>"
    have ok: "match_ok mem ?c src ?l ptr" if "3 \<le> ?l"
      using get_match_len_ok [of src "unc_end ctx" "max_len ctx" mem ptr] 2(4,5,6) that by (simp add: match_ok_def Let_def)
    have same: "match_ok mem ?c src k q = match_ok mem ctx src k q" for k q by (simp add: match_ok_def)
    show ?case
    proof (cases "?l \<ge> m")
      case True
      then show ?thesis using 2(1) [OF refl True] 2(3-6) ok unfolding same by auto
    next
      case False
      then show ?thesis using 2(2) [OF refl False] 2(3-7) by auto
    qed
  qed
  then show "unc ctx' = unc ctx \<and> unc_end ctx' = unc_end ctx \<and> max_len ctx' = max_len ctx"
    and "n \<ge> 3 \<Longrightarrow> match_ok mem ctx src n (best_match ctx')"
    and "m \<le> n \<and> (\<forall>p\<in>set ptrs. get_match_len mem src (unc_end ctx) p (max_len ctx) \<le> n)"
    by simp_all
qed

lemma longest_match_best_ok:
  assumes "longest_match_best mem src ctx = (n, ctx')" "src \<le> unc_end ctx"
  shows "unc ctx' = unc ctx \<and> unc_end ctx' = unc_end ctx \<and> max_len ctx' = max_len ctx"
    and "n \<noteq> 0 \<Longrightarrow> match_ok mem ctx src n (best_match ctx')"
    and "match_ok mem ctx src k p \<Longrightarrow> k \<le> n"
proof -
  have "(unc ctx' = unc ctx \<and> unc_end ctx' = unc_end ctx \<and> max_len ctx' = max_len ctx) \<and>
    (n \<noteq> 0 \<longrightarrow> match_ok mem ctx src n (best_match ctx')) \<and> (match_ok mem ctx src k p \<longrightarrow> k \<le> n)"
  proof (cases "unc ctx \<ge> src \<or> max_len ctx = 0")
    case True
    then show ?thesis using assms(1) by (auto simp: longest_match_best_def match_ok_def)
  next
    case False
    obtain m where m: "best_loop mem src ctx [unc ctx..<src] 0 = (m, ctx')" and n: "n = (if m \<ge> 3 then m else 0)"
      using assms(1) False by (auto simp: longest_match_best_def split: prod.splits)
    note loop = best_loop_ok [OF m assms(2)]
    have "k \<le> n" if ok: "match_ok mem ctx src k p"
    proof -
      have "k \<le> get_match_len mem src (unc_end ctx) p (max_len ctx)"
        using ok False by (intro get_match_len_longest) (auto simp: match_ok_def)
      also have "\<dots> \<le> m" using loop(3) ok False by (auto simp: match_ok_def)
      finally show ?thesis using ok n by (auto simp: match_ok_def)
    qed
    then show ?thesis using loop(1,2) False n by auto
  qed
  then show "unc ctx' = unc ctx \<and> unc_end ctx' = unc_end ctx \<and> max_len ctx' = max_len ctx"
    and "n \<noteq> 0 \<Longrightarrow> match_ok mem ctx src n (best_match ctx')"
    and "match_ok mem ctx src k p \<Longrightarrow> k \<le> n"
    by simp_all
qed

end
