(* ===== verification/Ntfs_Lznt_Chunk.thy ===== *)
theory Ntfs_Lznt_Chunk
  imports Ntfs_Lznt
begin

text \<open>
  The compression against the decompression. The layout of a chunk under construction and its invariant, the
  decoder that follows the encoder item by item, and the contract of a search as the locale \<open>match_finder\<close>,
  in which the round trip of a chunk and of a sequence of chunks is proved once for both levels. The last part
  bounds the decompression of any input.
\<close>

unbundle bit_operations_syntax

section \<open>The layout of a chunk\<close>

text \<open>
  What the encoder knows of its output: the pending control byte is inside it and has only the bits of the
  items put so far, and it is the last byte when no item follows it.
\<close>

definition layout_ok :: "lz_state \<Rightarrow> bool" where
  "layout_ok s \<longleftrightarrow> 2 \<le> z_cp2 s \<and> z_cp2 s < length (z_out s) \<and> z_cnt s < 8 \<and> (\<forall>n\<ge>z_cnt s. \<not> bit (z_ohdr s) n) \<and>
     (z_cnt s = 0 \<longrightarrow> length (z_out s) = z_cp2 s + 1)"

text \<open>How far the output is settled: up to the control byte when no item follows it.\<close>

definition settled :: "lz_state \<Rightarrow> nat" where
  "settled s = (if z_cnt s = 0 then z_cp2 s else length (z_out s))"

text \<open>The bytes \<open>bs\<close> of the finished chunk keep what the state has settled.\<close>

definition extends :: "byte list \<Rightarrow> lz_state \<Rightarrow> bool" where
  "extends bs s \<longleftrightarrow> settled s \<le> length bs \<and>
     (\<forall>j. 2 \<le> j \<longrightarrow> j < settled s \<longrightarrow> j \<noteq> z_cp2 s \<longrightarrow> bs ! j = z_out s ! j) \<and>
     (z_cnt s \<noteq> 0 \<longrightarrow> (\<forall>n<z_cnt s. bit (bs ! z_cp2 s) n = bit (z_ohdr s) n))"

text \<open>\<open>s'\<close> is \<open>s\<close> with the bytes \<open>ws\<close> of an item, which is a pair when \<open>f\<close>.\<close>

definition item_put :: "lz_state \<Rightarrow> byte list \<Rightarrow> bool \<Rightarrow> lz_state \<Rightarrow> bool" where
  "item_put s ws f s' \<longleftrightarrow> z_out s' = z_out s @ ws \<and> ws \<noteq> [] \<and> z_cp2 s' = z_cp2 s \<and> z_cnt s' = z_cnt s \<and>
     z_ohdr s' = (if f then z_ohdr s OR push_bit (z_cnt s) 1 else z_ohdr s)"

lemma suc_and_7: "n < 8 \<Longrightarrow> Suc n AND 7 = (if n = 7 then 0 else Suc n)"
proof -
  assume "n < 8"
  moreover have "Suc n AND 7 = Suc n mod 8"
    using take_bit_eq_mask [of 3 "Suc n"] by (simp add: mask_eq_exp_minus_1 take_bit_eq_mod)
  ultimately show ?thesis by auto
qed

lemma next_item_up [simp]: "z_up (next_item s) = z_up s"
  by (simp add: next_item_def Let_def)

lemma bit_item: "bit (2 ^ k :: byte) n \<longleftrightarrow> n = k \<and> n < 8"
  by (auto simp: bit_simps)

lemma item_bits:
  assumes "item_put s ws f s1" "layout_ok s"
  shows "bit (z_ohdr s1) (z_cnt s) = f" "n < z_cnt s \<Longrightarrow> bit (z_ohdr s1) n = bit (z_ohdr s) n"
    "n > z_cnt s \<Longrightarrow> \<not> bit (z_ohdr s1) n"
  using assms by (auto simp: item_put_def layout_ok_def bit_or_iff bit_item)

lemma layout_next_item:
  assumes "item_put s ws f s1" "layout_ok s"
  shows "layout_ok (next_item s1)"
proof -
  have "\<not> bit (z_ohdr s1) n" if "z_cnt s < n" for n using item_bits(3) [OF assms that] .
  then show ?thesis
    using assms by (auto simp: next_item_def layout_ok_def item_put_def suc_and_7 Let_def)
qed

lemma extends_back:
  assumes put: "item_put s ws f s1" and ok: "layout_ok s" and ext: "extends bs (next_item s1)"
  shows "extends bs s"
    and "length (z_out s) + length ws \<le> length bs"
    and "k < length ws \<Longrightarrow> bs ! (length (z_out s) + k) = ws ! k"
    and "bit (bs ! z_cp2 s) (z_cnt s) = f"
proof -
  let ?s' = "next_item s1"
  let ?l = "length (z_out s) + length ws"
  have cnt: "z_cnt s < 8" and out: "z_out s1 = z_out s @ ws" and cp2: "z_cp2 s1 = z_cp2 s" "z_cp2 s < length (z_out s)"
    "2 \<le> z_cp2 s" and cnt1: "z_cnt s1 = z_cnt s"
    using put ok by (auto simp: item_put_def layout_ok_def)
  have settled: "settled ?s' = ?l"
    using cnt cnt1 out by (simp add: settled_def next_item_def suc_and_7 Let_def)
  have byte: "bs ! j = z_out s1 ! j" if "2 \<le> j" "j < ?l" "j \<noteq> z_cp2 s" for j
    using ext that cnt cnt1 out cp2 unfolding extends_def settled
    by (auto simp: next_item_def suc_and_7 Let_def nth_append split: if_splits)
  have ctrl: "bit (bs ! z_cp2 s) n = bit (z_ohdr s1) n" if "n \<le> z_cnt s" for n
  proof (cases "z_cnt s = 7")
    case True
    then have "bs ! z_cp2 s = z_ohdr s1"
      using ext cnt cnt1 out cp2 unfolding extends_def settled
      by (auto simp: next_item_def suc_and_7 Let_def nth_append)
    then show ?thesis by simp
  next
    case False
    then show ?thesis
      using ext cnt cnt1 out cp2 that unfolding extends_def settled by (auto simp: next_item_def suc_and_7 Let_def)
  qed
  show len: "?l \<le> length bs" using ext by (simp add: extends_def settled)
  show "bit (bs ! z_cp2 s) (z_cnt s) = f" using ctrl [of "z_cnt s"] item_bits(1) [OF put ok] by simp
  show "k < length ws \<Longrightarrow> bs ! (length (z_out s) + k) = ws ! k"
    using byte [of "length (z_out s) + k"] cp2 out by simp
  have "settled s \<le> length (z_out s)" using cp2 by (simp add: settled_def)
  then show "extends bs s"
    using len byte ctrl item_bits(2) [OF put ok] out unfolding extends_def by (auto simp: nth_append)
qed

lemma item_put_byte: "item_put s [mem (z_up s)] False (put_byte mem s)"
  by (simp add: item_put_def put_byte_def)

lemma item_put_pair:
  "item_put s [word_of_nat (make_pair (z_up s - best_match (z_ctx s)) n (z_idx s)),
     word_of_nat (drop_bit 8 (make_pair (z_up s - best_match (z_ctx s)) n (z_idx s)))] True (put_pair n s)"
  by (simp add: item_put_def put_pair_def Let_def)

text \<open>The finished chunk extends the last state of the loop.\<close>

lemma finish_extends:
  assumes "layout_ok s" "z_cnt s \<noteq> 0 \<Longrightarrow> z_cp2 s < lim"
  shows "extends (finish_chunk lim s) s"
    and "length (finish_chunk lim s) = (if z_cp2 s < lim then length (z_out s) else z_cp2 s)"
  using assms
  by (auto simp: extends_def finish_chunk_def settled_def layout_ok_def Let_def nth_list_update nth_butlast)

section \<open>The decoder along the encoder\<close>

text \<open>The decoder between two items: at the first bit the next control byte has not been read yet.\<close>

definition resume :: "byte list \<Rightarrow> nat \<Rightarrow> nat \<Rightarrow> byte \<Rightarrow> nat \<Rightarrow> nat \<Rightarrow> byte list \<Rightarrow> (int + byte list) option" where
  "resume cs cap i ch b index up =
     (if b = 0 then if i \<ge> length cs then Some (Inr up) else decompress_loop cs cap (i + 1) (cs ! i) 0 index up
      else decompress_loop cs cap i ch b index up)"

lemma decompress_loop_item:
  assumes "length up < cap" "i < length cs" "adjust_index (length up) index \<le> 8"
    "decode_item cs cap i ch b (adjust_index (length up) index) up = Inr (i', up')"
  shows "decompress_loop cs cap i ch b index up = resume cs cap i' ch ((b + 1) AND 7) (adjust_index (length up) index) up'"
  using assms by (subst decompress_loop.simps) (simp add: resume_def Let_def)

lemma decompress_loop_stop:
  "cap \<le> length up \<or> length cs \<le> i \<Longrightarrow> decompress_loop cs cap i ch b index up = Some (Inr up)"
  by (subst decompress_loop.simps) auto

lemma and_bit_8: "b < 8 \<Longrightarrow> ch AND push_bit b 1 = 0 \<longleftrightarrow> \<not> bit ch b" for ch :: byte
  by (metis and_exp_eq_0_iff_not_bit push_bit_of_1)

lemma suc_sub_2: "2 \<le> n \<Longrightarrow> Suc (n - 2) = n - 1" "2 \<le> n \<Longrightarrow> Suc (n - Suc 0) = n"
  by simp_all

lemma copy_match_correct:
  "\<lbrakk>u \<le> p; p < up; \<forall>k<n. mem (up + k) = mem (p + k)\<rbrakk> \<Longrightarrow> copy_match n (up - p) (map mem [u..<up]) = map mem [u..<up + n]"
proof (induction n arbitrary: p up)
  case 0
  then show ?case by simp
next
  case (Suc n)
  have "map mem [u..<up] ! (length (map mem [u..<up]) - (up - p)) = mem up"
    using Suc(2,3) Suc(4) [rule_format, of 0] by (auto simp: add.commute)
  then have "copy_match (Suc n) (up - p) (map mem [u..<up]) = copy_match n (Suc up - Suc p) (map mem [u..<Suc up])"
    using Suc(2,3) by simp
  also have "\<dots> = map mem [u..<Suc up + n]"
    using Suc(2,3) Suc(4) [rule_format, of "Suc k" for k] by (intro Suc(1)) auto
  finally show ?case by simp
qed

text \<open>The decoder that has read what \<open>s\<close> has settled, on the finished chunk \<open>bs\<close> without its header.\<close>

definition decoder_at :: "byte list \<Rightarrow> nat \<Rightarrow> lz_state \<Rightarrow> byte list \<Rightarrow> (int + byte list) option" where
  "decoder_at bs cap s up = resume (drop 2 bs) cap (settled s - 2) (bs ! z_cp2 s) (z_cnt s) (z_idx s) up"

lemma decoder_at_loop:
  assumes "layout_ok s" "z_cp2 s < length bs"
  shows "decoder_at bs cap s up =
    decompress_loop (drop 2 bs) cap (length (z_out s) - 2) (bs ! z_cp2 s) (z_cnt s) (z_idx s) up"
  using assms by (auto simp: decoder_at_def resume_def layout_ok_def settled_def suc_sub_2)

lemma decoder_at_next:
  assumes "item_put s ws f s1" "layout_ok s"
  shows "decoder_at bs cap (next_item s1) up =
    resume (drop 2 bs) cap (length (z_out s) + length ws - 2) (bs ! z_cp2 s) ((z_cnt s + 1) AND 7) (z_idx s1) up"
  using assms
  by (auto simp: decoder_at_def item_put_def layout_ok_def next_item_def settled_def suc_and_7 resume_def Let_def)

text \<open>
  One item: when the decoder's reading of the bytes of the item gives \<open>up'\<close>, the decoder moves from the state
  before the item to the state behind it.
\<close>

lemma decoder_at_item:
  assumes put: "item_put s ws f s1" and ok: "layout_ok s" and ext: "extends bs (next_item s1)"
    and up: "length up < cap" "z_idx s1 = adjust_index (length up) (z_idx s)" "z_idx s1 \<le> 8"
    and item: "decode_item (drop 2 bs) cap (length (z_out s) - 2) (bs ! z_cp2 s) (z_cnt s) (z_idx s1) up =
      Inr (length (z_out s) + length ws - 2, up')"
  shows "decoder_at bs cap s up = decoder_at bs cap (next_item s1) up'"
proof -
  note kept = extends_back [OF put ok ext]
  have "ws \<noteq> []" "2 \<le> z_cp2 s" "z_cp2 s < length (z_out s)"
    using put ok by (auto simp: item_put_def layout_ok_def)
  then have len: "length (z_out s) - 2 < length (drop 2 bs)" "z_cp2 s < length bs" using kept(2) by (cases ws; simp)+
  show ?thesis
    unfolding decoder_at_loop [OF ok len(2)] decoder_at_next [OF put ok]
    using decompress_loop_item [OF up(1) len(1)] up(2,3) item by simp
qed

lemma decode_byte:
  assumes put: "item_put s [w] False s1" and ok: "layout_ok s" and ext: "extends bs (next_item s1)"
  shows "decode_item (drop 2 bs) cap (length (z_out s) - 2) (bs ! z_cp2 s) (z_cnt s) index up =
    Inr (length (z_out s) + length [w] - 2, up @ [w])"
proof -
  have "2 < length (z_out s)" "z_cnt s < 8" using ok by (auto simp: layout_ok_def)
  then show ?thesis
    using extends_back(2-4) [OF put ok ext] extends_back(3) [OF put ok ext, of 0]
    by (simp add: decode_item_def and_bit_8 suc_sub_2 del: push_bit_of_1)
qed

lemma decode_pair:
  assumes put: "item_put s [word_of_nat pr, word_of_nat (drop_bit 8 pr)] True s1" and ok: "layout_ok s"
    and ext: "extends bs (next_item s1)" and pr: "pr < 2 ^ 16" "parse_pair pr index = (n, off)"
    and up: "off \<le> length up" "length up + n \<le> cap"
  shows "decode_item (drop 2 bs) cap (length (z_out s) - 2) (bs ! z_cp2 s) (z_cnt s) index up =
    Inr (length (z_out s) + length [word_of_nat pr :: byte, word_of_nat (drop_bit 8 pr)] - 2, copy_match n off up)"
proof -
  let ?l = "length (z_out s)"
  have l: "2 < ?l" "z_cnt s < 8" using ok by (auto simp: layout_ok_def)
  note kept = extends_back [OF put ok ext]
  have b0: "drop 2 bs ! (?l - 2) = word_of_nat pr" and b1: "drop 2 bs ! (?l - 2 + 1) = word_of_nat (drop_bit 8 pr)"
    using kept(3) [of 0] kept(3) [of 1] kept(2) l by (simp_all add: suc_sub_2)
  have i: "\<not> length (drop 2 bs) \<le> ?l - 2 + 1" "?l - 2 + 2 = ?l" using kept(2) l by simp_all
  have flag: "bs ! z_cp2 s AND push_bit (z_cnt s) 1 \<noteq> 0" using kept(4) l and_bit_8 by blast
  have n: "(if cap \<le> length up + n then cap - length up else n) = n" using up(2) by auto
  show ?thesis
    unfolding decode_item_def b0 b1 pair_bytes [OF pr(1)] Let_def pr(2) prod.case i(2) n
    using i(1) flag up(1) l(1) by simp
qed

section \<open>The encoder's invariant\<close>

definition enc_ok :: "(nat \<Rightarrow> byte) \<Rightarrow> nat \<Rightarrow> nat \<Rightarrow> nat \<Rightarrow> lz_state \<Rightarrow> bool" where
  "enc_ok mem u e lim s \<longleftrightarrow> layout_ok s \<and> u \<le> z_up s \<and> z_up s \<le> e \<and> e \<le> u + 4096 \<and> z_idx s \<le> 8 \<and>
     unc (z_ctx s) = u \<and> unc_end (z_ctx s) = e \<and> max_len (z_ctx s) = 2 ^ (12 - z_idx s) + 2 \<and>
     (z_not_zero s = 0 \<longleftrightarrow> (\<forall>a\<in>{u..<z_up s}. mem a = 0)) \<and>
     (z_cnt s \<noteq> 0 \<longrightarrow> length (z_out s) \<le> lim) \<and>
     (z_cnt s = 0 \<longrightarrow> z_up s \<noteq> u \<longrightarrow> length (z_out s) \<le> lim + 1)"

lemma enc_ok_start: "\<lbrakk>u \<le> e; e \<le> u + 4096\<rbrakk> \<Longrightarrow> enc_ok mem u e lim (chunk_state u e ctx)"
  by (simp add: enc_ok_def chunk_state_def layout_ok_def)

lemma enc_ok_byte:
  assumes "enc_ok mem u e lim s" "z_up s < e" "length (z_out s) < lim"
  shows "enc_ok mem u e lim (next_item (put_byte mem s))"
proof -
  have "layout_ok (next_item (put_byte mem s))"
    using layout_next_item [OF item_put_byte] assms(1) by (simp add: enc_ok_def)
  moreover have "(\<forall>a\<in>{u..<Suc (z_up s)}. mem a = 0) \<longleftrightarrow> (\<forall>a\<in>{u..<z_up s}. mem a = 0) \<and> mem (z_up s) = 0"
    using assms(1) by (auto simp: enc_ok_def less_Suc_eq)
  ultimately show ?thesis
    using assms unfolding enc_ok_def by (simp add: next_item_def put_byte_def Let_def or_eq_0_iff)
qed

text \<open>A match copies bytes of the chunk, so that it adds a byte other than 0 only when there was one.\<close>

lemma match_zero:
  assumes "match_ok mem ctx src n p" "\<forall>a\<in>{unc ctx..<src}. mem a = 0"
  shows "k < n \<Longrightarrow> mem (src + k) = 0"
proof (induction k rule: less_induct)
  case (less k)
  have p: "unc ctx \<le> p" "p < src" "mem (src + k) = mem (p + k)" using assms(1) less(2) by (auto simp: match_ok_def)
  show ?case
  proof (cases "p + k < src")
    case True
    then show ?thesis using p assms(2) by simp
  next
    case False
    then have "mem (src + (p + k - src)) = 0" using p less by (intro less(1)) auto
    then show ?thesis using False p(3) by simp
  qed
qed

lemma enc_ok_pair:
  assumes "enc_ok mem u e lim s" "match_ok mem (z_ctx s) (z_up s) n (best_match (z_ctx s))" "length (z_out s) + 1 < lim"
  shows "enc_ok mem u e lim (next_item (put_pair n s))"
proof -
  have "layout_ok (next_item (put_pair n s))"
    using layout_next_item [OF item_put_pair] assms(1) by (simp add: enc_ok_def)
  moreover have "(\<forall>a\<in>{u..<z_up s + n}. mem a = 0) \<longleftrightarrow> (\<forall>a\<in>{u..<z_up s}. mem a = 0)"
  proof
    assume zero: "\<forall>a\<in>{u..<z_up s}. mem a = 0"
    have "mem a = 0" if "a \<in> {u..<z_up s + n}" for a
    proof (cases "a < z_up s")
      case True
      then show ?thesis using zero that by simp
    next
      case False
      then show ?thesis
        using match_zero [OF assms(2), of "a - z_up s"] zero that assms(1) by (auto simp: enc_ok_def)
    qed
    then show "\<forall>a\<in>{u..<z_up s + n}. mem a = 0" by blast
  qed auto
  moreover have "z_up s + n \<le> e" using assms(1,2) by (simp add: enc_ok_def match_ok_def)
  ultimately show ?thesis
    using assms(1,3) unfolding enc_ok_def by (simp add: next_item_def put_pair_def Let_def)
qed

lemma enc_ok_finish:
  assumes "enc_ok mem u e lim s" "z_up s = e" "u < e" "3 < lim"
  shows "3 \<le> length (finish_chunk lim s) \<and> length (finish_chunk lim s) \<le> lim"
proof -
  have "layout_ok s" "z_cnt s \<noteq> 0 \<Longrightarrow> z_cp2 s < lim" using assms(1) by (auto simp: enc_ok_def layout_ok_def)
  then have len: "length (finish_chunk lim s) = (if z_cp2 s < lim then length (z_out s) else z_cp2 s)"
    by (rule finish_extends(2))
  show ?thesis unfolding len using assms by (auto simp: enc_ok_def layout_ok_def)
qed

section \<open>Headers\<close>

lemma hdr_compressed:
  fixes n :: nat
  assumes "n < 4096"
  shows "(n OR 0xB000) AND 4095 = n" "(n OR 0xB000) AND 0x8000 \<noteq> 0" "n OR 0xB000 < 2 ^ 16" "n OR 0xB000 \<noteq> 0"
proof -
  have "take_bit 12 (n OR 0xB000) = n" using assms by (simp add: take_bit_or take_bit_nat_eq_self)
  then show "(n OR 0xB000) AND 4095 = n" using take_bit_eq_mask [of 12 "n OR 0xB000"] by (simp add: mask_eq_exp_minus_1)
  have "bit (n OR 0xB000) 15" by (simp add: bit_or_iff bit_0)
  then show "(n OR 0xB000) AND 0x8000 \<noteq> 0" using and_exp_eq_0_iff_not_bit [of "n OR 0xB000" 15] by simp
  have "take_bit 16 (n OR 0xB000) = n OR 0xB000" using assms by (simp add: take_bit_or take_bit_nat_eq_self)
  then show "n OR 0xB000 < 2 ^ 16" by (metis take_bit_nat_less_exp)
  show "n OR 0xB000 \<noteq> 0" by (simp add: or_eq_0_iff)
qed

lemma chunk_hdr_at:
  "\<lbrakk>bs ! 0 = word_of_nat h; bs ! 1 = word_of_nat (drop_bit 8 h); h < 2 ^ 16; 2 \<le> length bs\<rbrakk>
   \<Longrightarrow> chunk_hdr (pre @ bs @ post) (length pre) = h"
  using pair_bytes [of h] by (cases bs) (auto simp: chunk_hdr_def nth_append)

lemma update_two: "1 < length xs \<Longrightarrow> xs[0 := a, 1 := b] ! 0 = a \<and> xs[0 := a, 1 := b] ! 1 = b"
  by (cases xs) auto

lemma finish_hdr:
  assumes "3 \<le> length (finish_chunk lim s)" "length (finish_chunk lim s) \<le> 4098"
  shows "chunk_hdr (pre @ finish_chunk lim s @ post) (length pre) = (length (finish_chunk lim s) - 3) OR 0xB000"
proof (rule chunk_hdr_at)
  obtain out where fin: "finish_chunk lim s =
      out[0 := word_of_nat ((length out - 3) OR 0xB000), 1 := word_of_nat (drop_bit 8 ((length out - 3) OR 0xB000))]"
    unfolding finish_chunk_def Let_def by blast
  let ?h = "(length (finish_chunk lim s) - 3) OR 0xB000"
  show "?h < 2 ^ 16" using assms(2) by (intro hdr_compressed(3)) simp
  have "1 < length out" using assms(1) unfolding fin by simp
  then show "finish_chunk lim s ! 0 = word_of_nat ?h" "finish_chunk lim s ! 1 = word_of_nat (drop_bit 8 ?h)"
    using update_two [of out] by (simp_all only: fin length_list_update)
  show "2 \<le> length (finish_chunk lim s)" using assms(1) by simp
qed

section \<open>Reading back a sequence of chunks\<close>

text \<open>\<open>bs\<close> are chunks that the decompression reads as the memory from \<open>u\<close> to \<open>e\<close>, wherever they stand.\<close>

definition read_back :: "(nat \<Rightarrow> byte) \<Rightarrow> nat \<Rightarrow> nat \<Rightarrow> byte list \<Rightarrow> bool" where
  "read_back mem u e bs \<longleftrightarrow> 3 \<le> length bs \<and> (\<forall>pre post data. let h = chunk_hdr (pre @ bs @ post) (length pre) in
     h \<noteq> 0 \<and> decompress_chunks (pre @ bs @ post) (length data + (e - u)) (length pre) h data = Some (Inr (data @ map mem [u..<e])))"

lemma decompress_chunks_turn:
  assumes "3 + (h AND 4095) = n" "chunk_data cs (e - u) c h n = Some (Inr (map mem [u..<e']))" "u < e"
    "e' = e \<or> e' = u + 4096 \<and> e' < e"
  shows "decompress_chunks cs (length data + (e - u)) c h data =
    (if e' = e \<or> length cs < c + n + 2 \<or> chunk_hdr cs (c + n) = 0 then Some (Inr (data @ map mem [u..<e']))
     else decompress_chunks cs (length data + (e - u)) (c + n) (chunk_hdr cs (c + n)) (data @ map mem [u..<e']))"
  using assms by (subst decompress_chunks.simps) (auto simp: Let_def)

lemma read_back_last:
  assumes "3 \<le> length cs" "u < e"
    "\<And>pre post. let h = chunk_hdr (pre @ cs @ post) (length pre) in
       h \<noteq> 0 \<and> 3 + (h AND 4095) = length cs \<and>
       chunk_data (pre @ cs @ post) (e - u) (length pre) h (length cs) = Some (Inr (map mem [u..<e]))"
  shows "read_back mem u e (cs @ bs)"
  unfolding read_back_def Let_def
proof (intro conjI allI)
  show "3 \<le> length (cs @ bs)" using assms(1) by simp
  fix pre post data
  note at = assms(3) [of pre "bs @ post", unfolded Let_def]
  show "chunk_hdr (pre @ (cs @ bs) @ post) (length pre) \<noteq> 0" using at by simp
  show "decompress_chunks (pre @ (cs @ bs) @ post) (length data + (e - u)) (length pre)
      (chunk_hdr (pre @ (cs @ bs) @ post) (length pre)) data = Some (Inr (data @ map mem [u..<e]))"
    using decompress_chunks_turn [of _ "length cs" "pre @ cs @ bs @ post" e u "length pre"] at assms(2) by simp
qed

lemma read_back_more:
  assumes "3 \<le> length cs" "u + 4096 < e" "read_back mem (u + 4096) e bs"
    "\<And>pre post. let h = chunk_hdr (pre @ cs @ post) (length pre) in
       h \<noteq> 0 \<and> 3 + (h AND 4095) = length cs \<and>
       chunk_data (pre @ cs @ post) (e - u) (length pre) h (length cs) = Some (Inr (map mem [u..<u + 4096]))"
  shows "read_back mem u e (cs @ bs)"
  unfolding read_back_def Let_def
proof (intro conjI allI)
  show "3 \<le> length (cs @ bs)" using assms(1) by simp
  fix pre post data
  note at = assms(4) [of pre "bs @ post", unfolded Let_def]
  let ?cs = "pre @ cs @ bs @ post" and ?d = "data @ map mem [u..<u + 4096]" and ?n = "length data + (e - u)"
  let ?c = "length pre + length cs"
  show "chunk_hdr (pre @ (cs @ bs) @ post) (length pre) \<noteq> 0" using at by simp
  have size: "length ?d + (e - (u + 4096)) = ?n" using assms(2) by simp
  have tail: "3 \<le> length bs" "chunk_hdr ?cs ?c \<noteq> 0"
    "decompress_chunks ?cs ?n ?c (chunk_hdr ?cs ?c) ?d = Some (Inr (?d @ map mem [u + 4096..<e]))"
    using assms(3) [unfolded read_back_def Let_def, THEN conjunct2, rule_format, of "pre @ cs" post ?d, unfolded size]
      assms(3) by (auto simp: read_back_def)
  have "[u..<e] = [u..<u + 4096] @ [u + 4096..<e]" using upt_add_eq_append [of u "u + 4096" "e - (u + 4096)"] assms(2) by simp
  then show "decompress_chunks (pre @ (cs @ bs) @ post) ?n (length pre)
      (chunk_hdr (pre @ (cs @ bs) @ post) (length pre)) data = Some (Inr (data @ map mem [u..<e]))"
    using decompress_chunks_turn [of _ "length cs" ?cs e u "length pre" mem "u + 4096" data] at tail assms(2) by simp
qed

section \<open>What a search has to promise\<close>

text \<open>
  The contract between \<^verbatim>\<open>compress_chunk\<close> and the function \<^verbatim>\<open>match\<close> it is called with: a match of the chunk
  within the length the pair can hold, and a context whose bounds are kept.
\<close>

locale match_finder =
  fixes match :: "(nat \<Rightarrow> byte) \<Rightarrow> nat \<Rightarrow> lznt \<Rightarrow> nat \<times> lznt"
  assumes bounds_kept: "\<lbrakk>match mem src ctx = (n, ctx'); src + 3 \<le> unc_end ctx; 3 \<le> max_len ctx\<rbrakk>
      \<Longrightarrow> unc ctx' = unc ctx \<and> unc_end ctx' = unc_end ctx \<and> max_len ctx' = max_len ctx"
    and match_found: "\<lbrakk>match mem src ctx = (n, ctx'); src + 3 \<le> unc_end ctx; 3 \<le> max_len ctx; n \<noteq> 0\<rbrakk>
      \<Longrightarrow> match_ok mem ctx src n (best_match ctx')"
begin

lemma find_match_ok:
  assumes "enc_ok mem u e lim s" "z_up s < e" "find_match match mem u e s = (n, s1)"
  shows "enc_ok mem u e lim s1"
    and "z_idx s1 = adjust_index (z_up s - u) (z_idx s) \<and> z_up s - u \<le> 2 ^ (4 + z_idx s1)"
    and "s1 = s\<lparr>z_idx := z_idx s1, z_ctx := z_ctx s1\<rparr>"
    and "n \<noteq> 0 \<Longrightarrow> match_ok mem (z_ctx s1) (z_up s1) n (best_match (z_ctx s1))"
proof -
  define idx where "idx = adjust_index (z_up s - u) (z_idx s)"
  define ctx where "ctx = (if idx \<noteq> z_idx s then (z_ctx s)\<lparr>max_len := s_max_len ! idx\<rparr> else z_ctx s)"
  define r where "r = (if z_up s + 3 \<le> e then match mem (z_up s) ctx else (0, ctx))"
  have idx: "idx \<le> 8 \<and> z_up s - u \<le> 2 ^ (4 + idx)"
    unfolding idx_def using assms(1) by (intro adjust_index_ok) (auto simp: enc_ok_def)
  have ctx: "unc ctx = u" "unc_end ctx = e" "max_len ctx = 2 ^ (12 - idx) + 2"
    using assms(1) idx by (auto simp: ctx_def enc_ok_def)
  have "1 \<le> (2::nat) ^ (12 - idx)" by simp
  then have three: "3 \<le> max_len ctx" using ctx(3) by linarith
  have s1: "s1 = s\<lparr>z_idx := idx, z_ctx := snd r\<rparr>" and n: "n = fst r"
    using assms(3) by (auto simp: find_match_def Let_def idx_def ctx_def r_def split: prod.splits)
  obtain n0 c0 where m: "match mem (z_up s) ctx = (n0, c0)" by fastforce
  have kept: "unc (snd r) = u \<and> unc_end (snd r) = e \<and> max_len (snd r) = 2 ^ (12 - idx) + 2"
    using bounds_kept [OF m _ three] ctx m by (auto simp: r_def)
  have "layout_ok s1 = layout_ok s" by (simp add: s1 layout_ok_def)
  then show "enc_ok mem u e lim s1" using assms(1) idx kept by (simp add: s1 enc_ok_def)
  show "z_idx s1 = adjust_index (z_up s - u) (z_idx s) \<and> z_up s - u \<le> 2 ^ (4 + z_idx s1)"
    using idx by (simp add: s1 idx_def)
  show "s1 = s\<lparr>z_idx := z_idx s1, z_ctx := z_ctx s1\<rparr>" by (simp add: s1)
  assume "n \<noteq> 0"
  then have "match_ok mem ctx (z_up s) n (best_match (snd r))"
    using match_found [OF m _ three] ctx m by (auto simp: r_def n split: if_splits)
  then show "match_ok mem (z_ctx s1) (z_up s1) n (best_match (z_ctx s1))"
    using kept ctx by (simp add: s1 match_ok_def)
qed

text \<open>One turn of the encoder: it keeps the invariant, and the decoder follows.\<close>

lemma byte_turn:
  assumes ok: "enc_ok mem u e lim s" and up: "z_up s < e" and found: "find_match match mem u e s = (n, s1)"
    and room: "length (z_out s1) < lim" and cap: "e - u \<le> cap"
  shows "enc_ok mem u e lim (next_item (put_byte mem s1))"
    and "extends bs (next_item (put_byte mem s1)) \<Longrightarrow> extends bs s \<and>
      decoder_at bs cap s (map mem [u..<z_up s]) = decoder_at bs cap (next_item (put_byte mem s1)) (map mem [u..<Suc (z_up s)])"
proof -
  note fm = find_match_ok [OF ok up found]
  have s1: "z_up s1 = z_up s" "z_out s1 = z_out s" "z_cp2 s1 = z_cp2 s" "z_cnt s1 = z_cnt s" "z_ohdr s1 = z_ohdr s"
    by (subst fm(3), simp)+
  have lay: "layout_ok s" and u: "u \<le> z_up s" and idx: "z_idx s1 \<le> 8"
    using ok fm(1) by (auto simp: enc_ok_def)
  show "enc_ok mem u e lim (next_item (put_byte mem s1))" using enc_ok_byte [OF fm(1)] up room s1(1) by simp
  have put: "item_put s [mem (z_up s)] False (put_byte mem s1)"
    using item_put_byte [of s1 mem] by (simp add: item_put_def s1)
  assume ext: "extends bs (next_item (put_byte mem s1))"
  have "decoder_at bs cap s (map mem [u..<z_up s]) =
      decoder_at bs cap (next_item (put_byte mem s1)) (map mem [u..<z_up s] @ [mem (z_up s)])"
    using up cap u fm(2) idx decode_byte [OF put lay ext]
    by (intro decoder_at_item [OF put lay ext]) (auto simp: put_byte_def)
  then show "extends bs s \<and>
      decoder_at bs cap s (map mem [u..<z_up s]) = decoder_at bs cap (next_item (put_byte mem s1)) (map mem [u..<Suc (z_up s)])"
    using extends_back(1) [OF put lay ext] u by simp
qed

lemma pair_turn:
  assumes ok: "enc_ok mem u e lim s" and up: "z_up s < e" and found: "find_match match mem u e s = (n, s1)"
    and n: "n \<noteq> 0" and room: "length (z_out s1) + 1 < lim" and cap: "e - u \<le> cap"
  shows "enc_ok mem u e lim (next_item (put_pair n s1))"
    and "extends bs (next_item (put_pair n s1)) \<Longrightarrow> extends bs s \<and>
      decoder_at bs cap s (map mem [u..<z_up s]) = decoder_at bs cap (next_item (put_pair n s1)) (map mem [u..<z_up s + n])"
proof -
  note fm = find_match_ok [OF ok up found]
  define p where "p = best_match (z_ctx s1)"
  define pr where "pr = make_pair (z_up s - p) n (z_idx s1)"
  have s1: "z_up s1 = z_up s" "z_out s1 = z_out s" "z_cp2 s1 = z_cp2 s" "z_cnt s1 = z_cnt s" "z_ohdr s1 = z_ohdr s"
    by (subst fm(3), simp)+
  have lay: "layout_ok s" and u: "u \<le> z_up s" and idx: "z_idx s1 \<le> 8"
    and ctx: "unc (z_ctx s1) = u" "unc_end (z_ctx s1) = e" "max_len (z_ctx s1) = 2 ^ (12 - z_idx s1) + 2"
    using ok fm(1) by (auto simp: enc_ok_def)
  show "enc_ok mem u e lim (next_item (put_pair n s1))" using enc_ok_pair [OF fm(1) fm(4) [OF n] room] .
  have put: "item_put s [word_of_nat pr, word_of_nat (drop_bit 8 pr)] True (put_pair n s1)"
    using item_put_pair [of s1 n] by (simp add: item_put_def s1 pr_def p_def)
  have m: "3 \<le> n" "n \<le> 2 ^ (12 - z_idx s1) + 2" "u \<le> p" "p < z_up s" "z_up s + n \<le> e"
    "\<forall>k<n. mem (z_up s + k) = mem (p + k)"
    using fm(4) [OF n] ctx by (simp_all add: match_ok_def s1 p_def)
  have pair: "pr < 2 ^ 16" "parse_pair pr (z_idx s1) = (n, z_up s - p)"
    unfolding pr_def using m fm(2) idx by (intro pair_value(2) pair_round_trip; simp)+
  assume ext: "extends bs (next_item (put_pair n s1))"
  have "decoder_at bs cap s (map mem [u..<z_up s]) =
      decoder_at bs cap (next_item (put_pair n s1)) (copy_match n (z_up s - p) (map mem [u..<z_up s]))"
    using up cap u fm(2) idx m decode_pair [OF put lay ext pair, of "map mem [u..<z_up s]" cap]
    by (intro decoder_at_item [OF put lay ext]) (auto simp: put_pair_def Let_def)
  then show "extends bs s \<and>
      decoder_at bs cap s (map mem [u..<z_up s]) = decoder_at bs cap (next_item (put_pair n s1)) (map mem [u..<z_up s + n])"
    using extends_back(1) [OF put lay ext] copy_match_correct [OF m(3,4,6)] by simp
qed

text \<open>
  The encoder reaches the end of the chunk with its invariant, and the decoder, run over the finished chunk from
  the place the encoder had reached, puts out the rest of the chunk.
\<close>

lemma compress_loop_simulated:
  assumes "enc_ok mem u e lim s" "compress_loop match mem u e lim s = (True, sf)" "e - u \<le> cap" "u < e"
  shows "enc_ok mem u e lim sf \<and> z_up sf = e \<and> extends (finish_chunk lim sf) s \<and>
    decoder_at (finish_chunk lim sf) cap s (map mem [u..<z_up s]) = Some (Inr (map mem [u..<e]))"
  using assms
proof (induction "e - z_up s" arbitrary: s rule: less_induct)
  case less
  let ?bs = "finish_chunk lim sf"
  have u: "u \<le> z_up s" "z_up s \<le> e" using less(2) by (auto simp: enc_ok_def)
  show ?case
  proof (cases "z_up s < e")
    case False
    then have sf: "sf = s" and e: "z_up s = e"
      using less(3) u by (auto simp: compress_loop.simps [of _ _ _ e _ s])
    have lay: "layout_ok s" and cp2: "z_cnt s \<noteq> 0 \<Longrightarrow> z_cp2 s < lim" and bound: "z_cnt s = 0 \<Longrightarrow> length (z_out s) \<le> lim + 1"
      using less(2) less(5) e by (auto simp: enc_ok_def layout_ok_def)
    have "decoder_at ?bs cap s (map mem [u..<e]) = Some (Inr (map mem [u..<e]))"
      using finish_extends(2) [OF lay cp2] lay cp2
      by (auto simp: sf decoder_at_def resume_def settled_def layout_ok_def intro!: decompress_loop_stop)
    then show ?thesis using finish_extends(1) [OF lay cp2] less(2) sf e by simp
  next
    case up: True
    obtain n s1 where found: "find_match match mem u e s = (n, s1)" by fastforce
    have s1: "z_up s1 = z_up s" by (subst find_match_ok(3) [OF less(2) up found]) simp
    note loop = less(3) [unfolded compress_loop.simps [of _ _ _ e _ s] found]
    show ?thesis
    proof (cases "n = 0")
      case True
      then have room: "length (z_out s1) < lim"
        and rest: "compress_loop match mem u e lim (next_item (put_byte mem s1)) = (True, sf)"
        using loop up by (auto split: if_splits)
      note turn = byte_turn [OF less(2) up found room less(4)]
      have "z_up (next_item (put_byte mem s1)) = Suc (z_up s)" by (simp add: put_byte_def s1)
      then show ?thesis
        using less(1) [OF _ turn(1) rest less(4,5)] up turn(2) [of ?bs] by auto
    next
      case False
      then have room: "length (z_out s1) + 1 < lim"
        and rest: "compress_loop match mem u e lim (next_item (put_pair n s1)) = (True, sf)"
        using loop up by (auto split: if_splits)
      note turn = pair_turn [OF less(2) up found False room less(4)]
      have "z_up (next_item (put_pair n s1)) = z_up s + n" by (simp add: put_pair_def s1 Let_def)
      then show ?thesis
        using less(1) [OF _ turn(1) rest less(4,5)] up turn(2) [of ?bs] False by auto
    qed
  qed
qed

text \<open>
  A chunk that \<^verbatim>\<open>compress_chunk\<close> accepts stays within the room, is reported as all zeros only when it is, and
  is read back by the body of \<^verbatim>\<open>decompress_lznt\<close> wherever it stands.
\<close>

lemma compress_loop_room:
  assumes "compress_loop match mem u e lim (chunk_state u e ctx) = (True, sf)" "u < e"
  shows "3 < lim"
proof -
  obtain n s1 where found: "find_match match mem u e (chunk_state u e ctx) = (n, s1)" by fastforce
  then have "length (z_out s1) = 3" by (auto simp: find_match_def chunk_state_def Let_def split: prod.splits)
  then show ?thesis
    using assms(1) [unfolded compress_loop.simps [of _ _ _ e _ "chunk_state u e ctx"] found] assms(2)
    by (auto simp: chunk_state_def split: if_splits)
qed

lemma compressed_chunk_read:
  fixes pre post :: "byte list"
  assumes "compress_loop match mem u e lim (chunk_state u e ctx) = (True, s)" "u < e" "e \<le> u + 4096"
    "lim \<le> 4098" "e - u \<le> cap"
  defines "bs \<equiv> finish_chunk lim s" and "h \<equiv> chunk_hdr (pre @ finish_chunk lim s @ post) (length pre)"
  shows "enc_ok mem u e lim s \<and> z_up s = e \<and> 3 \<le> length bs \<and> length bs \<le> lim \<and> h \<noteq> 0 \<and> 3 + (h AND 4095) = length bs \<and>
    chunk_data (pre @ bs @ post) cap (length pre) h (length bs) = Some (Inr (map mem [u..<e]))"
proof -
  have start: "enc_ok mem u e lim (chunk_state u e ctx)" using assms(2,3) by (intro enc_ok_start) auto
  note sim = compress_loop_simulated [OF start assms(1,5,2)]
  have len: "3 \<le> length bs \<and> length bs \<le> lim"
    unfolding bs_def using enc_ok_finish [of mem u e lim s] sim compress_loop_room [OF assms(1,2)] assms(2) by blast
  then have h: "h = (length bs - 3) OR 0xB000" unfolding h_def bs_def using assms(4) by (intro finish_hdr) auto
  have less: "length bs - 3 < 4096" using len assms(4) by auto
  have "decompress_chunk cap (drop 2 bs) = Some (Inr (map mem [u..<e]))"
    using sim len by (simp add: decoder_at_def resume_def decompress_chunk_def chunk_state_def settled_def bs_def)
  moreover have "memget (pre @ bs @ post) (length pre + 2) (length bs - 2) = drop 2 bs"
    using len by (simp add: memget_def)
  ultimately show ?thesis
    using sim len hdr_compressed(1,2,4) [OF less] by (simp add: chunk_data_def h)
qed

lemma compress_chunk_ok:
  fixes pre post :: "byte list"
  assumes "compress_chunk match mem u e room ctx = (err, bs, ctx')" "\<not> err < 0" "u < e"
  defines "e' \<equiv> min (u + 4096) e" and "h \<equiv> chunk_hdr (pre @ bs @ post) (length pre)"
  shows "3 \<le> length bs" "length bs \<le> room" "err = 1 \<Longrightarrow> \<forall>a\<in>{u..<e'}. mem a = 0" "h \<noteq> 0" "3 + (h AND 4095) = length bs"
    "chunk_data (pre @ bs @ post) (e - u) (length pre) h (length bs) = Some (Inr (map mem [u..<e']))"
proof -
  let ?lim = "min 4098 room"
  have e: "(if u + LZNT_CHUNK_SIZE < e then u + LZNT_CHUNK_SIZE else e) = e'" by (auto simp: e'_def)
  have e': "u < e'" "e' \<le> u + 4096" "e' - u \<le> e - u" using assms(3) by (auto simp: e'_def)
  obtain b s where loop: "compress_loop match mem u e' ?lim (chunk_state u e' ctx) = (b, s)" by fastforce
  note res = assms(1) [unfolded compress_chunk_def Let_def e, simplified loop, simplified]
  have "3 \<le> length bs \<and> length bs \<le> room \<and> (err = 1 \<longrightarrow> (\<forall>a\<in>{u..<e'}. mem a = 0)) \<and> h \<noteq> 0 \<and> 3 + (h AND 4095) = length bs \<and>
    chunk_data (pre @ bs @ post) (e - u) (length pre) h (length bs) = Some (Inr (map mem [u..<e']))"
  proof (cases b)
    case True
    then have bs: "bs = finish_chunk ?lim s" and err: "err = (if z_not_zero s \<noteq> 0 then 0 else 1)"
      using res loop by auto
    have loop: "compress_loop match mem u e' ?lim (chunk_state u e' ctx) = (True, s)" using loop True by simp
    show ?thesis
      using compressed_chunk_read [OF loop e'(1,2) _ e'(3), of pre post] err
      by (auto simp: h_def bs enc_ok_def)
  next
    case False
    then have room: "4098 \<le> room" and bs: "bs = [0xff, 0x3f] @ map mem [u..<u + 4096]" and err: "err = 0"
      using res loop assms(2) by (auto split: if_splits)
    have h: "h = 0x3fff" unfolding h_def bs by (intro chunk_hdr_at) auto
    have "map mem [u..<e'] = take (e' - u) (map mem [u..<u + 4096])" using e' by (simp add: take_map)
    moreover have "(if LZNT_CHUNK_SIZE > e - u then e - u else LZNT_CHUNK_SIZE) = e' - u" using assms(3) by (auto simp: e'_def)
    ultimately show ?thesis
      using room e' by (auto simp: err h bs chunk_data_def memget_def Let_def)
  qed
  then show "3 \<le> length bs" "length bs \<le> room" "err = 1 \<Longrightarrow> \<forall>a\<in>{u..<e'}. mem a = 0" "h \<noteq> 0" "3 + (h AND 4095) = length bs"
    "chunk_data (pre @ bs @ post) (e - u) (length pre) h (length bs) = Some (Inr (map mem [u..<e']))"
    by blast+
qed

text \<open>The compression cycle: what it appends is read back in place, whatever surrounds it.\<close>

lemma compress_chunks_ok:
  assumes "compress_chunks match mem u e room out z ctx = Some (z', out')" "length out \<le> room"
  shows "\<exists>bs. out' = out @ bs \<and> length out' \<le> room \<and> (z' \<longrightarrow> z \<and> (\<forall>a\<in>{u..<e}. mem a = 0)) \<and>
    (u < e \<longrightarrow> read_back mem u e bs)"
  using assms
proof (induction "e - u" arbitrary: u out z ctx rule: less_induct)
  case less
  show ?case
  proof (cases "u < e")
    case False
    then show ?thesis using less(2,3) by (subst (asm) compress_chunks.simps) auto
  next
    case True
    obtain err cs ctx' where chunk: "compress_chunk match mem u e (room - length out) ctx = (err, cs, ctx')"
      using prod_cases3 by blast
    define e' where "e' = min (u + 4096) e"
    have err: "\<not> err < 0" and rest: "compress_chunks match mem (u + LZNT_CHUNK_SIZE) e room (out @ cs) (z \<and> err = 1) ctx' = Some (z', out')"
      using less(2) [unfolded compress_chunks.simps [of _ _ u] chunk] True by (auto split: if_splits)
    note ok = compress_chunk_ok [OF chunk err True, folded e'_def]
    have len: "3 \<le> length cs" "length (out @ cs) \<le> room" using ok(1,2) less(3) by auto
    obtain bs where bs: "out' = (out @ cs) @ bs" "length out' \<le> room"
      "z' \<Longrightarrow> (z \<and> err = 1) \<and> (\<forall>a\<in>{u + 4096..<e}. mem a = 0)"
      and more: "u + 4096 < e \<Longrightarrow> read_back mem (u + 4096) e bs"
      using less(1) [OF _ rest len(2)] True by (metis diff_less_mono2 less_add_same_cancel1 zero_less_numeral)
    have zero: "z' \<longrightarrow> z \<and> (\<forall>a\<in>{u..<e}. mem a = 0)"
    proof
      assume "z'"
      then have z: "z" "err = 1" "\<forall>a\<in>{u + 4096..<e}. mem a = 0" using bs(3) by auto
      have "a \<in> {u..<e'} \<or> a \<in> {u + 4096..<e}" if "a \<in> {u..<e}" for a using that by (auto simp: e'_def)
      then show "z \<and> (\<forall>a\<in>{u..<e}. mem a = 0)" using ok(3) [OF z(2)] z by blast
    qed
    have "read_back mem u e (cs @ bs)"
    proof (cases "u + 4096 < e")
      case False
      then have "e' = e" by (simp add: e'_def)
      then show ?thesis using read_back_last [where cs = cs and mem = mem and u = u and e = e and bs = bs] ok(1,4-6) True by (simp add: Let_def)
    next
      case long: True
      then have "e' = u + 4096" by (simp add: e'_def)
      then show ?thesis using read_back_more [where cs = cs and mem = mem and u = u and e = e and bs = bs] ok(1,4-6) long more by (simp add: Let_def)
    qed
    then show ?thesis using zero bs(1,2) by (intro exI [of _ "cs @ bs"]) auto
  qed
qed

end

interpretation std: match_finder longest_match_std
  by unfold_locales (rule longest_match_std_ok, assumption+)+

interpretation best: match_finder longest_match_best
  using longest_match_best_ok by unfold_locales (auto dest: add_leD1)

section \<open>Decompression of any input\<close>

text \<open>
  What holds of a result for an output of \<open>n\<close> bytes: no more than \<open>n\<close> bytes, \<^verbatim>\<open>-EINVAL\<close> as the only error, and a
  read behind the table only when more than one chunk fits the output.
\<close>

definition result_within :: "nat \<Rightarrow> (int + byte list) option \<Rightarrow> bool" where
  "result_within n r \<longleftrightarrow>
     (case r of None \<Rightarrow> 4096 < n | Some (Inl err) \<Rightarrow> err = - EINVAL | Some (Inr out) \<Rightarrow> length out \<le> n)"

lemma length_copy_match [simp]: "length (copy_match n offset up) = length up + n"
  by (induction n offset up rule: copy_match.induct) auto

lemma decode_item_within:
  "decode_item cs cap i ch b index up = Inr (i', up') \<Longrightarrow> length up < cap \<Longrightarrow> length up' \<le> cap"
  "decode_item cs cap i ch b index up = Inl err \<Longrightarrow> err = - EINVAL"
  by (auto simp: decode_item_def Let_def split: if_splits prod.splits)

lemma decompress_loop_within:
  "\<lbrakk>length up \<le> cap; index \<le> 8\<rbrakk> \<Longrightarrow> result_within cap (decompress_loop cs cap i ch b index up)"
proof (induction cs cap i ch b index up rule: decompress_loop.induct)
  case (1 cs cap i ch b index up)
  let ?index = "adjust_index (length up) index"
  show ?case
  proof (cases "length up < cap \<and> i < length cs")
    case False
    then show ?thesis using 1(3) by (subst decompress_loop.simps) (auto simp: result_within_def)
  next
    case True
    show ?thesis
    proof (cases "9 \<le> ?index")
      case over: True
      then have "4096 < length up" using adjust_index_ok [OF 1(4), of "length up"] by force
      then show ?thesis using True over by (subst decompress_loop.simps) (auto simp: result_within_def Let_def)
    next
      case False
      show ?thesis
      proof (cases "decode_item cs cap i ch b ?index up")
        case (Inl err)
        then show ?thesis using decode_item_within(2) [OF Inl] True False
          by (subst decompress_loop.simps) (simp add: result_within_def Let_def)
      next
        case (Inr p)
        obtain i' up' where p: "p = (i', up')" by fastforce
        note item = Inr [unfolded p]
        have len: "length up' \<le> cap" using decode_item_within(1) [OF item] True by simp
        note loop = decompress_loop_item [OF _ _ _ item]
        show ?thesis
          using 1(1,2) [OF True refl _ item refl refl _] True False len
          by (subst loop) (auto simp: resume_def result_within_def)
      qed
    qed
  qed
qed

lemma chunk_data_within: "result_within cap (chunk_data cs cap c hdr n)"
proof (cases "hdr AND 0x8000 = 0")
  case True
  then show ?thesis by (auto simp: chunk_data_def result_within_def memget_def Let_def)
next
  case False
  then show ?thesis
    using decompress_loop_within [of "[]" cap 0]
    by (auto simp: chunk_data_def decompress_chunk_def result_within_def [of _ "Some (Inl (- EINVAL))"])
qed

lemma decompress_chunks_within:
  "length out \<le> n \<Longrightarrow> result_within n (decompress_chunks cs n c hdr out)"
proof (induction cs n c hdr out rule: decompress_chunks.induct)
  case (1 cs n c hdr out)
  let ?use = "3 + (hdr AND (LZNT_CHUNK_SIZE - 1))"
  let ?r = "chunk_data cs (n - length out) c hdr ?use"
  have within: "result_within (n - length out) ?r" by (rule chunk_data_within)
  consider "?r = None" | err where "?r = Some (Inl err)" | d where "?r = Some (Inr d)"
    by (metis option.exhaust sum.exhaust)
  then show ?case
  proof cases
    case 3
    then have "length (out @ d) \<le> n" using within 1(3) by (simp add: result_within_def)
    then show ?thesis
      using 1(1,2) [OF refl 3 refl refl refl] 3
      by (subst decompress_chunks.simps) (auto simp: Let_def result_within_def [of _ "Some (Inr _)"])
  qed (use within 1(3) in \<open>subst decompress_chunks.simps, auto simp: Let_def result_within_def\<close>)+
qed

end
