(* ===== verification/Ntfs_Lznt_Props.thy ===== *)
theory Ntfs_Lznt_Props
  imports Ntfs_Lznt_Chunk "HOL-Library.Code_Target_Nat"
begin

text \<open>
  The properties of the LZNT1 compression of ntfs3, with instances on twelve bytes that repeat.
\<close>

unbundle bit_operations_syntax

section \<open>An instance\<close>

definition demo_text :: "nat \<Rightarrow> byte" where
  "demo_text a = (if a < 100 then 0 else word_of_nat (97 + a mod 3))"

definition demo_ctx :: "int \<Rightarrow> lznt" where
  "demo_ctx level = (case get_lznt_ctx True level of Some ctx \<Rightarrow> ctx)"

declare adjust_index.simps [code] match_len_loop.simps [code] compress_loop.simps [code]
  compress_chunks.simps [code] decompress_loop.simps [code] decompress_chunks.simps [code]

lemma demo_compress:
  "compress_lznt demo_text 100 12 64 (demo_ctx 0) = (8, [5, 0xB0, 8, 98, 99, 97, 6, 0x20, 0, 0])"
  "compress_lznt demo_text 100 12 64 (demo_ctx 1) = (8, [5, 0xB0, 8, 98, 99, 97, 6, 0x20, 0, 0])"
  by code_simp+

lemma demo_compress_zeros: "compress_lznt demo_text 10 12 64 (demo_ctx 1) = (0, [3, 0xB0, 2, 0, 8, 0, 0, 0])"
  by code_simp

definition demo_search :: lznt where
  "demo_search = (demo_ctx 1)\<lparr>unc := 100, unc_end := 112, max_len := 18\<rparr>"

lemma demo_search_result:
  "fst (longest_match_best demo_text 103 demo_search) = 9"
  "best_match (snd (longest_match_best demo_text 103 demo_search)) = 100"
  "unc_end demo_search = 112"
  by code_simp+

section \<open>Compression\<close>

text \<open>The chunks of a whole call, for the search that the context asks for.\<close>

definition lznt_chunks :: "(nat \<Rightarrow> byte) \<Rightarrow> nat \<Rightarrow> nat \<Rightarrow> nat \<Rightarrow> lznt \<Rightarrow> (bool \<times> byte list) option" where
  "lznt_chunks mem u n room ctx =
     (if std ctx then compress_chunks longest_match_std mem u (u + n) room [] True (ctx\<lparr>hash := (\<lambda>_. (0, 0))\<rparr>)
      else compress_chunks longest_match_best mem u (u + n) room [] True ctx)"

lemma compress_lznt_chunks:
  "compress_lznt mem u n room ctx =
     (case lznt_chunks mem u n room ctx of None \<Rightarrow> (n, [])
      | Some (z, out) \<Rightarrow> (if z then 0 else length out, if length out + 2 \<le> room then out @ [0, 0] else out))"
  by (simp add: compress_lznt_def lznt_chunks_def)

lemma lznt_chunks_ok:
  assumes "lznt_chunks mem u n room ctx = Some (z, out)"
  shows "length out \<le> room \<and> (z \<longrightarrow> (\<forall>a\<in>{u..<u + n}. mem a = 0)) \<and> (0 < n \<longrightarrow> read_back mem u (u + n) out)"
proof (cases "std ctx")
  case True
  then show ?thesis
    using assms std.compress_chunks_ok [of mem u "u + n" room "[]" True _ z out] by (auto simp: lznt_chunks_def)
next
  case False
  then show ?thesis
    using assms best.compress_chunks_ok [of mem u "u + n" room "[]" True _ z out] by (auto simp: lznt_chunks_def)
qed

lemma lznt_chunks_empty: "lznt_chunks mem u 0 room ctx = Some (True, [])"
  by (simp add: lznt_chunks_def compress_chunks.simps)

lemma read_back_decompress:
  assumes "read_back mem u (u + n) out"
  shows "decompress_lznt (out @ rest) n = Some (Inr (map mem [u..<u + n]))"
  using assms [unfolded read_back_def Let_def, THEN conjunct2, rule_format, of "[]" rest "[]"] assms
  by (simp add: read_back_def decompress_lznt_def)

lemma compress_lznt_zero:
  assumes "compress_lznt mem u n room ctx = (0, bs)"
  shows "\<forall>a\<in>{u..<u + n}. mem a = 0"
proof (cases "lznt_chunks mem u n room ctx")
  case None
  then show ?thesis using assms lznt_chunks_empty by (cases n) (auto simp: compress_lznt_chunks)
next
  case (Some p)
  obtain z out where p: "p = (z, out)" by fastforce
  note ok = lznt_chunks_ok [OF Some [unfolded p]]
  show ?thesis
  proof (cases z)
    case True
    then show ?thesis using ok by blast
  next
    case False
    then have "out = []" using assms Some p by (simp add: compress_lznt_chunks)
    then show ?thesis using ok by (auto simp: read_back_def)
  qed
qed

text \<open>
  C26: Compression and decompression are inverse at both levels. Unless \<^verbatim>\<open>compress_lznt\<close> returns \<^verbatim>\<open>unc_size\<close>, which
  stands for data that does not fit, a result of 0 means that the data is all zeros, and any other result that it
  has written no more than \<^verbatim>\<open>cmpr_size\<close> bytes and that \<^verbatim>\<open>decompress_lznt\<close> of the number of bytes it returns, with
  the end mark or anything else behind them, gives the data back.
\<close>
theorem lznt_round_trip:
  assumes "compress_lznt mem u n room ctx = (r, bs)" "r \<noteq> n"
  shows "if r = 0 then \<forall>a\<in>{u..<u + n}. mem a = 0
    else r \<le> length bs \<and> length bs \<le> room \<and>
      decompress_lznt (take r bs @ rest) n = Some (Inr (map mem [u..<u + n]))"
proof (cases "r = 0")
  case True
  then show ?thesis using compress_lznt_zero assms(1) by simp
next
  case False
  obtain out where chunks: "lznt_chunks mem u n room ctx = Some (False, out)" and r: "r = length out"
    and bs: "bs = (if length out + 2 \<le> room then out @ [0, 0] else out)"
    using assms False by (auto simp: compress_lznt_chunks split: option.splits prod.splits if_splits)
  have "0 < n" using chunks lznt_chunks_empty by (cases n) auto
  then have "length out \<le> room" "read_back mem u (u + n) out" using lznt_chunks_ok [OF chunks] by auto
  then show ?thesis using read_back_decompress r bs False by simp
qed

theorem lznt_round_trip_witness:
  "compress_lznt demo_text 100 12 64 (demo_ctx 0) = (8, [5, 0xB0, 8, 98, 99, 97, 6, 0x20, 0, 0]) \<and>
   decompress_lznt [5, 0xB0, 8, 98, 99, 97, 6, 0x20, 0, 0] 12 = Some (Inr (map demo_text [100..<112])) \<and>
   fst (compress_lznt demo_text 10 12 64 (demo_ctx 1)) = 0 \<and> demo_text 21 = 0"
  using lznt_round_trip [OF demo_compress(1), of "[0, 0]"] lznt_round_trip [OF demo_compress_zeros]
    demo_compress(1) demo_compress_zeros by simp

text \<open>
  C34: \<^verbatim>\<open>longest_match_best\<close> finds the longest match: it returns 0 only when no earlier position of the chunk has a
  match of three bytes, and otherwise \<^verbatim>\<open>best_match\<close> is a match of the length it returns and no match is longer.
\<close>
theorem longest_match_best_longest:
  assumes "longest_match_best mem src ctx = (n, ctx')" "src \<le> unc_end ctx"
  shows "if n = 0 then \<nexists>k p. match_ok mem ctx src k p
    else match_ok mem ctx src n (best_match ctx') \<and> (\<nexists>k p. match_ok mem ctx src k p \<and> n < k)"
proof (cases "n = 0")
  case True
  then show ?thesis using longest_match_best_ok(3) [OF assms] by (force simp: match_ok_def)
next
  case False
  then show ?thesis using longest_match_best_ok(2,3) [OF assms] by (auto simp: not_less)
qed

theorem longest_match_best_longest_witness:
  "fst (longest_match_best demo_text 103 demo_search) = 9 \<and> match_ok demo_text demo_search 103 9 100"
  using longest_match_best_longest [OF prod.collapse [symmetric], of 103 demo_search demo_text]
  by (simp add: demo_search_result)

section \<open>Decompression\<close>

lemma demo_overrun: "decompress_chunk 8192 [2, 7, 0xff, 0x0f, 9] = None"
proof -
  let ?cs = "[2, 7, 0xff, 0x0f, 9] :: byte list"
  have idx: "adjust_index 0 0 = 0" "adjust_index 1 0 = 0" "adjust_index 4099 0 = 9" by code_simp+
  have item1: "decode_item ?cs 8192 1 2 0 0 [] = Inr (2, [7])" by (simp add: decode_item_def)
  have item2: "decode_item ?cs 8192 2 2 1 0 [7] = Inr (4, copy_match 4098 1 [7])"
    by (simp add: decode_item_def parse_pair_def)
  have "decompress_loop ?cs 8192 4 2 2 0 (copy_match 4098 1 [7]) = None"
    using idx(3) by (subst decompress_loop.simps) simp
  then show ?thesis
    unfolding decompress_chunk_def
    using idx item1 item2 suc_and_7 [of 1] by (simp add: Let_def numeral_2_eq_2 [symmetric] decompress_loop.simps [of _ _ "Suc 0"] decompress_loop.simps [of _ _ 2])
qed

text \<open>
  C33: The decompression of any input. It puts out no more than \<^verbatim>\<open>unc_size\<close> bytes, and its only error is \<^verbatim>\<open>-EINVAL\<close>.
  It reads \<^verbatim>\<open>s_max_off\<close> within its bounds when the output holds no more than one chunk; for a larger output a chunk may
  expand beyond 4096 bytes, and then it reads behind the table, as the input of seven bytes shows.
\<close>
theorem decompress_lznt_within:
  "result_within n (decompress_lznt cs n) \<and> decompress_lznt [4, 0xB0, 2, 7, 0xff, 0x0f, 9] 8192 = None"
proof
  show "result_within n (decompress_lznt cs n)"
    using decompress_chunks_within [of "[]" n] by (simp add: decompress_lznt_def result_within_def [of _ "Some (Inl _)"])
  have "chunk_hdr [4, 0xB0, 2, 7, 0xff, 0x0f, 9] 0 = 0xB004" by (simp add: chunk_hdr_def)
  then show "decompress_lznt [4, 0xB0, 2, 7, 0xff, 0x0f, 9] 8192 = None"
    using demo_overrun by (simp add: decompress_lznt_def decompress_chunks.simps [of _ _ 0] chunk_data_def memget_def)
qed

end
