(* ===== verification/Ntfs_Upcase.thy ===== *)
theory Ntfs_Upcase
  imports C_Prelude "HOL-Library.List_Lexorder" "HOL-Library.Product_Lexorder"
begin

text \<open>
  The comparison of names of \<^verbatim>\<open>fs/ntfs3/upcase.c\<close>, by which the directory index is sorted. A name is the list of its
  16-bit characters in the byte order of the processor, so that \<^verbatim>\<open>le16_to_cpu\<close> has been applied; the table
  \<^verbatim>\<open>upcase\<close>, read from the volume, is a function or missing. The comparison is shown to be the lexicographic order of
  a key.
\<close>

type_synonym chr = "16 word"
type_synonym name = "chr list"

definition upcase_unicode_char :: "(chr \<Rightarrow> chr) \<Rightarrow> chr \<Rightarrow> chr" where
  "upcase_unicode_char upcase chr = (if chr < 97 then chr else if chr \<le> 122 then chr - (97 - 65) else upcase chr)"

text \<open>The difference of two characters, and of two lengths as an \<^verbatim>\<open>int\<close>.\<close>

definition chr_diff :: "chr \<Rightarrow> chr \<Rightarrow> int" where
  "chr_diff a b = int (unat a) - int (unat b)"

definition len_diff :: "name \<Rightarrow> name \<Rightarrow> int" where
  "len_diff s t = s32 (u32_of_int (int (length s) - int (length t)))"

text \<open>
  The first loop, over the characters as they are: the difference at the first place where the names differ, and what
  is left of both from there on; 0 when the shorter name ends first.
\<close>

fun exact_loop :: "name \<Rightarrow> name \<Rightarrow> int \<times> name \<times> name" where
  "exact_loop (a # s) (b # t) =
     (let diff1 = chr_diff a b in if diff1 \<noteq> 0 then (diff1, a # s, b # t) else exact_loop s t)"
| "exact_loop s t = (0, s, t)"

text \<open>The second loop, over the characters in upper case.\<close>

fun upcase_loop :: "(chr \<Rightarrow> chr) \<Rightarrow> name \<Rightarrow> name \<Rightarrow> int" where
  "upcase_loop upcase (a # s) (b # t) =
     (let diff2 = chr_diff (upcase_unicode_char upcase a) (upcase_unicode_char upcase b) in
      if diff2 \<noteq> 0 then diff2 else upcase_loop upcase s t)"
| "upcase_loop upcase s t = 0"

text \<open>
  From the label \<^verbatim>\<open>case_insentive\<close> on, where \<open>s\<close> and \<open>t\<close> are left of the names and \<open>d\<close> is the difference of
  their lengths.
\<close>

definition case_insensitive :: "(chr \<Rightarrow> chr) \<Rightarrow> name \<Rightarrow> name \<Rightarrow> int \<Rightarrow> int \<Rightarrow> int" where
  "case_insensitive upcase s t d diff1 =
     (let diff2 = upcase_loop upcase s t in
      if diff2 \<noteq> 0 then diff2 else if d \<noteq> 0 then d else diff1)"

definition ntfs_cmp_names :: "name \<Rightarrow> name \<Rightarrow> (chr \<Rightarrow> chr) option \<Rightarrow> bool \<Rightarrow> int" where
  "ntfs_cmp_names s1 s2 upcase bothcase =
     (case upcase of
        Some up \<Rightarrow>
          if \<not> bothcase then case_insensitive up s1 s2 (len_diff s1 s2) 0
          else
            (case exact_loop s1 s2 of
               (diff1, s, t) \<Rightarrow> if diff1 \<noteq> 0 then case_insensitive up s t (len_diff s1 s2) diff1 else len_diff s1 s2)
      | None \<Rightarrow>
          (case exact_loop s1 s2 of (diff1, _, _) \<Rightarrow> if diff1 \<noteq> 0 then diff1 else len_diff s1 s2))"

text \<open>
  \<^verbatim>\<open>struct cpu_str\<close> and \<^verbatim>\<open>struct le_str\<close>: a length in one byte and at least that many characters.
  \<^verbatim>\<open>ntfs_cmp_names_cpu\<close> has the same two loops, where the first name needs no conversion of its byte order.
\<close>

record str =
  str_len :: "8 word"
  str_name :: name

definition ntfs_cmp_names_cpu :: "str \<Rightarrow> str \<Rightarrow> (chr \<Rightarrow> chr) option \<Rightarrow> bool \<Rightarrow> int" where
  "ntfs_cmp_names_cpu uni1 uni2 upcase bothcase =
     ntfs_cmp_names (take (unat (str_len uni1)) (str_name uni1)) (take (unat (str_len uni2)) (str_name uni2)) upcase bothcase"

section \<open>One pass and two passes\<close>

text \<open>A comparison in one case: the first difference, then the difference of the lengths.\<close>

definition straight_cmp :: "(chr \<Rightarrow> chr) \<Rightarrow> name \<Rightarrow> name \<Rightarrow> int" where
  "straight_cmp f s t =
     (case filter (\<lambda>(a, b). f a \<noteq> f b) (zip s t) of (a, b) # _ \<Rightarrow> chr_diff (f a) (f b) | [] \<Rightarrow> int (length s) - int (length t))"

lemma chr_diff_0 [simp]: "chr_diff a b = 0 \<longleftrightarrow> a = b"
  by (auto simp: chr_diff_def word_uint_eq_iff)

lemma chr_diff_neg: "chr_diff a b < 0 \<longleftrightarrow> a < b"
  by (simp add: chr_diff_def word_less_def)

lemma straight_cmp_simps [simp]:
  "straight_cmp f (a # s) (b # t) = (if f a = f b then straight_cmp f s t else chr_diff (f a) (f b))"
  "straight_cmp f [] t = - int (length t)" "straight_cmp f s [] = int (length s)"
  by (simp_all add: straight_cmp_def split: list.split)

lemma len_diff_eq:
  assumes "length s < 2 ^ 31" "length t < 2 ^ 31"
  shows "len_diff s t = int (length s) - int (length t)"
  unfolding len_diff_def using assms by (intro s32_u32_of_int) auto

lemma upcase_loop_straight:
  "(if upcase_loop up s t \<noteq> 0 then upcase_loop up s t else int (length s) - int (length t)) =
   straight_cmp (upcase_unicode_char up) s t"
  by (induction up s t rule: upcase_loop.induct) (auto simp: Let_def)

lemma exact_loop_straight:
  "(if fst (exact_loop s t) \<noteq> 0 then fst (exact_loop s t) else int (length s) - int (length t)) = straight_cmp (\<lambda>a. a) s t"
  by (induction s t rule: exact_loop.induct) (auto simp: Let_def)

lemma exact_loop_rest:
  "exact_loop s t = (d, s', t') \<Longrightarrow> upcase_loop up s' t' = upcase_loop up s t"
  by (induction s t rule: exact_loop.induct) (auto simp: Let_def split: if_splits)

lemma exact_loop_same:
  "fst (exact_loop s t) = 0 \<Longrightarrow> upcase_loop up s t = 0"
  by (induction s t rule: exact_loop.induct) (auto simp: Let_def split: if_splits)

lemma one_pass:
  assumes "length s < 2 ^ 31" "length t < 2 ^ 31"
  shows "ntfs_cmp_names s t upcase bothcase =
    (case upcase of
       None \<Rightarrow> straight_cmp (\<lambda>a. a) s t
     | Some up \<Rightarrow>
         let d = straight_cmp (upcase_unicode_char up) s t in
         if d = 0 \<and> bothcase then straight_cmp (\<lambda>a. a) s t else d)"
proof -
  obtain d s' t' where e: "exact_loop s t = (d, s', t')" using prod_cases3 by blast
  show ?thesis
    using exact_loop_rest [OF e] exact_loop_same [of s t] e
    unfolding upcase_loop_straight [symmetric] exact_loop_straight [symmetric]
    by (auto simp: ntfs_cmp_names_def case_insensitive_def len_diff_eq [OF assms] Let_def split: option.split)
qed

text \<open>
  C36: The single pass of \<^verbatim>\<open>ntfs_cmp_names\<close> gives what the straight way of its comment gives in two: the names are
  compared in upper case, and only when they are equal so and \<^verbatim>\<open>bothcase\<close> is set as they are; without a table they
  are compared as they are.
\<close>
theorem ntfs_cmp_names_straight:
  assumes "length s < 2 ^ 31" "length t < 2 ^ 31"
  shows "ntfs_cmp_names s t upcase bothcase =
    (case upcase of
       None \<Rightarrow> straight_cmp (\<lambda>a. a) s t
     | Some up \<Rightarrow>
         let d = straight_cmp (upcase_unicode_char up) s t in
         if d = 0 \<and> bothcase then straight_cmp (\<lambda>a. a) s t else d)"
  by (rule one_pass [OF assms])

theorem ntfs_cmp_names_straight_witness:
  "ntfs_cmp_names [98, 65] [66, 97] (Some id) True = straight_cmp (\<lambda>a. a) [98, 65] [66, 97]"
  using ntfs_cmp_names_straight [of "[98, 65]" "[66, 97]" "Some id" True] by (simp add: upcase_unicode_char_def)

section \<open>The order of names\<close>

lemma straight_cmp_order:
  "straight_cmp f s t < 0 \<longleftrightarrow> map f s < map f t" "straight_cmp f s t = 0 \<longleftrightarrow> map f s = map f t"
  by (induction s t rule: list_induct2') (auto simp: chr_diff_neg)

text \<open>What names are sorted by: their characters in upper case, then their characters.\<close>

definition name_key :: "(chr \<Rightarrow> chr) option \<Rightarrow> bool \<Rightarrow> name \<Rightarrow> name \<times> name" where
  "name_key upcase bothcase s =
     (case upcase of None \<Rightarrow> (s, []) | Some up \<Rightarrow> (map (upcase_unicode_char up) s, if bothcase then s else []))"

text \<open>
  C35: \<^verbatim>\<open>ntfs_cmp_names\<close> implements a linear order: its result is negative exactly when the key of the first name is
  lexicographically smaller and 0 exactly when the keys are equal. The comparison of the index is therefore
  transitive and total, and with \<^verbatim>\<open>bothcase\<close> only equal names compare equal.
\<close>
theorem ntfs_cmp_names_order:
  assumes "length s < 2 ^ 31" "length t < 2 ^ 31"
  shows "(ntfs_cmp_names s t upcase bothcase < 0 \<longleftrightarrow> name_key upcase bothcase s < name_key upcase bothcase t) \<and>
    (ntfs_cmp_names s t upcase bothcase = 0 \<longleftrightarrow> name_key upcase bothcase s = name_key upcase bothcase t)"
  using straight_cmp_order [of "\<lambda>a. a" s t] straight_cmp_order [of _ s t]
  unfolding one_pass [OF assms] by (auto simp: name_key_def Let_def split: option.splits)

theorem ntfs_cmp_names_order_witness:
  "ntfs_cmp_names [97, 66] [65, 98, 99] (Some id) True < 0 \<and> ntfs_cmp_names [97, 66] [65, 98] (Some id) False = 0"
  using ntfs_cmp_names_order [of "[97, 66]" "[65, 98, 99]" "Some id" True] ntfs_cmp_names_order [of "[97, 66]" "[65, 98]" "Some id" False]
  by (simp add: name_key_def upcase_unicode_char_def)

end
